(* ===== verification/Prelude.thy ===== *)
theory Prelude
  imports Main "HOL-Library.Word" "HOL-Library.AList" "HOL-Library.List_Lexorder"
    "HOL-Library.Char_ord"
begin

text \<open>
  The shared vocabulary of the development: machine integers, C++ faults, raw memory
  copies, the integer conversions of C++, and \<^verbatim>\<open>std::unordered_map\<close> as an association list
  with distinct keys whose list order is the iteration order.  The generic lemmas the
  component theories use are collected here; \<open>alist_simps\<close> and \<open>rb_unat\<close> are
  the named collections they are handed to the simplifier with.
\<close>

section \<open>Machine integers\<close>

type_synonym u8 = "8 word"
type_synonym u16 = "16 word"
type_synonym u32 = "32 word"
type_synonym u64 = "64 word"

text \<open>\<^verbatim>\<open>NodeId\<close> is a \<^verbatim>\<open>std::string\<close>, compared bytewise and lexicographically.\<close>

type_synonym node_id = string

abbreviation (input) c_invalidNodeId :: node_id where
  "c_invalidNodeId \<equiv> []"

named_theorems alist_simps \<open>rewriting of the association-list maps\<close>
named_theorems rb_unat \<open>natural-number readings of machine arithmetic\<close>

section \<open>Faults\<close>

text \<open>
  Undefined behaviour and aborts of the C++ source are values: an access outside an array, a
  null pointer dereference, a failing \<^verbatim>\<open>assert\<close>, a read through a pointer to freed memory, an \<^verbatim>\<open>int\<close> that
  overflows and an exception that nobody catches.
\<close>

datatype fault = OutOfBounds | NullDeref | AssertFailed | Dangling | SignedOverflow | Uncaught

type_synonym 'a run = "fault + 'a"

text \<open>Sequencing of computations that may fault.\<close>

fun and_then :: "'a run \<Rightarrow> ('a \<Rightarrow> 'b run) \<Rightarrow> 'b run" where
  "and_then (Inl e) f = Inl e"
| "and_then (Inr x) f = f x"

lemma and_then_Inr: "and_then m f = Inr y \<longleftrightarrow> (\<exists>x. m = Inr x \<and> f x = Inr y)"
  by (cases m) auto

lemma and_then_assoc: "and_then (and_then m f) g = and_then m (\<lambda>x. and_then (f x) g)"
  by (cases m) simp_all

section \<open>Raw memory\<close>

text \<open>
  \<open>mem_read src off n\<close> reads \<open>n\<close> bytes at offset \<open>off\<close>; \<open>mem_write dst off bs\<close> is a
  \<^verbatim>\<open>memcpy\<close> of \<open>bs\<close> to offset \<open>off\<close>.  Both fault outside the array.
\<close>

definition mem_read :: "'a list \<Rightarrow> nat \<Rightarrow> nat \<Rightarrow> 'a list run" where
  "mem_read src off n =
     (if off + n \<le> length src then Inr (take n (drop off src)) else Inl OutOfBounds)"

definition mem_write :: "'a list \<Rightarrow> nat \<Rightarrow> 'a list \<Rightarrow> 'a list run" where
  "mem_write dst off bs =
     (if off + length bs \<le> length dst
      then Inr (take off dst @ bs @ drop (off + length bs) dst) else Inl OutOfBounds)"

lemma mem_read_ok [simp]:
  "off + n \<le> length src \<Longrightarrow> mem_read src off n = Inr (take n (drop off src))"
  by (simp add: mem_read_def)

lemma mem_write_ok [simp]:
  "off + length bs \<le> length dst \<Longrightarrow>
   mem_write dst off bs = Inr (take off dst @ bs @ drop (off + length bs) dst)"
  by (simp add: mem_write_def)

section \<open>Conversions between \<open>int\<close> and \<open>size_t\<close>\<close>

text \<open>
  \<^verbatim>\<open>int x = <size_t>\<close> keeps the low 32 bits; comparing the \<^verbatim>\<open>int\<close> with a \<^verbatim>\<open>size_t\<close>
  converts it back with sign extension.
\<close>

definition int_of_size :: "u64 \<Rightarrow> u32" where
  "int_of_size w = ucast w"

definition size_of_int :: "u32 \<Rightarrow> u64" where
  "size_of_int w = scast w"

lemma unat_less_uint: "unat (w :: 'a::len word) < n \<Longrightarrow> uint w < int n"
  by (simp only: uint_nat of_nat_less_iff)

lemma size_of_int_of_size:
  assumes "unat w < 2 ^ 31"
  shows "size_of_int (int_of_size w) = w"
proof -
  have u: "uint w < 2 ^ 31"
    using unat_less_uint [OF assms] by simp
  then have "uint (ucast w :: u32) = uint w"
    by (simp add: uint_up_ucast unsigned_ucast_eq take_bit_int_eq_self_iff)
  then have "sint (ucast w :: u32) = signed_take_bit 31 (uint w)"
    by (simp add: sint_uint)
  also have "\<dots> = uint w"
    by (rule signed_take_bit_int_eq_self) (use u in \<open>simp_all add: order_trans [OF _ uint_ge_0]\<close>)
  finally show ?thesis
    by (simp add: int_of_size_def size_of_int_def scast_eq)
qed

text \<open>The natural-number readings of 64-bit arithmetic that does not wrap.\<close>

lemma unat_plus64 [rb_unat]: "unat a + unat b < 2 ^ 64 \<Longrightarrow> unat (a + b :: u64) = unat a + unat b"
  using unat_add_lem [of a b] by simp

lemma unat_minus64 [rb_unat]: "unat b \<le> unat a \<Longrightarrow> unat (a - b :: u64) = unat a - unat b"
  by (simp add: unat_sub word_le_nat_alt)

lemma unat_mod64 [rb_unat]: "unat (a mod b :: u64) = unat a mod unat b"
  by (simp add: unat_mod)

lemma unat_ucast_u32 [simp]: "unat (ucast (n :: u32) :: u64) = unat n"
proof -
  have "unat n < 2 ^ 64" using unsigned_less [of n] by (rule less_trans) simp
  then show ?thesis by (simp add: unsigned_ucast_eq take_bit_nat_eq_self)
qed

lemmas [rb_unat] = word_le_nat_alt word_less_nat_alt size_of_int_of_size

section \<open>Unordered maps\<close>

text \<open>
  A \<^verbatim>\<open>std::unordered_map\<close> is an association list with distinct keys.  The order of the list is
  the iteration order, which the standard leaves open: the theorems quantify over the list, so
  they hold for every order.  \<open>AList.update\<close> is \<^verbatim>\<open>operator[]=\<close>, \<open>map_of\<close> is \<^verbatim>\<open>find\<close>,
  \<open>AList.delete\<close> is \<^verbatim>\<open>erase\<close> and \<open>emplace\<close> leaves an existing binding alone.
\<close>

type_synonym ('k, 'v) umap = "('k \<times> 'v) list"

abbreviation keys :: "('k, 'v) umap \<Rightarrow> 'k list" where
  "keys m \<equiv> map fst m"

definition wf_umap :: "('k, 'v) umap \<Rightarrow> bool" where
  "wf_umap m \<longleftrightarrow> distinct (keys m)"

definition emplace :: "'k \<Rightarrow> 'v \<Rightarrow> ('k, 'v) umap \<Rightarrow> ('k, 'v) umap" where
  "emplace k v m = (if map_of m k = None then m @ [(k, v)] else m)"

lemma map_of_update [alist_simps]: "map_of (AList.update k v m) = (map_of m)(k \<mapsto> v)"
  by (rule ext) (simp add: update_conv)

lemma map_of_delete [alist_simps]: "map_of (AList.delete k m) = (map_of m)(k := None)"
  by (rule ext) (simp add: delete_conv)

lemma map_of_append1: "map_of (m @ [(k, v)]) x = (case map_of m x of None \<Rightarrow> (if x = k then Some v else None) | Some y \<Rightarrow> Some y)"
  by (auto simp: map_add_def split: option.splits)

lemma map_of_emplace [alist_simps]:
  "map_of (emplace k v m) = (if map_of m k = None then (map_of m)(k \<mapsto> v) else map_of m)"
  by (rule ext) (auto simp: emplace_def map_of_append1 simp del: map_of_append split: option.splits)

lemma wf_umap_update [simp, intro]: "wf_umap m \<Longrightarrow> wf_umap (AList.update k v m)"
  by (simp add: wf_umap_def distinct_update)

lemma wf_umap_delete [simp, intro]: "wf_umap m \<Longrightarrow> wf_umap (AList.delete k m)"
  by (simp add: wf_umap_def distinct_delete)

lemma wf_umap_emplace [simp, intro]: "wf_umap m \<Longrightarrow> wf_umap (emplace k v m)"
  by (auto simp: wf_umap_def emplace_def map_of_eq_None_iff)

lemma wf_umap_Nil [simp, intro]: "wf_umap []"
  by (simp add: wf_umap_def)

lemma set_keys: "set (keys m) = dom (map_of m)"
  by (simp add: dom_map_of_conv_image_fst)

lemma map_of_mem: "wf_umap m \<Longrightarrow> (k, v) \<in> set m \<longleftrightarrow> map_of m k = Some v"
  by (auto simp: wf_umap_def)

lemma keys_update_mem: "k \<in> set (keys m) \<Longrightarrow> keys (AList.update k v m) = keys m"
  by (induction m) auto

end
