(* ===== verification/RingBuffer.thy ===== *)
theory RingBuffer
  imports Prelude
begin

text \<open>
  \<^verbatim>\<open>csm-utilities/RingBuffer\<close>: the circular byte buffer every session reads from and writes to.
  The state is the class's four fields; pointers handed out by the buffer are offsets into
  \<open>m_buffer\<close>; every \<^verbatim>\<open>memcpy\<close> is checked against the arrays it touches.  \<open>rb_content\<close> is the
  byte string the buffer stands for, and the operations are shown to be the queue operations
  on it.
\<close>

section \<open>State and operations\<close>

record ringbuffer =
  m_size :: u64
  m_buffer :: "u8 list"
  m_startOffset :: u64
  m_endOffset :: u64

definition c_reservedSpace :: u64 where
  "c_reservedSpace = 2"

definition rb_new :: "u64 \<Rightarrow> ringbuffer" where
  "rb_new sz = \<lparr>m_size = sz, m_buffer = replicate (unat sz) 0,
     m_startOffset = 0, m_endOffset = 0\<rparr>"

definition rb_dataLength :: "ringbuffer \<Rightarrow> u64" where
  "rb_dataLength rb =
     (if m_endOffset rb \<ge> m_startOffset rb then m_endOffset rb - m_startOffset rb
      else m_endOffset rb + (m_size rb - m_startOffset rb))"

definition rb_space :: "ringbuffer \<Rightarrow> u64" where
  "rb_space rb =
     (if m_startOffset rb = m_endOffset rb then m_size rb - c_reservedSpace
      else if m_startOffset rb < m_endOffset rb then
        (if (m_endOffset rb + c_reservedSpace) mod m_size rb = m_startOffset rb then 0
         else (m_size rb - m_endOffset rb) + m_startOffset rb - c_reservedSpace)
      else m_startOffset rb - m_endOffset rb - c_reservedSpace)"

definition rb_writeData :: "ringbuffer \<Rightarrow> u8 list \<Rightarrow> u64 \<Rightarrow> (int \<times> ringbuffer) run" where
  "rb_writeData rb data len =
     (if len > rb_space rb then Inr (-1, rb)
      else if m_startOffset rb > m_endOffset rb then
        and_then (mem_read data 0 (unat len)) (\<lambda>bs.
        and_then (mem_write (m_buffer rb) (unat (m_endOffset rb)) bs) (\<lambda>buf.
        Inr (0, rb\<lparr>m_buffer := buf\<rparr>)))
      else
        (let spaceAfterEndOffset = int_of_size (m_size rb - m_endOffset rb)
         in if size_of_int spaceAfterEndOffset > len then
              and_then (mem_read data 0 (unat len)) (\<lambda>bs.
              and_then (mem_write (m_buffer rb) (unat (m_endOffset rb)) bs) (\<lambda>buf.
              Inr (0, rb\<lparr>m_buffer := buf\<rparr>)))
            else
              and_then (mem_read data 0 (unat (size_of_int spaceAfterEndOffset))) (\<lambda>bs1.
              and_then (mem_write (m_buffer rb) (unat (m_endOffset rb)) bs1) (\<lambda>buf1.
              and_then (mem_read data (unat (size_of_int spaceAfterEndOffset))
                          (unat (len - size_of_int spaceAfterEndOffset))) (\<lambda>bs2.
              and_then (mem_write buf1 0 bs2) (\<lambda>buf2.
              Inr (0, rb\<lparr>m_buffer := buf2\<rparr>)))))))"

definition rb_readData :: "ringbuffer \<Rightarrow> u64 \<Rightarrow> u64 \<Rightarrow> u8 list \<Rightarrow> (int \<times> u8 list) run" where
  "rb_readData rb sz offset data =
     (let usedDataLength = int_of_size (rb_dataLength rb)
      in if size_of_int usedDataLength < sz \<or> of_nat (length data) \<noteq> sz then Inr (-1, data)
         else if m_startOffset rb < m_endOffset rb then
           and_then (mem_read (m_buffer rb) (unat (m_startOffset rb + offset)) (unat sz)) (\<lambda>bs.
           and_then (mem_write data 0 bs) (\<lambda>data'. Inr (0, data')))
         else
           (let firstCopySize = m_size rb - (m_startOffset rb + offset)
            in if sz > firstCopySize then
                 and_then (mem_read (m_buffer rb) (unat (m_startOffset rb + offset))
                             (unat firstCopySize)) (\<lambda>bs1.
                 and_then (mem_write data 0 bs1) (\<lambda>data1.
                 and_then (mem_read (m_buffer rb) 0 (unat (sz - firstCopySize))) (\<lambda>bs2.
                 and_then (mem_write data1 (unat firstCopySize) bs2) (\<lambda>data2.
                 Inr (0, data2)))))
               else
                 (let startOffset = (m_startOffset rb + offset) mod m_size rb
                  in and_then (mem_read (m_buffer rb) (unat startOffset) (unat sz)) (\<lambda>bs.
                     and_then (mem_write data 0 bs) (\<lambda>data'. Inr (0, data'))))))"

definition rb_clear :: "ringbuffer \<Rightarrow> ringbuffer" where
  "rb_clear rb = rb\<lparr>m_startOffset := 0, m_endOffset := 0\<rparr>"

definition rb_getBufferAndLengthForWrite :: "ringbuffer \<Rightarrow> int \<times> (u64 \<times> u64) option" where
  "rb_getBufferAndLengthForWrite rb =
     (if rb_space rb = 0 then (-1, None)
      else if m_startOffset rb \<le> m_endOffset rb then
        (if m_startOffset rb \<ge> c_reservedSpace
         then (0, Some (m_endOffset rb, m_size rb - m_endOffset rb))
         else (0, Some (m_endOffset rb,
                  m_size rb - (c_reservedSpace - m_startOffset rb) - m_endOffset rb)))
      else (0, Some (m_endOffset rb, m_startOffset rb - m_endOffset rb - c_reservedSpace)))"

definition rb_increaseUsedSpace :: "ringbuffer \<Rightarrow> u64 \<Rightarrow> int \<times> ringbuffer" where
  "rb_increaseUsedSpace rb sz =
     (if rb_space rb < sz then (-1, rb)
      else (0, rb\<lparr>m_endOffset := (m_endOffset rb + sz) mod m_size rb\<rparr>))"

definition rb_getBufferForRead :: "ringbuffer \<Rightarrow> u64 \<Rightarrow> int \<times> u64 option" where
  "rb_getBufferForRead rb sz =
     (if rb_dataLength rb < sz then (-1, None)
      else if m_startOffset rb < m_endOffset rb then (0, Some (m_startOffset rb))
      else if m_size rb - m_startOffset rb < sz then (-2, None)
      else (0, Some (m_startOffset rb)))"

definition rb_decreaseUsedSpace :: "ringbuffer \<Rightarrow> u64 \<Rightarrow> int \<times> ringbuffer" where
  "rb_decreaseUsedSpace rb sz =
     (if rb_dataLength rb < sz then (-1, rb)
      else if rb_dataLength rb = sz then (0, rb\<lparr>m_startOffset := 0, m_endOffset := 0\<rparr>)
      else
        (let rb' = rb\<lparr>m_startOffset := (m_startOffset rb + sz) mod m_size rb\<rparr>
         in if m_startOffset rb' = m_endOffset rb'
            then (0, rb'\<lparr>m_startOffset := 0, m_endOffset := 0\<rparr>) else (0, rb')))"

definition rb_getContinuousData :: "ringbuffer \<Rightarrow> int \<times> (u64 \<times> u64) option" where
  "rb_getContinuousData rb =
     (if rb_dataLength rb = 0 then (-1, None)
      else if m_startOffset rb < m_endOffset rb then
        (0, Some (m_startOffset rb, m_endOffset rb - m_startOffset rb))
      else if m_endOffset rb \<le> c_reservedSpace then
        (0, Some (m_startOffset rb,
           m_size rb - (c_reservedSpace - m_endOffset rb) - m_startOffset rb))
      else (0, Some (m_startOffset rb, m_size rb - m_startOffset rb)))"

text \<open>
  The pair of calls every writer makes: copy the bytes behind the end offset, then account for
  them (\<^verbatim>\<open>SessionDataDecoder::writeDataToP2PSessionReadBuffer\<close>, and the same two calls in
  \<^verbatim>\<open>SlaveReactor::handleSend\<close>).
\<close>

definition rb_push :: "ringbuffer \<Rightarrow> u8 list \<Rightarrow> (int \<times> ringbuffer) run" where
  "rb_push rb data =
     and_then (rb_writeData rb data (of_nat (length data))) (\<lambda>(ret, rb1).
       if ret = -1 then Inr (-1, rb1)
       else (let (ret2, rb2) = rb_increaseUsedSpace rb1 (of_nat (length data))
             in if ret2 = -1 then Inl AssertFailed else Inr (0, rb2)))"

section \<open>Well-formed buffers and their content\<close>

text \<open>The byte string a buffer holds: from the start offset to the end offset, wrapping round.\<close>

definition ring_content :: "nat \<Rightarrow> nat \<Rightarrow> 'a list \<Rightarrow> 'a list" where
  "ring_content s e buf =
     (if s \<le> e then take (e - s) (drop s buf) else drop s buf @ take e buf)"

definition rb_content :: "ringbuffer \<Rightarrow> u8 list" where
  "rb_content rb =
     ring_content (unat (m_startOffset rb)) (unat (m_endOffset rb)) (m_buffer rb)"

text \<open>
  Both offsets lie inside the array, two bytes stay free, and an empty buffer has both offsets
  at 0.  The array is shorter than \<open>2 ^ 31\<close> bytes, because the code passes lengths through
  \<^verbatim>\<open>int\<close>; sessions use \<open>16 * 1024\<close>.
\<close>

definition wf_rb :: "ringbuffer \<Rightarrow> bool" where
  "wf_rb rb \<longleftrightarrow>
     unat (m_size rb) = length (m_buffer rb) \<and> 2 < length (m_buffer rb) \<and>
     length (m_buffer rb) < 2 ^ 31 \<and>
     unat (m_startOffset rb) < length (m_buffer rb) \<and>
     unat (m_endOffset rb) < length (m_buffer rb) \<and>
     (m_startOffset rb = m_endOffset rb \<longrightarrow> m_startOffset rb = 0) \<and>
     length (rb_content rb) + 2 \<le> length (m_buffer rb)"

definition rb_capacity :: "ringbuffer \<Rightarrow> nat" where
  "rb_capacity rb = length (m_buffer rb) - 2"

section \<open>The operations on the content\<close>

lemma wf_rbD:
  assumes "wf_rb rb"
  shows "unat (m_size rb) = length (m_buffer rb)" and "2 < length (m_buffer rb)"
    and "length (m_buffer rb) < 2147483648"
    and "unat (m_startOffset rb) < length (m_buffer rb)"
    and "unat (m_endOffset rb) < length (m_buffer rb)"
    and "length (rb_content rb) + 2 \<le> length (m_buffer rb)"
    and "m_startOffset rb = m_endOffset rb \<Longrightarrow> m_startOffset rb = 0"
  using assms by (auto simp: wf_rb_def)

lemma unat_reserved [simp]: "unat c_reservedSpace = 2"
  by (simp add: c_reservedSpace_def)

lemma length_ring_content:
  "s < length buf \<Longrightarrow> e < length buf \<Longrightarrow>
   length (ring_content s e buf) = (if s \<le> e then e - s else e + (length buf - s))"
  by (auto simp: ring_content_def)

lemma length_rb_content:
  assumes "unat (m_startOffset rb) < length (m_buffer rb)"
    and "unat (m_endOffset rb) < length (m_buffer rb)"
  shows "length (rb_content rb) =
    (if unat (m_startOffset rb) \<le> unat (m_endOffset rb)
     then unat (m_endOffset rb) - unat (m_startOffset rb)
     else unat (m_endOffset rb) + (length (m_buffer rb) - unat (m_startOffset rb)))"
  using assms by (simp add: rb_content_def length_ring_content)

lemma rb_dataLength_unat:
  assumes "wf_rb rb"
  shows "unat (rb_dataLength rb) = length (rb_content rb)"
  using wf_rbD [OF assms]
  by (simp add: rb_dataLength_def length_rb_content rb_unat)

lemma mod_once: "x < 2 * n \<Longrightarrow> n \<le> x \<Longrightarrow> x mod n = x - (n :: nat)"
  by (simp add: le_mod_geq)

lemma rb_space_unat:
  assumes "wf_rb rb"
  shows "unat (rb_space rb) = rb_capacity rb - length (rb_content rb)"
proof -
  let ?S = "unat (m_startOffset rb)" and ?E = "unat (m_endOffset rb)" and ?N = "length (m_buffer rb)"
  note wf = wf_rbD [OF assms]
  have len: "length (rb_content rb) = (if ?S \<le> ?E then ?E - ?S else ?E + (?N - ?S))"
    using wf by (simp add: length_rb_content)
  have plus2: "unat ((m_endOffset rb + c_reservedSpace) mod m_size rb) = (?E + 2) mod ?N"
    using wf by (simp add: rb_unat)
  consider (eq) "?S = ?E" | (lt) "?S < ?E" | (gt) "?E < ?S" by linarith
  then show ?thesis
  proof cases
    case eq
    then have "m_startOffset rb = m_endOffset rb" by (rule word_unat_eq_iff [THEN iffD2])
    with wf len show ?thesis by (simp add: rb_space_def rb_capacity_def rb_unat)
  next
    case lt
    then have ne: "m_startOffset rb \<noteq> m_endOffset rb" "m_startOffset rb < m_endOffset rb"
      by (auto simp: word_less_nat_alt)
    show ?thesis
    proof (cases "(m_endOffset rb + c_reservedSpace) mod m_size rb = m_startOffset rb")
      case True
      then have "(?E + 2) mod ?N = ?S" using plus2 by simp
      with lt wf(2,5) mod_once [of "?E + 2" ?N] have "?E + 2 = ?N + ?S"
        by (cases "?E + 2 < ?N") simp_all
      with True ne lt len show ?thesis by (simp add: rb_space_def rb_capacity_def)
    next
      case False
      with ne lt wf len show ?thesis by (simp add: rb_space_def rb_capacity_def rb_unat)
    qed
  next
    case gt
    then have "m_startOffset rb \<noteq> m_endOffset rb" "\<not> m_startOffset rb < m_endOffset rb"
      by (auto simp: word_less_nat_alt)
    with gt wf len show ?thesis by (simp add: rb_space_def rb_capacity_def rb_unat)
  qed
qed

lemma rb_writeData_full:
  "rb_space rb < len \<Longrightarrow> rb_writeData rb data len = Inr (-1, rb)"
  by (simp add: rb_writeData_def)

lemma rb_increase_unat:
  assumes "wf_rb rb" and "unat n \<le> rb_capacity rb - length (rb_content rb)"
  shows "rb_increaseUsedSpace rb n = (0, rb\<lparr>m_endOffset := (m_endOffset rb + n) mod m_size rb\<rparr>)"
    and "unat ((m_endOffset rb + n) mod m_size rb) = (unat (m_endOffset rb) + unat n) mod length (m_buffer rb)"
  using wf_rbD [OF assms(1)] assms
  by (simp_all add: rb_increaseUsedSpace_def rb_unat rb_space_unat rb_capacity_def not_less)

text \<open>The array after a write: the new bytes, placed from the end offset on, wrapping round.\<close>

definition ring_store :: "nat \<Rightarrow> u8 list \<Rightarrow> u8 list \<Rightarrow> u8 list" where
  "ring_store e data buf =
     (let k = length buf - e
      in if length data \<le> k then take e buf @ data @ drop (e + length data) buf
         else drop k data @ drop (length data - k) (take e buf) @ take k data)"

lemma length_ring_store:
  "e \<le> length buf \<Longrightarrow> length data \<le> length buf \<Longrightarrow> length (ring_store e data buf) = length buf"
  by (auto simp: ring_store_def Let_def)

lemma rb_writeData_store:
  assumes wf: "wf_rb rb" and len: "unat len = length data"
    and fits: "length data \<le> rb_capacity rb - length (rb_content rb)"
  shows "rb_writeData rb data len =
    Inr (0, rb\<lparr>m_buffer := ring_store (unat (m_endOffset rb)) data (m_buffer rb)\<rparr>)"
proof -
  let ?S = "unat (m_startOffset rb)" and ?E = "unat (m_endOffset rb)" and ?N = "length (m_buffer rb)"
  note wfd = wf_rbD [OF wf]
  have lc: "length (rb_content rb) = (if ?S \<le> ?E then ?E - ?S else ?E + (?N - ?S))"
    using wfd by (simp add: length_rb_content)
  have sp: "\<not> rb_space rb < len"
    using fits by (simp add: word_less_nat_alt rb_space_unat [OF wf] len)
  have k: "size_of_int (int_of_size (m_size rb - m_endOffset rb)) = m_size rb - m_endOffset rb"
    and ku: "unat (m_size rb - m_endOffset rb) = ?N - ?E"
    using wfd by (simp_all add: rb_unat)
  show ?thesis
  proof (cases "?E < ?S")
    case True
    then show ?thesis
      using sp len fits lc wfd
      by (simp add: rb_writeData_def rb_capacity_def word_less_nat_alt ring_store_def Let_def)
  next
    case False
    have fit2: "length data \<le> ?N - ?E + ?S"
      using False fits lc wfd by (simp add: rb_capacity_def)
    show ?thesis
    proof (cases "length data < ?N - ?E")
      case True
      then show ?thesis
        using False sp len wfd
        by (simp add: rb_writeData_def word_less_nat_alt k ku ring_store_def Let_def)
    next
      case long: False
      then have d: "unat (len - (m_size rb - m_endOffset rb)) = length data - (?N - ?E)"
        using len by (simp add: ku rb_unat)
      show ?thesis
        using False long sp len wfd fit2
        by (auto simp: rb_writeData_def word_less_nat_alt k ku d ring_store_def Let_def)
    qed
  qed
qed


lemma unat_of_length: "length xs < 2 ^ 64 \<Longrightarrow> unat (of_nat (length xs) :: u64) = length xs"
  by (simp add: unat_of_nat take_bit_nat_eq_self)

lemma content_ring_store:
  assumes "S < length buf" and "E < length buf"
    and fits: "(if S \<le> E then E - S else E + (length buf - S)) + length data + 2 \<le> length buf"
  defines "E' \<equiv> (E + length data) mod length buf"
  shows "ring_content S E' (ring_store E data buf) = ring_content S E buf @ data"
proof (cases "E + length data < length buf")
  case True
  then have E': "E' = E + length data" by (simp add: E'_def)
  have st: "ring_store E data buf = take E buf @ data @ drop (E + length data) buf"
    using True assms(2) by (simp add: ring_store_def Let_def less_diff_conv le_diff_conv2)
  show ?thesis
  proof (cases "S \<le> E")
    case True
    then have "drop S (ring_store E data buf) = drop S (take E buf) @ data @ drop (E + length data) buf"
      using assms(1,2) by (simp add: st)
    then have "take (E + length data - S) (drop S (ring_store E data buf)) = drop S (take E buf) @ data"
      using True assms(2) by simp
    then show ?thesis using True by (simp add: ring_content_def E' drop_take)
  next
    case False
    with fits have "E + (length buf - S) + length data + 2 \<le> length buf" by simp
    then have "E + length data < S" using assms(1) by linarith
    then show ?thesis using False assms(1,2) by (simp add: ring_content_def E' st)
  qed
next
  case False
  let ?k = "length buf - E"
  have SE: "S \<le> E" using fits assms(1,2) False by (auto split: if_splits)
  have E': "E' = length data - ?k"
    using False SE fits assms(1,2) by (simp add: E'_def mod_once)
  have lt: "E' + 2 \<le> S" using SE fits assms(1,2) False by (simp add: E')
  show ?thesis
  proof (cases "length data = ?k")
    case True
    then show ?thesis using SE E' lt assms(1,2)
      by (simp add: ring_content_def ring_store_def Let_def drop_take)
  next
    case ne: False
    then have "\<not> length data \<le> ?k" using False assms(2) by linarith
    then have st: "ring_store E data buf = drop ?k data @ drop E' (take E buf) @ take ?k data"
      by (simp add: ring_store_def Let_def E')
    have "drop S (ring_store E data buf) = drop S (take E buf) @ take ?k data"
      using lt SE assms(1,2) False by (simp add: st E')
    moreover have "take E' (ring_store E data buf) = drop ?k data"
      using False by (simp add: st E')
    ultimately show ?thesis using lt SE by (simp add: ring_content_def drop_take)
  qed
qed

lemma rb_push_append:
  assumes wf: "wf_rb rb" and fits: "length data \<le> rb_capacity rb - length (rb_content rb)"
  obtains rb' where "rb_push rb data = Inr (0, rb')" "wf_rb rb'"
    "rb_content rb' = rb_content rb @ data" "rb_capacity rb' = rb_capacity rb"
proof -
  let ?S = "unat (m_startOffset rb)" and ?E = "unat (m_endOffset rb)" and ?N = "length (m_buffer rb)"
  let ?n = "of_nat (length data) :: u64"
  let ?rb1 = "rb\<lparr>m_buffer := ring_store ?E data (m_buffer rb)\<rparr>"
  define rb' where "rb' = ?rb1\<lparr>m_endOffset := (m_endOffset rb + ?n) mod m_size rb\<rparr>"
  note wfd = wf_rbD [OF wf]
  have lc: "length (rb_content rb) = (if ?S \<le> ?E then ?E - ?S else ?E + (?N - ?S))"
    using wfd by (simp add: length_rb_content)
  have ld: "length data + length (rb_content rb) + 2 \<le> ?N"
    using fits wfd by (simp add: rb_capacity_def)
  then have un: "unat ?n = length data"
    using wfd(3) by (intro unat_of_length) simp
  have lst: "length (ring_store ?E data (m_buffer rb)) = ?N"
    using wfd ld by (intro length_ring_store) linarith+
  have sp: "rb_space ?rb1 = rb_space rb" by (simp add: rb_space_def)
  have inc: "rb_increaseUsedSpace ?rb1 ?n = (0, rb')"
    using rb_increase_unat(1) [OF wf, of ?n] fits un
    by (simp add: rb_increaseUsedSpace_def sp rb'_def split: if_splits)
  have eu: "unat (m_endOffset rb') = (?E + length data) mod ?N"
    using rb_increase_unat(2) [OF wf, of ?n] fits un by (simp add: rb'_def)
  have push: "rb_push rb data = Inr (0, rb')"
    using rb_writeData_store [OF wf un fits] inc by (simp add: rb_push_def)
  have content: "rb_content rb' = rb_content rb @ data"
    using content_ring_store [of ?S "m_buffer rb" ?E data] wfd ld lc eu
    by (simp add: rb_content_def rb'_def)
  have E'lt: "unat (m_endOffset rb') < ?N" unfolding eu using wfd(2) by (intro mod_less_divisor) linarith
  have emp: "m_startOffset rb' = m_endOffset rb' \<Longrightarrow> m_startOffset rb' = 0"
  proof -
    assume eq: "m_startOffset rb' = m_endOffset rb'"
    then have "rb_content rb' = []" by (simp add: rb_content_def ring_content_def)
    with content have "rb_content rb = []" "data = []" by simp_all
    then have "m_endOffset rb' = m_endOffset rb"
      using eu wfd by (simp add: word_unat_eq_iff)
    with eq wfd(7) show ?thesis by (simp add: rb'_def)
  qed
  have "wf_rb rb'"
    using wfd ld lst content E'lt emp by (simp add: wf_rb_def rb'_def)
  then show ?thesis
    using lst by (intro that [OF push _ content]) (simp_all add: rb_capacity_def rb'_def)
qed


lemma rb_push_full:
  assumes "wf_rb rb" and "rb_capacity rb - length (rb_content rb) < length data"
    and "length data < 2 ^ 64"
  shows "rb_push rb data = Inr (-1, rb)"
proof -
  have "rb_space rb < of_nat (length data)"
    using assms by (simp add: word_less_nat_alt rb_space_unat unat_of_length)
  then show ?thesis by (simp add: rb_push_def rb_writeData_full)
qed

subsection \<open>Consuming bytes\<close>

lemma drop_ring_content:
  assumes "S < length buf" and "E < length buf" and "n < length (ring_content S E buf)"
  shows "ring_content ((S + n) mod length buf) E buf = drop n (ring_content S E buf)"
    and "(S + n) mod length buf \<noteq> E"
proof -
  have len: "length (ring_content S E buf) = (if S \<le> E then E - S else E + (length buf - S))"
    using assms(1,2) by (rule length_ring_content)
  have "ring_content ((S + n) mod length buf) E buf = drop n (ring_content S E buf) \<and>
        (S + n) mod length buf \<noteq> E"
  proof (cases "S + n < length buf")
    case True
    then show ?thesis
      using assms len by (auto simp: ring_content_def drop_take add.commute split: if_splits)
  next
    case False
    then have m: "(S + n) mod length buf = S + n - length buf"
      using assms len by (intro mod_once) (auto split: if_splits)
    have SE: "E < S" using False assms len by (auto split: if_splits)
    with False assms len show ?thesis
      by (auto simp: m ring_content_def drop_take add.commute)
  qed
  then show "ring_content ((S + n) mod length buf) E buf = drop n (ring_content S E buf)"
    and "(S + n) mod length buf \<noteq> E" by auto
qed

lemma rb_decrease_drop:
  assumes wf: "wf_rb rb" and n: "unat n \<le> length (rb_content rb)"
  obtains rb' where "rb_decreaseUsedSpace rb n = (0, rb')" "wf_rb rb'"
    "rb_content rb' = drop (unat n) (rb_content rb)" "rb_capacity rb' = rb_capacity rb"
proof -
  let ?S = "unat (m_startOffset rb)" and ?E = "unat (m_endOffset rb)" and ?N = "length (m_buffer rb)"
  note wfd = wf_rbD [OF wf]
  have dl: "unat (rb_dataLength rb) = length (rb_content rb)" by (rule rb_dataLength_unat [OF wf])
  have lt: "\<not> rb_dataLength rb < n" using n dl by (simp add: word_less_nat_alt)
  show ?thesis
  proof (cases "unat n = length (rb_content rb)")
    case True
    then have eq: "rb_dataLength rb = n" using dl by (simp add: word_unat_eq_iff)
    have "m_buffer rb \<noteq> []" using wfd(2) by auto
    then show ?thesis
      by (intro that [of "rb\<lparr>m_startOffset := 0, m_endOffset := 0\<rparr>"])
         (use wfd lt eq True in \<open>simp_all add: rb_decreaseUsedSpace_def wf_rb_def rb_content_def
            ring_content_def rb_capacity_def\<close>)
  next
    case False
    then have ne: "rb_dataLength rb \<noteq> n" using dl by auto
    have nlt: "unat n < length (ring_content ?S ?E (m_buffer rb))"
      using False n by (simp add: rb_content_def)
    have nN: "unat n < ?N" using False n wfd(6) by linarith
    define rb' where "rb' = rb\<lparr>m_startOffset := (m_startOffset rb + n) mod m_size rb\<rparr>"
    have u: "unat (m_startOffset rb') = (?S + unat n) mod ?N"
      using wfd nN by (simp add: rb'_def rb_unat)
    have c: "rb_content rb' = drop (unat n) (rb_content rb)"
      using drop_ring_content(1) [OF wfd(4,5) nlt] u by (simp add: rb_content_def rb'_def)
    have neq: "m_startOffset rb' \<noteq> m_endOffset rb'"
      using drop_ring_content(2) [OF wfd(4,5) nlt] u by (auto simp: rb'_def)
    have "(?S + unat n) mod ?N < ?N" using wfd(2) by (intro mod_less_divisor) linarith
    then have "wf_rb rb'"
      using wfd c neq u by (simp add: wf_rb_def) (simp add: rb'_def)
    moreover have "rb_decreaseUsedSpace rb n = (0, rb')"
      using lt ne neq by (simp add: rb_decreaseUsedSpace_def Let_def rb'_def)
    ultimately show ?thesis by (intro that [OF _ _ c]) (simp_all add: rb_capacity_def rb'_def)
  qed
qed

lemma rb_decrease_short:
  assumes "wf_rb rb" and "length (rb_content rb) < unat n"
  shows "rb_decreaseUsedSpace rb n = (-1, rb)"
  using assms by (simp add: rb_decreaseUsedSpace_def word_less_nat_alt rb_dataLength_unat)


subsection \<open>Reading bytes\<close>

lemma take_drop_ring_content:
  assumes "S < length buf" and "E < length buf" and "p + n \<le> length (ring_content S E buf)"
  shows "S \<le> E \<Longrightarrow> take n (drop p (ring_content S E buf)) = take n (drop (S + p) buf)"
    and "E < S \<Longrightarrow> S + p + n \<le> length buf \<Longrightarrow>
      take n (drop p (ring_content S E buf)) = take n (drop (S + p) buf)"
    and "E < S \<Longrightarrow> length buf \<le> S + p \<Longrightarrow>
      take n (drop p (ring_content S E buf)) = take n (drop (S + p - length buf) buf)"
    and "E < S \<Longrightarrow> S + p \<le> length buf \<Longrightarrow> length buf \<le> S + p + n \<Longrightarrow>
      take n (drop p (ring_content S E buf)) =
      drop (S + p) buf @ take (S + p + n - length buf) buf"
  using assms(3) [unfolded length_ring_content [OF assms(1,2)]] assms(1,2)
  by (auto simp: ring_content_def drop_take min_def add.commute)

lemma rb_readData_content:
  assumes wf: "wf_rb rb" and len: "length data = unat n"
    and fits: "unat p + unat n \<le> length (rb_content rb)"
  shows "rb_readData rb n p data = Inr (0, take (unat n) (drop (unat p) (rb_content rb)))"
proof -
  let ?S = "unat (m_startOffset rb)" and ?E = "unat (m_endOffset rb)" and ?N = "length (m_buffer rb)"
  note wfd = wf_rbD [OF wf]
  have lc: "length (rb_content rb) = (if ?S \<le> ?E then ?E - ?S else ?E + (?N - ?S))"
    using wfd by (simp add: length_rb_content)
  have dl: "size_of_int (int_of_size (rb_dataLength rb)) = rb_dataLength rb"
    using rb_dataLength_unat [OF wf] wfd by (intro size_of_int_of_size) simp
  have g1: "\<not> rb_dataLength rb < n"
    using fits by (simp add: word_less_nat_alt rb_dataLength_unat [OF wf])
  have g2: "word_of_nat (length data) = n" by (simp add: len)
  have sp: "unat (m_startOffset rb + p) = ?S + unat p"
    using wfd fits by (simp add: rb_unat)
  note tdr = take_drop_ring_content [OF wfd(4,5) fits [unfolded rb_content_def]]
  consider (lt) "?S < ?E" | (eq) "?S = ?E" | (gt) "?E < ?S" by linarith
  then show ?thesis
  proof cases
    case lt
    then show ?thesis
      using g1 g2 dl sp lc fits wfd len tdr(1)
      by (simp add: rb_readData_def word_less_nat_alt rb_content_def)
  next
    case eq
    then have "unat n = 0" "unat p = 0" using lc fits by simp_all
    then have z: "n = 0" "p = 0" by (simp_all add: unat_eq_0)
    have "m_startOffset rb = m_endOffset rb" using eq by (simp add: word_unat_eq_iff)
    then have s0: "m_startOffset rb = 0" "m_endOffset rb = 0" using wfd(7) by simp_all
    show ?thesis using g1 g2 dl len z s0 wfd(1,2) by (simp add: rb_readData_def Let_def)
  next
    case gt
    then have ng: "\<not> m_startOffset rb < m_endOffset rb" by (simp add: word_less_nat_alt)
    show ?thesis
    proof (cases "?S + unat p \<le> ?N")
      case True
      then have fc: "unat (m_size rb - (m_startOffset rb + p)) = ?N - (?S + unat p)"
        using wfd sp by (simp add: rb_unat)
      show ?thesis
      proof (cases "?N < ?S + unat p + unat n")
        case wrap: True
        then have fl: "m_size rb - (m_startOffset rb + p) < n"
          using fc True by (simp add: word_less_nat_alt)
        have su: "unat (n - (m_size rb - (m_startOffset rb + p))) = ?S + unat p + unat n - ?N"
          using wrap fc True by (simp add: rb_unat)
        show ?thesis
          using g1 g2 dl ng fl fc su sp gt True wrap wfd len lc fits tdr(4)
          by (simp add: rb_readData_def Let_def rb_content_def)
      next
        case flat: False
        then have fl: "\<not> m_size rb - (m_startOffset rb + p) < n"
          using fc by (simp add: word_less_nat_alt)
        show ?thesis
        proof (cases "?S + unat p = ?N")
          case True
          then have "unat n = 0" using flat by simp
          then show ?thesis
            using g1 g2 dl ng fl wfd len True sp
            by (simp add: rb_readData_def Let_def unat_mod64)
        next
          case False
          then have "unat ((m_startOffset rb + p) mod m_size rb) = ?S + unat p"
            using True wfd sp by (simp add: unat_mod64)
          then show ?thesis
            using g1 g2 dl ng fl gt flat wfd len tdr(2)
            by (simp add: rb_readData_def Let_def rb_content_def)
        qed
      qed
    next
      case far: False
      have big: "unat (m_size rb - (m_startOffset rb + p)) = 2 ^ 64 - (?S + unat p - ?N)"
        using far sp wfd by (simp add: unat_sub_if' word_size)
      have md: "unat ((m_startOffset rb + p) mod m_size rb) = ?S + unat p - ?N"
        using far gt lc fits wfd sp mod_once [of "?S + unat p" ?N] by (simp add: unat_mod64)
      have "?S + unat p - ?N + unat n < ?N"
        using far gt lc fits wfd by simp
      then have fl: "\<not> m_size rb - (m_startOffset rb + p) < n"
        using big wfd(3) by (simp add: word_less_nat_alt)
      show ?thesis
        using g1 g2 dl ng fl gt far lc fits wfd len md tdr(3)
        by (simp add: rb_readData_def Let_def rb_content_def)
    qed
  qed
qed



lemma wf_rb_new: "2 < unat n \<Longrightarrow> unat n < 2 ^ 31 \<Longrightarrow> wf_rb (rb_new n)"
  and content_rb_new: "rb_content (rb_new n) = []"
  and capacity_rb_new: "rb_capacity (rb_new n) = unat n - 2"
  by (auto simp: wf_rb_def rb_new_def rb_content_def ring_content_def rb_capacity_def)

lemma wf_rb_clear: "wf_rb rb \<Longrightarrow> wf_rb (rb_clear rb)"
  and content_rb_clear: "rb_content (rb_clear rb) = []"
  and capacity_rb_clear: "rb_capacity (rb_clear rb) = rb_capacity rb"
  by (auto simp: wf_rb_def rb_clear_def rb_content_def ring_content_def rb_capacity_def)

lemma rb_getBufferForRead_cases:
  assumes wf: "wf_rb rb"
  shows "length (rb_content rb) < unat n \<Longrightarrow> rb_getBufferForRead rb n = (-1, None)"
    and "unat n \<le> length (rb_content rb) \<Longrightarrow>
      unat (m_startOffset rb) < unat (m_endOffset rb) \<or> unat (m_startOffset rb) + unat n \<le> length (m_buffer rb) \<Longrightarrow>
      rb_getBufferForRead rb n = (0, Some (m_startOffset rb)) \<and>
      mem_read (m_buffer rb) (unat (m_startOffset rb)) (unat n) = Inr (take (unat n) (rb_content rb))"
    and "unat n \<le> length (rb_content rb) \<Longrightarrow> \<not> unat (m_startOffset rb) < unat (m_endOffset rb) \<Longrightarrow>
      length (m_buffer rb) < unat (m_startOffset rb) + unat n \<Longrightarrow>
      rb_getBufferForRead rb n = (-2, None)"
proof -
  let ?S = "unat (m_startOffset rb)" and ?E = "unat (m_endOffset rb)" and ?N = "length (m_buffer rb)"
  note wfd = wf_rbD [OF wf]
  have lc: "length (rb_content rb) = (if ?S \<le> ?E then ?E - ?S else ?E + (?N - ?S))"
    using wfd by (simp add: length_rb_content)
  have bs: "unat (m_size rb - m_startOffset rb) = ?N - ?S"
    using wfd by (simp add: rb_unat)
  show "length (rb_content rb) < unat n \<Longrightarrow> rb_getBufferForRead rb n = (-1, None)"
    by (simp add: rb_getBufferForRead_def word_less_nat_alt rb_dataLength_unat [OF wf])
  show "unat n \<le> length (rb_content rb) \<Longrightarrow> \<not> ?S < ?E \<Longrightarrow> ?N < ?S + unat n \<Longrightarrow>
      rb_getBufferForRead rb n = (-2, None)"
    using bs wfd(4) by (simp add: rb_getBufferForRead_def word_less_nat_alt rb_dataLength_unat [OF wf])
  assume n: "unat n \<le> length (rb_content rb)" and flat: "?S < ?E \<or> ?S + unat n \<le> ?N"
  have "rb_getBufferForRead rb n = (0, Some (m_startOffset rb))"
    using n flat bs by (auto simp: rb_getBufferForRead_def word_less_nat_alt rb_dataLength_unat [OF wf])
  moreover have "take (unat n) (drop ?S (m_buffer rb)) = take (unat n) (rb_content rb)"
  proof (cases "?S \<le> ?E")
    case True
    then show ?thesis
      using take_drop_ring_content(1) [OF wfd(4,5), of 0 "unat n"] n by (simp add: rb_content_def)
  next
    case False
    then show ?thesis
      using take_drop_ring_content(2) [OF wfd(4,5), of 0 "unat n"] n flat by (simp add: rb_content_def)
  qed
  moreover have "?S + unat n \<le> ?N" using flat n lc wfd(5) by (auto split: if_splits)
  ultimately show "rb_getBufferForRead rb n = (0, Some (m_startOffset rb)) \<and>
      mem_read (m_buffer rb) ?S (unat n) = Inr (take (unat n) (rb_content rb))"
    by simp
qed

text \<open>
  \<^verbatim>\<open>getContinuousData\<close>: in every state but those with the start offset in the last two bytes and
  the data wrapped onto fewer than two bytes of the front, the window is a non-empty prefix of the content.
\<close>

definition rb_tail_gap :: "ringbuffer \<Rightarrow> bool" where
  "rb_tail_gap rb \<longleftrightarrow> m_endOffset rb < m_startOffset rb \<and>
     length (m_buffer rb) + unat (m_endOffset rb) \<le> unat (m_startOffset rb) + 2"

lemma rb_getContinuousData_prefix:
  assumes wf: "wf_rb rb" and ne: "rb_content rb \<noteq> []" and gap: "\<not> rb_tail_gap rb"
  obtains n where "rb_getContinuousData rb = (0, Some (m_startOffset rb, n))" "0 < unat n"
    "unat n \<le> length (rb_content rb)"
    "mem_read (m_buffer rb) (unat (m_startOffset rb)) (unat n) = Inr (take (unat n) (rb_content rb))"
proof -
  let ?S = "unat (m_startOffset rb)" and ?E = "unat (m_endOffset rb)" and ?N = "length (m_buffer rb)"
  note wfd = wf_rbD [OF wf]
  have lc: "length (rb_content rb) = (if ?S \<le> ?E then ?E - ?S else ?E + (?N - ?S))"
    using wfd by (simp add: length_rb_content)
  have dl: "rb_dataLength rb \<noteq> 0"
    using ne rb_dataLength_unat [OF wf] by (auto simp: unat_eq_0)
  define n where "n = (if ?S < ?E then m_endOffset rb - m_startOffset rb
    else if ?E \<le> 2 then m_size rb - (c_reservedSpace - m_endOffset rb) - m_startOffset rb
    else m_size rb - m_startOffset rb)"
  have res: "rb_getContinuousData rb = (0, Some (m_startOffset rb, n))"
    using dl by (auto simp: rb_getContinuousData_def n_def word_less_nat_alt word_le_nat_alt)
  have SE: "?S \<noteq> ?E" using ne lc by auto
  have un: "unat n = (if ?S < ?E then ?E - ?S else if ?E \<le> 2 then ?N - (2 - ?E) - ?S else ?N - ?S)"
    using wfd gap SE by (auto simp: n_def rb_unat rb_tail_gap_def)
  have pos: "0 < unat n" "unat n \<le> length (rb_content rb)" "?S + unat n \<le> ?N"
    using un SE lc wfd gap by (auto simp: rb_tail_gap_def word_less_nat_alt split: if_splits)
  have "take (unat n) (drop ?S (m_buffer rb)) = take (unat n) (rb_content rb)"
    using take_drop_ring_content(1,2) [OF wfd(4,5), of 0 "unat n"] pos
    by (cases "?S \<le> ?E") (simp_all add: rb_content_def)
  then have "mem_read (m_buffer rb) ?S (unat n) = Inr (take (unat n) (rb_content rb))"
    using pos(3) by (simp add: mem_read_def)
  with res pos(1,2) show ?thesis by (rule that)
qed

lemma rb_getContinuousData_gap:
  assumes wf: "wf_rb rb" and gap: "rb_tail_gap rb"
  shows "rb_getContinuousData rb = (0, Some (m_startOffset rb,
    if length (m_buffer rb) + unat (m_endOffset rb) = unat (m_startOffset rb) + 2 then 0 else 2 ^ 64 - 1))"
proof -
  let ?S = "unat (m_startOffset rb)" and ?E = "unat (m_endOffset rb)" and ?N = "length (m_buffer rb)"
  note wfd = wf_rbD [OF wf]
  have lt: "?E < ?S" "?N + ?E \<le> ?S + 2" using gap by (auto simp: rb_tail_gap_def word_less_nat_alt)
  then have E2: "?E \<le> 2" using wfd(4) by linarith
  have "length (rb_content rb) \<noteq> 0" using lt wfd(4,5) by (simp add: length_rb_content)
  then have dl: "rb_dataLength rb \<noteq> 0"
    using rb_dataLength_unat [OF wf] by (metis unat_0)
  have m: "unat (m_size rb - (c_reservedSpace - m_endOffset rb)) = ?N - (2 - ?E)"
    using wfd E2 by (simp add: rb_unat)
  have w: "m_size rb - (c_reservedSpace - m_endOffset rb) - m_startOffset rb =
      (if ?N + ?E = ?S + 2 then 0 else 2 ^ 64 - 1)"
  proof (cases "?N + ?E = ?S + 2")
    case True
    then show ?thesis using m E2 wfd by (simp add: word_unat_eq_iff rb_unat)
  next
    case False
    then have "?S = ?N - 1" "?E = 0" using lt wfd(4) by linarith+
    then show ?thesis using m wfd False
      by (simp add: word_unat_eq_iff unat_sub_if' word_size)
  qed
  show ?thesis
    using dl lt E2 w by (simp add: rb_getContinuousData_def word_less_nat_alt word_le_nat_alt)
qed


text \<open>The window handed out for receiving into the buffer is free and can be accounted for in full.\<close>

lemma rb_write_window:
  assumes wf: "wf_rb rb" and room: "length (rb_content rb) < rb_capacity rb"
  obtains n where "rb_getBufferAndLengthForWrite rb = (0, Some (m_endOffset rb, n))"
    "unat (m_endOffset rb) + unat n \<le> length (m_buffer rb)"
    "unat n \<le> rb_capacity rb - length (rb_content rb)"
proof -
  let ?S = "unat (m_startOffset rb)" and ?E = "unat (m_endOffset rb)" and ?N = "length (m_buffer rb)"
  note wfd = wf_rbD [OF wf]
  have lc: "length (rb_content rb) = (if ?S \<le> ?E then ?E - ?S else ?E + (?N - ?S))"
    using wfd by (simp add: length_rb_content)
  have sp: "rb_space rb \<noteq> 0"
    using room rb_space_unat [OF wf] by (metis unat_0 zero_less_diff less_numeral_extra(3))
  define n where "n = (if ?S \<le> ?E then (if 2 \<le> ?S then m_size rb - m_endOffset rb
      else m_size rb - (c_reservedSpace - m_startOffset rb) - m_endOffset rb)
    else m_startOffset rb - m_endOffset rb - c_reservedSpace)"
  have res: "rb_getBufferAndLengthForWrite rb = (0, Some (m_endOffset rb, n))"
    using sp by (simp add: rb_getBufferAndLengthForWrite_def n_def word_le_nat_alt)
  have un: "unat n = (if ?S \<le> ?E then (if 2 \<le> ?S then ?N - ?E else ?N - (2 - ?S) - ?E)
    else ?S - ?E - 2)"
    using wfd room lc by (auto simp: n_def rb_unat rb_capacity_def)
  have "?E + unat n \<le> ?N" "unat n \<le> rb_capacity rb - length (rb_content rb)"
    using un lc room wfd by (auto simp: rb_capacity_def split: if_splits)
  with res show ?thesis by (rule that)
qed

section \<open>Byte queues\<close>

text \<open>
  What the sessions rely on: a bounded first-in-first-out queue of bytes.  A push is accepted
  whole or refused whole, a pop discards from the front, a peek copies without consuming.
\<close>

datatype fifo_op = Push "u8 list" | Pop u64

fun fifo_run :: "('b \<Rightarrow> u8 list \<Rightarrow> (int \<times> 'b) run) \<Rightarrow> ('b \<Rightarrow> u64 \<Rightarrow> int \<times> 'b) \<Rightarrow>
    ('b \<Rightarrow> u8 list) \<Rightarrow> 'b \<Rightarrow> fifo_op list \<Rightarrow> ('b \<times> u8 list \<times> u8 list) run" where
  "fifo_run push pop content b [] = Inr (b, [], [])"
| "fifo_run push pop content b (Push xs # ops) =
     and_then (push b xs) (\<lambda>(ret, b1).
     and_then (fifo_run push pop content b1 ops) (\<lambda>(b2, accepted, consumed).
     Inr (b2, (if ret = 0 then xs else []) @ accepted, consumed)))"
| "fifo_run push pop content b (Pop n # ops) =
     (let (ret, b1) = pop b n
      in and_then (fifo_run push pop content b1 ops) (\<lambda>(b2, accepted, consumed).
         Inr (b2, accepted, (if ret = 0 then take (unat n) (content b) else []) @ consumed)))"

fun small_push :: "fifo_op \<Rightarrow> bool" where
  "small_push (Push xs) \<longleftrightarrow> length xs < 2 ^ 64"
| "small_push (Pop n) \<longleftrightarrow> True"

locale byte_fifo =
  fixes wf :: "'b \<Rightarrow> bool"
    and content :: "'b \<Rightarrow> u8 list"
    and capacity :: "'b \<Rightarrow> nat"
    and push :: "'b \<Rightarrow> u8 list \<Rightarrow> (int \<times> 'b) run"
    and pop :: "'b \<Rightarrow> u64 \<Rightarrow> int \<times> 'b"
    and peek :: "'b \<Rightarrow> u64 \<Rightarrow> u64 \<Rightarrow> u8 list \<Rightarrow> (int \<times> u8 list) run"
  assumes content_fits: "wf b \<Longrightarrow> length (content b) \<le> capacity b"
    and capacity_small: "wf b \<Longrightarrow> capacity b < 2 ^ 31"
    and push_fits: "wf b \<Longrightarrow> length xs \<le> capacity b - length (content b) \<Longrightarrow>
      \<exists>b'. push b xs = Inr (0, b') \<and> wf b' \<and> content b' = content b @ xs \<and> capacity b' = capacity b"
    and push_full: "wf b \<Longrightarrow> capacity b - length (content b) < length xs \<Longrightarrow>
      length xs < 2 ^ 64 \<Longrightarrow> push b xs = Inr (-1, b)"
    and pop_ok: "wf b \<Longrightarrow> unat n \<le> length (content b) \<Longrightarrow>
      \<exists>b'. pop b n = (0, b') \<and> wf b' \<and> content b' = drop (unat n) (content b) \<and> capacity b' = capacity b"
    and pop_short: "wf b \<Longrightarrow> length (content b) < unat n \<Longrightarrow> pop b n = (-1, b)"
    and peek_ok: "wf b \<Longrightarrow> unat p + unat n \<le> length (content b) \<Longrightarrow> length out = unat n \<Longrightarrow>
      peek b n p out = Inr (0, take (unat n) (drop (unat p) (content b)))"
begin

lemma push_cases:
  assumes "wf b" and "length xs < 2 ^ 64"
  obtains (accepted) b' where "push b xs = Inr (0, b')" "wf b'" "content b' = content b @ xs"
      "capacity b' = capacity b"
  | (refused) "push b xs = Inr (-1, b)"
  using assms push_fits push_full by (meson not_le)

lemma pop_cases:
  assumes "wf b"
  obtains (taken) b' where "pop b n = (0, b')" "wf b'" "content b = take (unat n) (content b) @ content b'"
      "capacity b' = capacity b"
  | (refused) "pop b n = (-1, b)"
  using pop_ok [OF assms] pop_short [OF assms] by (metis append_take_drop_id not_le)

lemma run_conserves:
  "wf b \<Longrightarrow> list_all small_push ops \<Longrightarrow>
   \<exists>b' accepted consumed. fifo_run push pop content b ops = Inr (b', accepted, consumed) \<and> wf b' \<and>
     content b @ accepted = consumed @ content b' \<and> capacity b' = capacity b"
proof (induction ops arbitrary: b)
  case Nil
  then show ?case by simp
next
  case (Cons op ops)
  show ?case
  proof (cases op)
    case (Push xs)
    with Cons.prems have "length xs < 2 ^ 64" by simp
    with Cons.prems(1) show ?thesis
    proof (cases rule: push_cases)
      case (accepted b1)
      then show ?thesis using Cons.IH [of b1] Cons.prems Push by fastforce
    next
      case refused
      then show ?thesis using Cons.IH [of b] Cons.prems Push by fastforce
    qed
  next
    case (Pop n)
    from Cons.prems(1) show ?thesis
    proof (cases rule: pop_cases [where n = n])
      case (taken b1)
      obtain b' acc con where run: "fifo_run push pop content b1 ops = Inr (b', acc, con)"
        "wf b'" "content b1 @ acc = con @ content b'" "capacity b' = capacity b1"
        using Cons.IH [of b1] Cons.prems Pop taken by auto
      have "content b @ acc = take (unat n) (content b) @ content b1 @ acc"
        using taken(3) by (metis append.assoc)
      with run taken Pop show ?thesis by simp
    next
      case refused
      then show ?thesis using Cons.IH [of b] Cons.prems Pop by auto
    qed
  qed
qed

end

interpretation rb: byte_fifo wf_rb rb_content rb_capacity rb_push rb_decreaseUsedSpace rb_readData
proof unfold_locales
  fix rb and xs :: "u8 list" assume "wf_rb rb" "length xs \<le> rb_capacity rb - length (rb_content rb)"
  then show "\<exists>rb'. rb_push rb xs = Inr (0, rb') \<and> wf_rb rb' \<and>
      rb_content rb' = rb_content rb @ xs \<and> rb_capacity rb' = rb_capacity rb"
    by (metis rb_push_append)
next
  fix rb n assume "wf_rb rb" "unat (n :: u64) \<le> length (rb_content rb)"
  then show "\<exists>rb'. rb_decreaseUsedSpace rb n = (0, rb') \<and> wf_rb rb' \<and>
      rb_content rb' = drop (unat n) (rb_content rb) \<and> rb_capacity rb' = rb_capacity rb"
    by (metis rb_decrease_drop)
qed (use wf_rbD in \<open>fastforce simp: rb_capacity_def rb_push_full rb_decrease_short rb_readData_content\<close>)+


section \<open>Properties\<close>

text \<open>
  C5: the buffer is a lossless first-in-first-out byte queue. For any sequence of writes and
  consumptions on a well-formed buffer no operation faults, the buffer stays well-formed, and
  what was there plus what was accepted is what was consumed plus what is left.
\<close>

theorem rb_fifo_conservation:
  assumes "wf_rb rb" and "list_all small_push ops"
  shows "\<exists>rb' accepted consumed.
    fifo_run rb_push rb_decreaseUsedSpace rb_content rb ops = Inr (rb', accepted, consumed) \<and>
    wf_rb rb' \<and> rb_content rb @ accepted = consumed @ rb_content rb' \<and>
    rb_capacity rb' = rb_capacity rb"
  using assms by (rule rb.run_conserves)

theorem rb_fifo_conservation_witness:
  "\<exists>rb' accepted consumed.
    fifo_run rb_push rb_decreaseUsedSpace rb_content (rb_new 8)
      [Push [1, 2, 3, 4, 5], Pop 3, Push [6, 7, 8], Pop 9] = Inr (rb', accepted, consumed) \<and>
    wf_rb rb' \<and> rb_content (rb_new 8) @ accepted = consumed @ rb_content rb' \<and>
    rb_capacity rb' = rb_capacity (rb_new 8)"
  by (rule rb_fifo_conservation) (simp_all add: wf_rb_new)

text \<open>
  \<^verbatim>\<open>readData\<close> copies out exactly the requested slice of the content, wherever it lies in the
  circular array, also when it starts or ends behind the wrap.
\<close>

theorem rb_readData_slice:
  assumes "wf_rb rb" and "length data = unat n" and "unat p + unat n \<le> length (rb_content rb)"
  shows "rb_readData rb n p data = Inr (0, take (unat n) (drop (unat p) (rb_content rb)))"
  using assms by (rule rb_readData_content)

definition rb_example :: ringbuffer where
  "rb_example = \<lparr>m_size = 6, m_buffer = [4, 5, 0, 1, 2, 3], m_startOffset = 4, m_endOffset = 2\<rparr>"

lemma wf_rb_example: "wf_rb rb_example"
  by (simp add: wf_rb_def rb_example_def rb_content_def ring_content_def)

theorem rb_readData_slice_witness:
  "rb_readData rb_example 2 1 [0, 0] = Inr (0, [3, 4])"
  using rb_readData_slice [OF wf_rb_example, of "[0, 0]" 2 1]
  by (simp add: rb_example_def rb_content_def ring_content_def)

text \<open>
  The free space the buffer reports is its capacity less what it holds and the reported
  length is what it holds, with no wrap-around of the 64-bit arithmetic; together with the two
  reserved bytes they always add up to the size of the array.\<close>

theorem rb_space_exact:
  assumes "wf_rb rb"
  shows "unat (rb_dataLength rb) = length (rb_content rb) \<and>
    unat (rb_space rb) + unat (rb_dataLength rb) + 2 = unat (m_size rb)"
  using wf_rbD [OF assms] by (simp add: assms rb_space_unat rb_dataLength_unat rb_capacity_def)

theorem rb_space_exact_witness:
  "unat (rb_dataLength rb_example) = 4 \<and>
    unat (rb_space rb_example) + unat (rb_dataLength rb_example) + 2 = 6"
  using rb_space_exact [OF wf_rb_example]
  by (simp add: rb_example_def rb_content_def ring_content_def)

definition gap_ops :: "fifo_op list" where
  "gap_ops = [Push [1, 2, 3, 4, 5], Pop 4, Push [6, 7, 8, 9, 10], Pop 5]"

text \<open>
  C39: the window \<^verbatim>\<open>getContinuousData\<close> returns for sending is a non-empty prefix of the content
  lying inside the array, except in the states of \<open>rb_tail_gap\<close>: there it returns length 0 or
  the wrapped length \<open>2 ^ 64 - 1\<close>.
\<close>

theorem rb_contiguous_window:
  assumes "wf_rb rb" and "rb_content rb \<noteq> []"
  shows "\<exists>n. rb_getContinuousData rb = (0, Some (m_startOffset rb, n)) \<and>
    (if rb_tail_gap rb then n = 0 \<or> n = 2 ^ 64 - 1
     else 0 < unat n \<and> mem_read (m_buffer rb) (unat (m_startOffset rb)) (unat n) =
            Inr (take (unat n) (rb_content rb)))"
proof (cases "rb_tail_gap rb")
  case True
  then show ?thesis using rb_getContinuousData_gap [OF assms(1)] by auto
next
  case False
  from rb_getContinuousData_prefix [OF assms False] show ?thesis
    using False by metis
qed

theorem rb_contiguous_window_witness:
  "\<exists>n. rb_getContinuousData rb_example = (0, Some (4, n)) \<and> 0 < unat n \<and>
    mem_read (m_buffer rb_example) 4 (unat n) = Inr (take (unat n) (rb_content rb_example))"
proof -
  have "rb_content rb_example \<noteq> []" "\<not> rb_tail_gap rb_example"
    by (simp_all add: rb_example_def rb_content_def ring_content_def rb_tail_gap_def)
  with rb_contiguous_window [OF wf_rb_example] show ?thesis
    by (simp add: rb_example_def)
qed

text \<open>
  Such a state is reached from a fresh ten-byte buffer by two writes and two reads. One byte
  is left, and \<^verbatim>\<open>getContinuousData\<close> reports \<open>2 ^ 64 - 1\<close> bytes at offset 9, so a sender reading
  that window leaves the array.
\<close>

theorem rb_contiguous_overrun:
  "\<exists>rb accepted consumed.
    fifo_run rb_push rb_decreaseUsedSpace rb_content (rb_new 10) gap_ops = Inr (rb, accepted, consumed) \<and>
    wf_rb rb \<and> rb_content rb = [10] \<and>
    rb_getContinuousData rb = (0, Some (9, 2 ^ 64 - 1)) \<and>
    mem_read (m_buffer rb) 9 (unat (2 ^ 64 - 1 :: u64)) = Inl OutOfBounds"
proof -
  let ?rb = "\<lparr>m_size = 10, m_buffer = [1, 2, 3, 4, 5, 6, 7, 8, 9, 10], m_startOffset = 9,
    m_endOffset = 0\<rparr>"
  have run: "fifo_run rb_push rb_decreaseUsedSpace rb_content (rb_new 10) gap_ops =
      Inr (?rb, [1, 2, 3, 4, 5, 6, 7, 8, 9, 10], [1, 2, 3, 4, 5, 6, 7, 8, 9])"
    by code_simp
  have wf: "wf_rb ?rb" and c: "rb_content ?rb = [10]" and gap: "rb_tail_gap ?rb"
    by (simp_all add: wf_rb_def rb_content_def ring_content_def rb_tail_gap_def)
  show ?thesis
    using run wf c rb_getContinuousData_gap [OF wf gap] by (simp add: mem_read_def)
qed


end
