(* ===== verification/Hosts.thy ===== *)
theory Hosts
  imports Prelude
begin

text \<open>
  \<^verbatim>\<open>csm-service/host\<close>: the endpoint addresses (\<^verbatim>\<open>HostEndPointInfo\<close>), the table of configured
  hosts and of connected nodes (\<^verbatim>\<open>HostsInfoManager\<close>), with the string functions of
  \<^verbatim>\<open>csm-utilities/StringTool\<close> they use.
\<close>

section \<open>Strings\<close>

text \<open>\<^verbatim>\<open>split\<close>: repeated \<^verbatim>\<open>std::getline\<close>, so a delimiter at the very end adds no empty item.\<close>

function split_string :: "char \<Rightarrow> string \<Rightarrow> string list" where
  "split_string d s =
     (if s = [] then []
      else takeWhile (\<lambda>c. c \<noteq> d) s #
        (case dropWhile (\<lambda>c. c \<noteq> d) s of [] \<Rightarrow> [] | _ # rest \<Rightarrow> split_string d rest))"
  by pat_completeness auto

termination
proof (relation "measure (\<lambda>(d, s). length s)")
  fix d s x rest
  assume "s \<noteq> []" "dropWhile (\<lambda>c. c \<noteq> d) s = x # (rest :: string)"
  then show "((d, rest), d, s) \<in> measure (\<lambda>(d, s). length s)"
    using length_dropWhile_le [of "\<lambda>c. c \<noteq> d" s] by simp
qed simp

declare split_string.simps [simp del]

text \<open>\<^verbatim>\<open>std::to_string\<close> of an unsigned number.\<close>

definition digit_char :: "nat \<Rightarrow> char" where
  "digit_char n = char_of (48 + n)"

fun nat_to_string :: "nat \<Rightarrow> string" where
  "nat_to_string n =
     (if n < 10 then [digit_char n] else nat_to_string (n div 10) @ [digit_char (n mod 10)])"

declare nat_to_string.simps [simp del]

text \<open>
  \<^verbatim>\<open>std::istringstream >> T\<close> for an unsigned type: white space, an optional sign, decimal digits.
  No digits give 0, a value out of range gives the maximum, a minus sign negates modulo the width;
  when there is only white space the variable is left as it was, indeterminate: \<open>junk\<close>.
\<close>

definition is_digit :: "char \<Rightarrow> bool" where
  "is_digit c \<longleftrightarrow> 48 \<le> (of_char c :: nat) \<and> (of_char c :: nat) \<le> 57"

definition is_space :: "char \<Rightarrow> bool" where
  "is_space c \<longleftrightarrow> (of_char c :: nat) = 32 \<or> (9 \<le> (of_char c :: nat) \<and> (of_char c :: nat) \<le> 13)"

definition digits_value :: "string \<Rightarrow> nat" where
  "digits_value cs = foldl (\<lambda>n c. 10 * n + (of_char c - 48)) 0 cs"

definition string_to_unsigned :: "'a::len word \<Rightarrow> string \<Rightarrow> 'a word" where
  "string_to_unsigned junk s =
     (let t = dropWhile is_space s;
          negative = (case t of c # r \<Rightarrow> c = CHR ''-'' | [] \<Rightarrow> False);
          u = (case t of c # r \<Rightarrow> if c = CHR ''-'' \<or> c = CHR ''+'' then r else t | [] \<Rightarrow> []);
          n = digits_value (takeWhile is_digit u)
      in if t = [] then junk
         else if n \<ge> 2 ^ LENGTH('a) then - 1
         else if negative then - of_nat n else of_nat n)"

section \<open>Endpoints\<close>

datatype host_end_point = HostEndPointInfo (hep_ip: string) (hep_port: u16)

text \<open>
  The constructor from a string leaves the members default-initialised unless there are exactly
  two parts; \<open>junk\<close> is the indeterminate port of that case.
\<close>

definition HostEndPointInfo_of :: "u16 \<Rightarrow> string \<Rightarrow> host_end_point" where
  "HostEndPointInfo_of junk host =
     (case split_string CHR '':'' host of
        [ip, port] \<Rightarrow> HostEndPointInfo ip (string_to_unsigned junk port)
      | _ \<Rightarrow> HostEndPointInfo [] junk)"

definition hep_host :: "host_end_point \<Rightarrow> string" where
  "hep_host h = hep_ip h @ '':'' @ nat_to_string (unat (hep_port h))"

text \<open>\<^verbatim>\<open>operator<\<close> and \<^verbatim>\<open>operator==\<close> compare the ip with the port appended.\<close>

definition hep_key :: "host_end_point \<Rightarrow> string" where
  "hep_key h = hep_ip h @ nat_to_string (unat (hep_port h))"

instantiation host_end_point :: preorder
begin

definition less_eq_host_end_point :: "host_end_point \<Rightarrow> host_end_point \<Rightarrow> bool" where
  "less_eq_host_end_point a b = (hep_key a \<le> hep_key b)"

definition less_host_end_point :: "host_end_point \<Rightarrow> host_end_point \<Rightarrow> bool" where
  "less_host_end_point a b = (hep_key a < hep_key b)"

instance
  by intro_classes (auto simp: less_eq_host_end_point_def less_host_end_point_def)

end

definition hep_eq :: "host_end_point \<Rightarrow> host_end_point \<Rightarrow> bool" where
  "hep_eq a b = (hep_key a = hep_key b)"

lemma is_digit_digit_char: "n < 10 \<Longrightarrow> is_digit (digit_char n)"
  by (simp add: is_digit_def digit_char_def)

lemma digit_char_value: "n < 10 \<Longrightarrow> of_char (digit_char n) - 48 = (n :: nat)"
  by (simp add: digit_char_def)

lemma digits_value_snoc: "digits_value (cs @ [c]) = 10 * digits_value cs + (of_char c - 48)"
  by (simp add: digits_value_def)

lemma nat_to_string_digits: "\<forall>c \<in> set (nat_to_string n). is_digit c"
proof (induction n rule: nat_to_string.induct)
  case (1 n)
  then show ?case
    by (subst nat_to_string.simps) (auto simp: is_digit_digit_char)
qed

lemma nat_to_string_not_Nil: "nat_to_string n \<noteq> []"
  by (subst nat_to_string.simps) simp

lemma digits_value_to_string: "digits_value (nat_to_string n) = n"
proof (induction n rule: nat_to_string.induct)
  case (1 n)
  show ?case
  proof (cases "n < 10")
    case True
    then show ?thesis
      by (subst nat_to_string.simps) (simp add: digits_value_def digit_char_value)
  next
    case False
    with 1 show ?thesis
      by (subst nat_to_string.simps) (simp add: digits_value_snoc digit_char_value)
  qed
qed

lemma is_digit_cases: "is_digit c \<Longrightarrow> \<not> is_space c \<and> c \<noteq> CHR ''-'' \<and> c \<noteq> CHR ''+'' \<and> c \<noteq> CHR '':''"
  by (auto simp: is_digit_def is_space_def)

lemma string_to_unsigned_to_string:
  assumes "n < 2 ^ LENGTH('a::len)"
  shows "string_to_unsigned (junk :: 'a word) (nat_to_string n) = of_nat n"
proof -
  obtain c r where s: "nat_to_string n = c # r"
    using nat_to_string_not_Nil by (cases "nat_to_string n") auto
  have digits: "\<forall>x \<in> set (c # r). is_digit x" using nat_to_string_digits [of n] s by simp
  then have c: "is_digit c" "\<not> is_space c" "c \<noteq> CHR ''-''" "c \<noteq> CHR ''+''"
    using is_digit_cases [of c] by auto
  have "takeWhile is_digit (c # r) = c # r" using digits by (simp add: takeWhile_eq_all_conv)
  moreover have "digits_value (c # r) = n" using digits_value_to_string [of n] s by simp
  moreover have tw: "takeWhile is_digit r = r" using digits by (simp add: takeWhile_eq_all_conv)
  ultimately show ?thesis
    using c assms by (simp add: string_to_unsigned_def s Let_def tw)
qed

lemma split_string_two:
  assumes "d \<notin> set a" "d \<notin> set b" "b \<noteq> []"
  shows "split_string d (a @ d # b) = [a, b]"
proof -
  have "split_string d b = [b]"
  proof -
    have dw: "dropWhile (\<lambda>c. c \<noteq> d) b = []" and tw: "takeWhile (\<lambda>c. c \<noteq> d) b = b"
      using assms(2) by (auto simp: dropWhile_eq_Nil_conv takeWhile_eq_all_conv)
    show ?thesis using assms(3) by (subst split_string.simps) (simp only: dw tw list.case if_False)
  qed
  then show ?thesis
    using assms(1) by (subst split_string.simps) (auto simp: takeWhile_append takeWhile_tail dropWhile_append)
qed

section \<open>Registries\<close>

text \<open>
  Several components keep a table that refuses a second insertion under the same key.  Of several
  insertions under one key the first wins, and what is in the table is never overwritten.
\<close>

fun put_all :: "('k \<Rightarrow> 'v \<Rightarrow> 's \<Rightarrow> int \<times> 's) \<Rightarrow> ('k \<times> 'v) list \<Rightarrow> 's \<Rightarrow> 's" where
  "put_all put [] s = s"
| "put_all put ((k, v) # kvs) s = put_all put kvs (snd (put k v s))"

locale registry =
  fixes get :: "'s \<Rightarrow> 'k \<Rightarrow> 'v option"
    and put :: "'k \<Rightarrow> 'v \<Rightarrow> 's \<Rightarrow> int \<times> 's"
  assumes put_new: "get s k = None \<Longrightarrow>
      fst (put k v s) = 0 \<and> get (snd (put k v s)) = (get s)(k \<mapsto> v)"
    and put_dup: "get s k = Some w \<Longrightarrow> put k v s = (-1, s)"
begin

lemma put_get:
  "get (snd (put k v s)) = (case get s k of None \<Rightarrow> (get s)(k \<mapsto> v) | Some _ \<Rightarrow> get s)"
  by (cases "get s k") (simp_all add: put_new put_dup)

lemma put_result: "fst (put k v s) = (if get s k = None then 0 else -1)"
  by (cases "get s k") (simp_all add: put_new put_dup)

lemma put_all_get: "get (put_all put kvs s) = map_of kvs ++ get s"
proof (induction kvs arbitrary: s)
  case (Cons kv kvs)
  obtain k v where kv: "kv = (k, v)" by (cases kv)
  show ?case
    by (rule ext) (auto simp: kv Cons.IH put_get map_add_def split: option.splits)
qed simp

end

text \<open>A registry entries can be erased from; erasing an absent key is refused.\<close>

locale erasable_registry = registry +
  fixes erase :: "'b \<Rightarrow> 'a \<Rightarrow> int \<times> 'a"
  assumes erase_old: "get s k = Some w \<Longrightarrow>
      fst (erase k s) = 0 \<and> get (snd (erase k s)) = (get s)(k := None)"
    and erase_absent: "get s k = None \<Longrightarrow> erase k s = (-1, s)"
begin

lemma erase_get: "get (snd (erase k s)) = (get s)(k := None)"
  by (cases "get s k") (auto simp: erase_old erase_absent)

text \<open>A slot is free again after an erase: the next insertion is accepted.\<close>

lemma erase_put: "fst (put k v (snd (erase k s))) = 0"
  by (simp add: put_result erase_get)

lemma put_erase: "get s k = None \<Longrightarrow> get (snd (erase k (snd (put k v s)))) = get s"
  by (simp add: put_new erase_get fun_upd_idem)

end

section \<open>The table of hosts\<close>

text \<open>
  \<^verbatim>\<open>m_hosts\<close> maps a configured endpoint to the node id it answered with and a timestamp;
  \<^verbatim>\<open>m_nodeIdInfos\<close> maps a connected node id to its session.  Two endpoints are the same key when
  their ip and port agree, that is, \<^verbatim>\<open>std::hash\<close> is taken not to collide on endpoints that differ.
\<close>

type_synonym session_id = u64

type_synonym hosts = "(host_end_point, node_id \<times> u64) umap"

record hosts_info =
  m_hosts :: hosts
  m_nodeIdInfos :: "(node_id, session_id) umap"

definition HostsInfoManager_new :: hosts_info where
  "HostsInfoManager_new = \<lparr>m_hosts = [], m_nodeIdInfos = []\<rparr>"

text \<open>
  \<^verbatim>\<open>init\<close>: \<open>nodes\<close> is what the JSON reader makes of the file, \<open>None\<close> when the file cannot be opened
  or parsed or has no array \<^verbatim>\<open>nodes\<close>.  The hosts before a malformed one stay in the table.
\<close>

fun init_hosts :: "u16 \<Rightarrow> string list \<Rightarrow> hosts_info \<Rightarrow> int \<times> hosts_info" where
  "init_hosts junk [] st = (0, st)"
| "init_hosts junk (host # hs) st =
     (case split_string CHR '':'' host of
        [ip, port] \<Rightarrow> init_hosts junk hs
          (st\<lparr>m_hosts := emplace (HostEndPointInfo ip (string_to_unsigned junk port)) ([], -1) (m_hosts st)\<rparr>)
      | _ \<Rightarrow> (-1, st))"

definition HostsInfoManager_init :: "u16 \<Rightarrow> string list option \<Rightarrow> hosts_info \<Rightarrow> int \<times> hosts_info" where
  "HostsInfoManager_init junk nodes st =
     (case nodes of None \<Rightarrow> (-1, st) | Some hs \<Rightarrow> init_hosts junk hs st)"

definition setHostId :: "host_end_point \<Rightarrow> node_id \<Rightarrow> hosts_info \<Rightarrow> int \<times> hosts_info" where
  "setHostId h nodeId st =
     (case map_of (m_hosts st) h of
        None \<Rightarrow> (-1, st)
      | Some (_, ts) \<Rightarrow> (0, st\<lparr>m_hosts := AList.update h (nodeId, ts) (m_hosts st)\<rparr>))"

definition addHostIdInfo :: "node_id \<Rightarrow> session_id \<Rightarrow> hosts_info \<Rightarrow> int \<times> hosts_info" where
  "addHostIdInfo nodeId sid st =
     (case map_of (m_nodeIdInfos st) nodeId of
        Some _ \<Rightarrow> (-1, st)
      | None \<Rightarrow> (0, st\<lparr>m_nodeIdInfos := emplace nodeId sid (m_nodeIdInfos st)\<rparr>))"

definition removeHostIdInfo :: "node_id \<Rightarrow> session_id \<Rightarrow> hosts_info \<Rightarrow> int \<times> hosts_info" where
  "removeHostIdInfo nodeId sid st =
     (case map_of (m_nodeIdInfos st) nodeId of
        None \<Rightarrow> (-1, st)
      | Some sid' \<Rightarrow>
          if sid \<noteq> sid' then (-1, st)
          else (0, st\<lparr>m_nodeIdInfos := AList.delete nodeId (m_nodeIdInfos st)\<rparr>))"

definition setHostNotConnected :: "host_end_point \<Rightarrow> hosts_info \<Rightarrow> int \<times> hosts_info" where
  "setHostNotConnected h st =
     (case map_of (m_hosts st) h of
        None \<Rightarrow> (-1, st)
      | Some _ \<Rightarrow> (0, st\<lparr>m_hosts := AList.update h ([], -1) (m_hosts st)\<rparr>))"

definition getSessionId :: "node_id \<Rightarrow> hosts_info \<Rightarrow> session_id option" where
  "getSessionId nodeId st = map_of (m_nodeIdInfos st) nodeId"

definition isHostIdExist :: "node_id \<Rightarrow> hosts_info \<Rightarrow> bool" where
  "isHostIdExist nodeId st \<longleftrightarrow> map_of (m_nodeIdInfos st) nodeId \<noteq> None"

definition onlineNodeIds :: "hosts_info \<Rightarrow> node_id list" where
  "onlineNodeIds st = keys (m_nodeIdInfos st)"

definition getAllHosts :: "hosts_info \<Rightarrow> (node_id \<times> session_id) list" where
  "getAllHosts st = m_nodeIdInfos st"

interpretation nodes: registry "\<lambda>st nodeId. getSessionId nodeId st" addHostIdInfo
  by unfold_locales (auto simp: getSessionId_def addHostIdInfo_def alist_simps)

text \<open>Removing takes the session that is being closed: a newer session under the id survives.\<close>

lemma removeHostIdInfo_get:
  "getSessionId n (snd (removeHostIdInfo nodeId sid st)) =
     (if n = nodeId \<and> getSessionId nodeId st = Some sid then None else getSessionId n st)"
  by (auto simp: removeHostIdInfo_def getSessionId_def alist_simps split: option.splits)

lemma addHostIdInfo_frame: "m_hosts (snd (addHostIdInfo n s st)) = m_hosts st"
  by (auto simp: addHostIdInfo_def split: option.splits)

lemma hosts_ops_frame:
  "m_nodeIdInfos (snd (setHostId h n st)) = m_nodeIdInfos st"
  "m_nodeIdInfos (snd (setHostNotConnected h st)) = m_nodeIdInfos st"
  "m_hosts (snd (removeHostIdInfo n s st)) = m_hosts st"
  by (auto simp: setHostId_def setHostNotConnected_def removeHostIdInfo_def split: option.splits)

section \<open>Properties\<close>

text \<open>Endpoint strings round-trip.  Printing an endpoint whose ip has no colon and reading the
  string back gives the endpoint, for every one of the 65536 ports.\<close>

theorem host_end_point_roundtrip:
  assumes "CHR '':'' \<notin> set (hep_ip h)"
  shows "HostEndPointInfo_of junk (hep_host h) = h"
proof -
  have "CHR '':'' \<notin> set (nat_to_string (unat (hep_port h)))"
    using nat_to_string_digits is_digit_cases by blast
  then have "split_string CHR '':'' (hep_host h) = [hep_ip h, nat_to_string (unat (hep_port h))]"
    using assms nat_to_string_not_Nil by (simp add: hep_host_def split_string_two)
  moreover have "unat (hep_port h) < 2 ^ LENGTH(16)" using unsigned_less [of "hep_port h"] by simp
  ultimately show ?thesis
    by (simp add: HostEndPointInfo_of_def string_to_unsigned_to_string)
qed

theorem host_end_point_roundtrip_witness:
  "HostEndPointInfo_of 0 ''10.0.0.7:65535'' = HostEndPointInfo ''10.0.0.7'' 65535"
proof -
  have "hep_host (HostEndPointInfo ''10.0.0.7'' 65535) = ''10.0.0.7:65535''"
    by (simp add: hep_host_def nat_to_string.simps digit_char_def char_of_def bit_0)
  then show ?thesis
    using host_end_point_roundtrip [of "HostEndPointInfo ''10.0.0.7'' 65535" 0] by simp
qed

text \<open>\<^verbatim>\<open>operator==\<close> of \<^verbatim>\<open>HostEndPointInfo\<close> is not equality.  It concatenates ip and port without a
  separator, so port 1234 of one machine equals port 234 of another, and \<^verbatim>\<open>operator<\<close> orders neither
  before the other.\<close>

theorem host_end_point_eq_confuses:
  "let a = HostEndPointInfo ''10.0.0.1'' 1234; b = HostEndPointInfo ''10.0.0.11'' 234
   in hep_eq a b \<and> a \<noteq> b \<and> \<not> a < b \<and> \<not> b < a \<and> hep_host a \<noteq> hep_host b"
proof -
  have "hep_key (HostEndPointInfo ''10.0.0.1'' 1234) = hep_key (HostEndPointInfo ''10.0.0.11'' 234)"
    by code_simp
  moreover have "hep_host (HostEndPointInfo ''10.0.0.1'' 1234) \<noteq> hep_host (HostEndPointInfo ''10.0.0.11'' 234)"
    by code_simp
  ultimately show ?thesis by (simp add: hep_eq_def less_host_end_point_def)
qed

text \<open>The node table never redirects a connected node.  Registering any list of
  (node, session) pairs keeps every binding that was there and binds a new node to the first session
  offered for it; closing a session unbinds its node exactly when the node is still bound to that
  session, and no other node is affected.\<close>

theorem node_table_first_wins:
  "getSessionId n (put_all addHostIdInfo kvs st) =
     (case getSessionId n st of Some s \<Rightarrow> Some s | None \<Rightarrow> map_of kvs n) \<and>
   getSessionId n (snd (removeHostIdInfo m sid st)) =
     (if n = m \<and> getSessionId m st = Some sid then None else getSessionId n st) \<and>
   fst (addHostIdInfo n sid st) = (if getSessionId n st = None then 0 else -1)"
  using nodes.put_all_get [of kvs st] nodes.put_result [of n sid st]
    removeHostIdInfo_get [of n m sid st]
  by (simp add: map_add_def fun_eq_iff split: option.splits)

end
