(* ===== verification/Session.thy ===== *)
theory Session
  imports RingBuffer Hosts
begin

text \<open>
  \<^verbatim>\<open>csm-service/service\<close>: one peer connection (\<^verbatim>\<open>P2PSession\<close>, \<^verbatim>\<open>P2PSessionFactory\<close>), the heartbeat
  watchdog (\<^verbatim>\<open>SessionAliveChecker\<close>), the queue of sessions to close (\<^verbatim>\<open>SessionDestroyer\<close>) and the
  assignment of sessions to reactors (\<^verbatim>\<open>SessionDispatcher\<close>).  Live sessions are kept in a heap from
  session ids to sessions; a \<^verbatim>\<open>weak_ptr\<close> is the id it was made from, and \<^verbatim>\<open>lock\<close> is the lookup.
\<close>

section \<open>A session\<close>

definition c_p2pSessionReadBufferSize :: u64 where
  "c_p2pSessionReadBufferSize = 16 * 1024"

definition c_p2pSessionWriteBufferSize :: u64 where
  "c_p2pSessionWriteBufferSize = 16 * 1024"

record p2p_session =
  ps_fd :: int
  ps_sessionId :: session_id
  ps_nodeId :: node_id
  ps_readBuffer :: ringbuffer
  ps_writeBuffer :: ringbuffer
  ps_peerHost :: host_end_point
  ps_isWaitingDisconnect :: bool
  ps_slaveReactorIndex :: u64
  ps_lastRecvCount :: u32
  ps_recvCount :: u32

type_synonym session_heap = "(session_id, p2p_session) umap"
type_synonym session_wptr = session_id

text \<open>
  \<open>junk\<close> stands for the two members the constructor leaves indeterminate, the reactor index and the
  port of the peer.
\<close>

definition P2PSession_new :: "u64 \<times> u16 \<Rightarrow> int \<Rightarrow> session_id \<Rightarrow> ringbuffer \<Rightarrow> ringbuffer \<Rightarrow> p2p_session" where
  "P2PSession_new junk fd sid rbuf wbuf =
     \<lparr>ps_fd = fd, ps_sessionId = sid, ps_nodeId = c_invalidNodeId, ps_readBuffer = rbuf,
      ps_writeBuffer = wbuf, ps_peerHost = HostEndPointInfo [] (snd junk),
      ps_isWaitingDisconnect = False, ps_slaveReactorIndex = fst junk,
      ps_lastRecvCount = 0, ps_recvCount = 1\<rparr>"

definition isHeartbeatTimeout :: "p2p_session \<Rightarrow> bool \<times> p2p_session" where
  "isHeartbeatTimeout s =
     (ps_lastRecvCount s = ps_recvCount s, s\<lparr>ps_lastRecvCount := ps_recvCount s\<rparr>)"

definition refreshHeartbeat :: "p2p_session \<Rightarrow> p2p_session" where
  "refreshHeartbeat s = s\<lparr>ps_recvCount := ps_recvCount s + 1\<rparr>"

text \<open>The factory's state is the next session id.\<close>

definition P2PSessionFactory_create ::
  "u64 \<times> u16 \<Rightarrow> int \<Rightarrow> u64 \<Rightarrow> u64 \<Rightarrow> session_id \<Rightarrow> p2p_session \<times> session_id" where
  "P2PSessionFactory_create junk fd readBufferSize writeBufferSize next =
     (P2PSession_new junk fd next (rb_new readBufferSize) (rb_new writeBufferSize), next + 1)"

definition wf_session :: "p2p_session \<Rightarrow> bool" where
  "wf_session s \<longleftrightarrow> wf_rb (ps_readBuffer s) \<and> wf_rb (ps_writeBuffer s)"

lemma wf_session_create:
  "wf_session (fst (P2PSessionFactory_create junk fd c_p2pSessionReadBufferSize
     c_p2pSessionWriteBufferSize next))"
  by (simp add: wf_session_def P2PSessionFactory_create_def P2PSession_new_def wf_rb_new
      c_p2pSessionReadBufferSize_def c_p2pSessionWriteBufferSize_def)

section \<open>The alive checker\<close>

type_synonym alive_map = "(session_id, session_wptr) umap"

definition alive_addSession :: "session_id \<Rightarrow> session_wptr \<Rightarrow> alive_map \<Rightarrow> int \<times> alive_map" where
  "alive_addSession sid w m = (if map_of m sid \<noteq> None then (-1, m) else (0, emplace sid w m))"

definition alive_removeSession :: "session_id \<Rightarrow> alive_map \<Rightarrow> int \<times> alive_map" where
  "alive_removeSession sid m = (if map_of m sid = None then (-1, m) else (0, AList.delete sid m))"

interpretation watched: erasable_registry map_of alive_addSession alive_removeSession
  by unfold_locales (auto simp: alive_addSession_def alive_removeSession_def alist_simps)

text \<open>
  One pass of the checking thread: the sessions that stay, the sessions handed to the timeout
  handler, and the heap with the counters sampled.
\<close>

fun alive_pass :: "alive_map \<Rightarrow> session_heap \<Rightarrow> alive_map \<times> (session_id \<times> session_wptr) list \<times> session_heap" where
  "alive_pass [] heap = ([], [], heap)"
| "alive_pass ((sid, w) # rest) heap =
     (case map_of heap w of
        None \<Rightarrow> alive_pass rest heap
      | Some s \<Rightarrow>
          (let (timeout, s') = isHeartbeatTimeout s;
               (kept, offline, heap') = alive_pass rest (AList.update w s' heap)
           in if timeout then (kept, (sid, w) # offline, heap')
              else ((sid, w) # kept, offline, heap')))"

text \<open>A heartbeat received on a session.\<close>

definition refresh_session :: "session_id \<Rightarrow> session_heap \<Rightarrow> session_heap" where
  "refresh_session sid heap =
     (case map_of heap sid of None \<Rightarrow> heap | Some s \<Rightarrow> AList.update sid (refreshHeartbeat s) heap)"

definition silent :: "p2p_session \<Rightarrow> bool" where
  "silent s \<longleftrightarrow> ps_lastRecvCount s = ps_recvCount s"

definition sampled :: "p2p_session \<Rightarrow> p2p_session" where
  "sampled s = s\<lparr>ps_lastRecvCount := ps_recvCount s\<rparr>"

text \<open>A watched entry whose session is alive and satisfies \<open>P\<close>.\<close>

definition live :: "(p2p_session \<Rightarrow> bool) \<Rightarrow> session_heap \<Rightarrow> session_id \<times> session_wptr \<Rightarrow> bool" where
  "live P heap p = (case map_of heap (snd p) of None \<Rightarrow> False | Some s \<Rightarrow> P s)"

lemma filter_live_update:
  "w \<notin> set (map snd m) \<Longrightarrow> filter (live P (AList.update w s heap)) m = filter (live P heap) m"
  by (rule filter_cong) (auto simp: live_def map_of_update image_iff)

lemma alive_pass_spec:
  "distinct (map snd m) \<Longrightarrow>
   fst (alive_pass m heap) = filter (live (\<lambda>s. \<not> silent s) heap) m \<and>
   fst (snd (alive_pass m heap)) = filter (live silent heap) m \<and>
   map_of (snd (snd (alive_pass m heap))) =
     (\<lambda>w. if w \<in> set (map snd m) then map_option sampled (map_of heap w) else map_of heap w)"
proof (induction m arbitrary: heap)
  case (Cons p m)
  obtain sid w where p: "p = (sid, w)" by (cases p)
  from Cons.prems have w: "w \<notin> set (map snd m)" and d: "distinct (map snd m)" by (simp_all add: p)
  show ?case
  proof (cases "map_of heap w")
    case None
    then have eq: "alive_pass (p # m) heap = alive_pass m heap" by (simp add: p)
    have "\<not> live P heap p" for P using None by (simp add: live_def p)
    then show ?thesis
      using Cons.IH [OF d, of heap] None unfolding eq by (auto simp: p fun_eq_iff)
  next
    case (Some s)
    define h where "h = AList.update w (sampled s) heap"
    have eq: "alive_pass (p # m) heap =
        (if silent s then (fst (alive_pass m h), p # fst (snd (alive_pass m h)), snd (snd (alive_pass m h)))
         else (p # fst (alive_pass m h), fst (snd (alive_pass m h)), snd (snd (alive_pass m h))))"
      using Some by (simp add: p isHeartbeatTimeout_def silent_def sampled_def h_def Let_def split_beta)
    have live: "live P heap p \<longleftrightarrow> P s" for P using Some by (simp add: live_def p)
    have f: "filter (live P h) m = filter (live P heap) m" for P
      unfolding h_def using w by (rule filter_live_update)
    have heap: "map_of h = (map_of heap)(w \<mapsto> sampled s)" by (simp add: h_def map_of_update)
    show ?thesis
      using Cons.IH [OF d, of h] w Some unfolding eq
      by (simp add: live f heap fun_eq_iff) (auto simp: p)
  qed
qed simp

section \<open>The session destroyer\<close>

record destroy_info =
  di_sessionId :: session_id
  di_session :: session_wptr
  di_flag :: int
  di_isFromAliveChecker :: bool

type_synonym destroy_queue = "destroy_info list"

definition destroyer_addSession :: "destroy_info \<Rightarrow> destroy_queue \<Rightarrow> destroy_queue" where
  "destroyer_addSession info q = q @ [info]"

definition destroyer_addSessions :: "destroy_info list \<Rightarrow> destroy_queue \<Rightarrow> destroy_queue" where
  "destroyer_addSessions infos q = q @ infos"

text \<open>The destroying thread takes one entry at a time, oldest first.\<close>

definition destroyer_pop :: "destroy_queue \<Rightarrow> (destroy_info \<times> destroy_queue) option" where
  "destroyer_pop q = (case q of [] \<Rightarrow> None | info # rest \<Rightarrow> Some (info, rest))"

section \<open>The session dispatcher\<close>

record dispatcher =
  sd_sessionSize :: "u64 list"
  sd_relation :: "(session_id, u64) umap"

definition SessionDispatcher_new :: "nat \<Rightarrow> dispatcher" where
  "SessionDispatcher_new n = \<lparr>sd_sessionSize = replicate n 0, sd_relation = []\<rparr>"

text \<open>
  The dispatching thread's body for one queued session, before and after the callback it is
  queued with.  \<^verbatim>\<open>min_element\<close> gives an iterator; the code uses the element it points to, the smallest count, where an index is meant.  The result is the
  index passed to the callback.
\<close>

definition dispatch_index :: "session_id \<Rightarrow> dispatcher \<Rightarrow> (u64 \<times> dispatcher) run" where
  "dispatch_index sid d =
     (case sd_sessionSize d of
        [] \<Rightarrow> Inl OutOfBounds
      | x # xs \<Rightarrow>
          (let m = foldl min x xs
           in Inr (m, d\<lparr>sd_relation := AList.update sid m (sd_relation d)\<rparr>)))"

definition dispatch_count :: "u64 \<Rightarrow> dispatcher \<Rightarrow> dispatcher run" where
  "dispatch_count m d =
     (if unat m < length (sd_sessionSize d)
      then Inr (d\<lparr>sd_sessionSize := (sd_sessionSize d)[unat m := sd_sessionSize d ! unat m + 1]\<rparr>)
      else Inl OutOfBounds)"

text \<open>The whole body, for a callback that only takes note of the index.\<close>

definition dispatch_one :: "session_id \<Rightarrow> dispatcher \<Rightarrow> (u64 \<times> dispatcher) run" where
  "dispatch_one sid d =
     and_then (dispatch_index sid d) (\<lambda>(m, d1). and_then (dispatch_count m d1) (\<lambda>d2. Inr (m, d2)))"

fun dispatch_all :: "session_id list \<Rightarrow> dispatcher \<Rightarrow> (u64 list \<times> dispatcher) run" where
  "dispatch_all [] d = Inr ([], d)"
| "dispatch_all (s # ss) d =
     and_then (dispatch_one s d) (\<lambda>(i, d1). and_then (dispatch_all ss d1) (\<lambda>(is, d2). Inr (i # is, d2)))"

definition removeSessionIdSlaveReactorRelation :: "session_id \<Rightarrow> dispatcher \<Rightarrow> int \<times> dispatcher" where
  "removeSessionIdSlaveReactorRelation sid d =
     (if map_of (sd_relation d) sid = None then (-1, d)
      else (0, d\<lparr>sd_relation := AList.delete sid (sd_relation d)\<rparr>))"

text \<open>\<^verbatim>\<open>getSlaveReactorIndexBySessionId\<close>, with \<open>None\<close> for the result \<open>-1\<close>.\<close>

definition getSlaveReactorIndexBySessionId :: "session_id \<Rightarrow> dispatcher \<Rightarrow> u64 option" where
  "getSlaveReactorIndexBySessionId sid d = map_of (sd_relation d) sid"

lemma foldl_min_zero: "foldl min x (replicate n (0 :: u64)) = (if n = 0 then x else 0)"
  by (induction n arbitrary: x) (simp_all add: min_def)

lemma dispatch_all_first:
  assumes "1 \<le> n"
  shows "sd_sessionSize d = c # replicate n 0 \<Longrightarrow>
    \<exists>d'. dispatch_all ss d = Inr (replicate (length ss) 0, d') \<and>
      sd_sessionSize d' = (c + of_nat (length ss)) # replicate n 0 \<and>
      (\<forall>s \<in> set ss. map_of (sd_relation d') s = Some 0) \<and>
      (\<forall>s. s \<notin> set ss \<longrightarrow> map_of (sd_relation d') s = map_of (sd_relation d) s)"
proof (induction ss arbitrary: c d)
  case (Cons s ss)
  let ?d1 = "d\<lparr>sd_relation := AList.update s 0 (sd_relation d), sd_sessionSize := (c + 1) # replicate n 0\<rparr>"
  have one: "dispatch_one s d = Inr (0, ?d1)"
    using assms by (simp add: dispatch_one_def dispatch_index_def dispatch_count_def Cons.prems foldl_min_zero Let_def)
  have "sd_sessionSize ?d1 = (c + 1) # replicate n 0" by simp
  from Cons.IH [OF this] obtain d' where d': "dispatch_all ss ?d1 = Inr (replicate (length ss) 0, d')"
    "sd_sessionSize d' = (c + 1 + of_nat (length ss)) # replicate n 0"
    "\<forall>s \<in> set ss. map_of (sd_relation d') s = Some 0"
    "\<forall>t. t \<notin> set ss \<longrightarrow> map_of (sd_relation d') t = map_of (sd_relation ?d1) t" by blast
  then show ?case using one by (auto simp: map_of_update add.assoc)
qed simp

section \<open>Properties\<close>

text \<open>One pass of the alive checker reports exactly the watched live sessions whose receive
  counter has not moved since the last pass, keeps exactly the live ones whose counter has, drops
  those already destroyed, and samples the counter of every watched session and of no other.\<close>

theorem alive_pass_exact:
  assumes "distinct (map snd m)" and "alive_pass m heap = (kept, offline, heap')"
  shows "offline = filter (live silent heap) m \<and> kept = filter (live (\<lambda>s. \<not> silent s) heap) m \<and>
    map_of heap' = (\<lambda>w. if w \<in> set (map snd m) then map_option sampled (map_of heap w) else map_of heap w)"
  using alive_pass_spec [OF assms(1), of heap] assms(2) by simp

definition ex_session :: "session_id \<Rightarrow> u32 \<Rightarrow> p2p_session" where
  "ex_session sid n = (P2PSession_new (0, 0) 9 sid (rb_new 8) (rb_new 8))\<lparr>ps_lastRecvCount := n\<rparr>"

theorem alive_pass_exact_witness:
  "\<exists>kept heap'. alive_pass [(1, 1), (2, 2), (3, 3)] [(2, ex_session 2 0), (1, ex_session 1 1)] =
     (kept, [(1, 1)], heap') \<and> kept = [(2, 2)]"
proof -
  obtain kept offline heap' where p:
    "alive_pass [(1, 1), (2, 2), (3, 3)] [(2, ex_session 2 0), (1, ex_session 1 1)] = (kept, offline, heap')"
    by (metis prod_cases3)
  with alive_pass_exact [OF _ p] show ?thesis
    by (simp add: live_def silent_def ex_session_def P2PSession_new_def)
qed

lemma refresh_session_lookup:
  "map_of (refresh_session t heap) sid =
     (if t = sid then map_option refreshHeartbeat (map_of heap sid) else map_of heap sid)"
  by (auto simp: refresh_session_def map_of_update split: option.splits)

lemma fold_refresh_lookup:
  "map_of (fold refresh_session ts heap) sid =
     map_option (\<lambda>s. s\<lparr>ps_recvCount := ps_recvCount s + of_nat (count_list ts sid)\<rparr>) (map_of heap sid)"
proof (induction ts arbitrary: heap)
  case Nil
  then show ?case by (cases "map_of heap sid") simp_all
next
  case (Cons t ts)
  then show ?case
    by (cases "map_of heap sid") (simp_all add: Cons.IH refresh_session_lookup refreshHeartbeat_def ac_simps)
qed

text \<open>Heartbeats keep a session alive and only heartbeats do.  Between two passes of the checker
  any heartbeats arrive, in any order and fewer than \<open>2 ^ 32\<close> per session.  A session that survived
  the first pass is reported offline by the second pass exactly when none of them was its own.\<close>

theorem alive_two_passes:
  assumes "distinct (map snd m)" and "alive_pass m heap = (kept, offline, heap1)"
    and "alive_pass kept (fold refresh_session ts heap1) = (kept2, offline2, heap2)"
    and "(sid, w) \<in> set kept" and "count_list ts w < 2 ^ 32"
  shows "((sid, w) \<in> set offline2 \<longleftrightarrow> w \<notin> set ts) \<and> ((sid, w) \<in> set kept2 \<longleftrightarrow> w \<in> set ts)"
proof -
  note p1 = alive_pass_spec [OF assms(1), of heap, unfolded assms(2)]
  have kept: "kept = filter (live (\<lambda>s. \<not> silent s) heap) m" using p1 by simp
  then have dk: "distinct (map snd kept)" using assms(1) by (simp add: distinct_map_filter)
  obtain s where s: "map_of heap w = Some s" "(sid, w) \<in> set m"
    using assms(4) kept by (auto simp: live_def split: option.splits)
  have "map_of heap1 w = Some (sampled s)" using p1 s by (force simp: fun_eq_iff)
  then have h: "map_of (fold refresh_session ts heap1) w =
      Some ((sampled s)\<lparr>ps_recvCount := ps_recvCount s + of_nat (count_list ts w)\<rparr>)"
    by (simp add: fold_refresh_lookup sampled_def)
  have "silent ((sampled s)\<lparr>ps_recvCount := ps_recvCount s + of_nat (count_list ts w)\<rparr>) \<longleftrightarrow>
      (of_nat (count_list ts w) :: u32) = 0"
    by (simp add: silent_def sampled_def)
  also have "\<dots> \<longleftrightarrow> w \<notin> set ts"
    using assms(5) by (auto simp: word_unat_eq_iff unat_of_nat take_bit_nat_eq_self count_list_0_iff)
  finally show ?thesis
    using alive_pass_spec [OF dk, of "fold refresh_session ts heap1", unfolded assms(3)] h assms(4)
    by (simp add: live_def)
qed

theorem alive_two_passes_witness:
  "\<exists>kept heap1 kept2 offline2 heap2.
     alive_pass [(1, 1), (2, 2)] [(1, ex_session 1 0), (2, ex_session 2 0)] = (kept, [], heap1) \<and>
     alive_pass kept (fold refresh_session [2, 2] heap1) = (kept2, offline2, heap2) \<and>
     (1, 1) \<in> set offline2 \<and> (2, 2) \<in> set kept2"
proof -
  obtain heap1 where p1: "alive_pass [(1, 1), (2, 2)] [(1, ex_session 1 0), (2, ex_session 2 0)] =
      ([(1, 1), (2, 2)], [], heap1)"
    by (simp add: isHeartbeatTimeout_def ex_session_def P2PSession_new_def)
  obtain kept2 offline2 heap2 where p2:
    "alive_pass [(1, 1), (2, 2)] (fold refresh_session [2, 2] heap1) = (kept2, offline2, heap2)"
    by (metis prod_cases3)
  show ?thesis
    using alive_two_passes [OF _ p1 p2, of 1 1] alive_two_passes [OF _ p1 p2, of 2 2] p1 p2 by auto
qed

text \<open>The dispatcher does not balance.  With two or more reactors every session, however many,
  is given to reactor 0, because the smallest count, which stays 0, is used as the index; the
  other reactors stay empty.\<close>

theorem dispatcher_never_balances:
  assumes "2 \<le> n"
  shows "\<exists>d. dispatch_all ss (SessionDispatcher_new n) = Inr (replicate (length ss) 0, d) \<and>
    sd_sessionSize d = of_nat (length ss) # replicate (n - 1) 0 \<and>
    (\<forall>s. getSlaveReactorIndexBySessionId s d = (if s \<in> set ss then Some 0 else None))"
proof -
  have "sd_sessionSize (SessionDispatcher_new n) = 0 # replicate (n - 1) 0"
    using assms by (cases n) (simp_all add: SessionDispatcher_new_def)
  from dispatch_all_first [OF _ this, of ss] assms show ?thesis
    by (fastforce simp: getSlaveReactorIndexBySessionId_def SessionDispatcher_new_def)
qed

theorem dispatcher_never_balances_witness:
  "\<exists>d. dispatch_all [7, 8, 9] (SessionDispatcher_new 4) = Inr ([0, 0, 0], d) \<and>
    sd_sessionSize d = [3, 0, 0, 0]"
  using dispatcher_never_balances [of 4 "[7, 8, 9]"] by (auto simp: numeral_eq_Suc)

text \<open>With one reactor the second session is given the reactor index 1, which does not exist,
  and the count of reactor 1 is incremented outside the vector.\<close>

theorem dispatcher_single_reactor_overrun:
  "\<exists>d. dispatch_one 7 (SessionDispatcher_new 1) = Inr (0, d) \<and> sd_sessionSize d = [1] \<and>
    dispatch_one 8 d = Inl OutOfBounds"
  by (simp add: SessionDispatcher_new_def dispatch_one_def dispatch_index_def dispatch_count_def Let_def)

end
