(* ===== verification/Codec.thy ===== *)
theory Codec
  imports Prelude
begin

unbundle bit_operations_syntax

text \<open>
  \<^verbatim>\<open>csm-service/protocol\<close>: the packet header (\<^verbatim>\<open>PacketHeader\<close>), the packet types, the payload
  classes, \<^verbatim>\<open>PayloadFactory\<close> and \<^verbatim>\<open>PacketEncodeHelper\<close>.  The protobuf runtime and the code
  \<^verbatim>\<open>protoc\<close> generates are a parameter of type \<open>protobuf\<close>; the messages themselves are records with
  the fields of the \<^verbatim>\<open>.proto\<close> files.
\<close>

section \<open>Enumerations\<close>

text \<open>
  An \<^verbatim>\<open>enum class\<close> holds any value of its underlying type; the values the source does not name are
  \<open>PT_Unnamed\<close> and \<open>M_Unnamed\<close>.
\<close>

datatype packet_type = PT_None | PT_ClientInfo | PT_ClientInfoReply | PT_HeartBeat
  | PT_HeartBeatReply | PT_DistanceDetect | PT_DistanceDetectReply | PT_DistanceVector
  | PT_ModuleMessage | PT_Unnamed u32

fun packet_type_code :: "packet_type \<Rightarrow> u32" where
  "packet_type_code PT_None = 0"
| "packet_type_code PT_ClientInfo = 1"
| "packet_type_code PT_ClientInfoReply = 2"
| "packet_type_code PT_HeartBeat = 3"
| "packet_type_code PT_HeartBeatReply = 4"
| "packet_type_code PT_DistanceDetect = 5"
| "packet_type_code PT_DistanceDetectReply = 6"
| "packet_type_code PT_DistanceVector = 7"
| "packet_type_code PT_ModuleMessage = 8"
| "packet_type_code (PT_Unnamed w) = w"

definition packet_type_of :: "u32 \<Rightarrow> packet_type" where
  "packet_type_of w =
     (if w = 0 then PT_None else if w = 1 then PT_ClientInfo else if w = 2 then PT_ClientInfoReply
      else if w = 3 then PT_HeartBeat else if w = 4 then PT_HeartBeatReply
      else if w = 5 then PT_DistanceDetect else if w = 6 then PT_DistanceDetectReply
      else if w = 7 then PT_DistanceVector else if w = 8 then PT_ModuleMessage else PT_Unnamed w)"

datatype module_id = M_raft | M_rpc | M_unknown | M_Unnamed u32

fun module_code :: "module_id \<Rightarrow> u32" where
  "module_code M_raft = 0"
| "module_code M_rpc = 1"
| "module_code M_unknown = 2"
| "module_code (M_Unnamed w) = w"

definition module_of :: "u32 \<Rightarrow> module_id" where
  "module_of w =
     (if w = 0 then M_raft else if w = 1 then M_rpc else if w = 2 then M_unknown else M_Unnamed w)"

text \<open>A value is in normal form when an unnamed code is not one of the named ones.\<close>

definition named_type :: "packet_type \<Rightarrow> bool" where
  "named_type t \<longleftrightarrow> (\<forall>w. t \<noteq> PT_Unnamed w)"

definition module_normal :: "module_id \<Rightarrow> bool" where
  "module_normal m \<longleftrightarrow> module_of (module_code m) = m"

lemma module_of_code [simp]: "module_normal m \<Longrightarrow> module_of (module_code m) = m"
  by (simp add: module_normal_def)

lemma module_normal_of [simp]: "module_normal (module_of w)"
  by (simp add: module_normal_def module_of_def)

lemma module_normal_named [simp]: "module_normal M_raft" "module_normal M_rpc" "module_normal M_unknown"
  by (simp_all add: module_normal_def module_of_def)

lemma packet_type_code_u16: "named_type t \<Longrightarrow> ucast (ucast (packet_type_code t) :: u16) = packet_type_code t"
  by (cases t) (simp_all add: named_type_def)

lemma packet_type_of_code: "named_type t \<Longrightarrow> packet_type_of (packet_type_code t) = t"
  by (cases t) (simp_all add: named_type_def packet_type_of_def)

section \<open>Byte order\<close>

text \<open>\<^verbatim>\<open>htonl\<close> and \<^verbatim>\<open>htons\<close> followed by the store: the most significant byte first.\<close>

definition be16 :: "u16 \<Rightarrow> u8 list" where
  "be16 w = [ucast (drop_bit 8 w), ucast w]"

definition be32 :: "u32 \<Rightarrow> u8 list" where
  "be32 w = [ucast (drop_bit 24 w), ucast (drop_bit 16 w), ucast (drop_bit 8 w), ucast w]"

definition of_be16 :: "u8 list \<Rightarrow> u16" where
  "of_be16 bs = (case bs of a # b # _ \<Rightarrow> push_bit 8 (ucast a) OR ucast b | _ \<Rightarrow> 0)"

definition of_be32 :: "u8 list \<Rightarrow> u32" where
  "of_be32 bs = (case bs of a # b # c # d # _ \<Rightarrow>
       push_bit 24 (ucast a) OR push_bit 16 (ucast b) OR push_bit 8 (ucast c) OR ucast d | _ \<Rightarrow> 0)"

lemma length_be [simp]: "length (be16 w) = 2" "length (be32 v) = 4"
  by (simp_all add: be16_def be32_def)

lemma of_be16_be16 [simp]: "of_be16 (be16 w) = w"
  by (simp add: of_be16_def be16_def, rule bit_word_eqI) (auto simp: bit_simps)

lemma of_be32_be32 [simp]: "of_be32 (be32 w) = w"
  unfolding of_be32_def be32_def list.case
proof (rule bit_word_eqI)
  fix n assume n: "n < LENGTH(32)"
  consider "n < 8" | "8 \<le> n" "n < 16" | "16 \<le> n" "n < 24" | "24 \<le> n" by linarith
  then show "bit (push_bit 24 (ucast (ucast (drop_bit 24 w) :: u8) :: u32) OR
      push_bit 16 (ucast (ucast (drop_bit 16 w) :: u8)) OR
      push_bit 8 (ucast (ucast (drop_bit 8 w) :: u8)) OR ucast (ucast w :: u8)) n = bit w n"
    by cases (use n in \<open>auto simp: bit_simps\<close>)
qed

section \<open>The packet header\<close>

record packet_header =
  m_magic :: u32
  m_packetType :: u16
  m_moduleId :: module_id
  m_payloadLength :: u32

definition c_magic :: u32 where
  "c_magic = 0x2cc98f5d"

definition PacketHeader_new :: packet_header where
  "PacketHeader_new = \<lparr>m_magic = c_magic, m_packetType = 0, m_moduleId = M_unknown, m_payloadLength = 0\<rparr>"

definition isMagicMatch :: "packet_header \<Rightarrow> bool" where
  "isMagicMatch h \<longleftrightarrow> c_magic = m_magic h"

definition setType :: "packet_type \<Rightarrow> packet_header \<Rightarrow> packet_header" where
  "setType t h = h\<lparr>m_packetType := ucast (packet_type_code t)\<rparr>"

definition header_type :: "packet_header \<Rightarrow> packet_type" where
  "header_type h = packet_type_of (ucast (m_packetType h))"

definition setPayloadLength :: "u32 \<Rightarrow> packet_header \<Rightarrow> packet_header" where
  "setPayloadLength n h = h\<lparr>m_payloadLength := n\<rparr>"

definition setModuleId :: "module_id \<Rightarrow> packet_header \<Rightarrow> packet_header" where
  "setModuleId m h = h\<lparr>m_moduleId := m\<rparr>"

definition headerLength :: u64 where
  "headerLength = 4 + 2 + 4 + 4"

definition header_encode :: "packet_header \<Rightarrow> u8 list \<Rightarrow> u64 \<Rightarrow> (int \<times> u8 list) run" where
  "header_encode h buffer len =
     (if len \<noteq> headerLength then Inr (-1, buffer)
      else
        and_then (mem_write buffer 0 (be32 (m_magic h))) (\<lambda>b1.
        and_then (mem_write b1 4 (be16 (m_packetType h))) (\<lambda>b2.
        and_then (mem_write b2 6 (be32 (module_code (m_moduleId h)))) (\<lambda>b3.
        and_then (mem_write b3 10 (be32 (m_payloadLength h))) (\<lambda>b4.
        Inr (0, b4))))))"

text \<open>\<open>off\<close> is the offset of the pointer \<^verbatim>\<open>buffer\<close> in the array it points into.\<close>

definition header_decode :: "u8 list \<Rightarrow> nat \<Rightarrow> u64 \<Rightarrow> packet_header \<Rightarrow> (int \<times> packet_header) run" where
  "header_decode buffer off len h =
     (if len < headerLength then Inr (-1, h)
      else
        and_then (mem_read buffer off 4) (\<lambda>magic.
        and_then (mem_read buffer (off + 4) 2) (\<lambda>ptype.
        and_then (mem_read buffer (off + 6) 4) (\<lambda>modid.
        and_then (mem_read buffer (off + 10) 4) (\<lambda>plen.
        Inr (0, h\<lparr>m_magic := of_be32 magic, m_packetType := of_be16 ptype,
                  m_moduleId := module_of (of_be32 modid), m_payloadLength := of_be32 plen\<rparr>))))))"

text \<open>The header as the fourteen bytes on the wire, and back.\<close>

definition header_bytes :: "packet_header \<Rightarrow> u8 list" where
  "header_bytes h = be32 (m_magic h) @ be16 (m_packetType h) @
     be32 (module_code (m_moduleId h)) @ be32 (m_payloadLength h)"

definition header_parse :: "u8 list \<Rightarrow> packet_header" where
  "header_parse bs = \<lparr>m_magic = of_be32 (take 4 bs), m_packetType = of_be16 (take 2 (drop 4 bs)),
     m_moduleId = module_of (of_be32 (take 4 (drop 6 bs))),
     m_payloadLength = of_be32 (take 4 (drop 10 bs))\<rparr>"

lemma headerLength_unat [simp]: "unat headerLength = 14"
  by (simp add: headerLength_def)

lemma headerLength_eq: "headerLength = 14"
  by (simp add: headerLength_def)

lemma length_header_bytes [simp]: "length (header_bytes h) = 14"
  by (simp add: header_bytes_def)

lemma header_parse_bytes [simp]:
  "module_normal (m_moduleId h) \<Longrightarrow> header_parse (header_bytes h @ bs) = h"
  by (simp add: header_parse_def header_bytes_def)

lemma header_encode_spec:
  assumes "14 \<le> length buffer"
  shows "header_encode h buffer headerLength = Inr (0, header_bytes h @ drop 14 buffer)"
  using assms by (simp add: header_encode_def header_bytes_def)

lemma header_decode_spec:
  assumes "off + 14 \<le> length buffer"
  shows "header_decode buffer off headerLength h = Inr (0, header_parse (drop off buffer))"
  using assms by (simp add: header_decode_def header_parse_def add.commute)

section \<open>Payloads\<close>

text \<open>The messages of \<^verbatim>\<open>clientinfo.proto\<close>, \<^verbatim>\<open>heartbeat.proto\<close> and \<^verbatim>\<open>distance_vector.proto\<close>.\<close>

record client_info =
  ci_seq :: u32
  ci_localHost :: string
  ci_peerHost :: string
  ci_handshakeUuid :: string
  ci_nodeId :: node_id

record client_info_reply =
  cir_seq :: u32
  cir_peerHost :: string
  cir_handshakeUuid :: string
  cir_nodeId :: node_id
  cir_result :: u32

record heart_beat =
  hb_nodeId :: node_id
  hb_seq :: u64
  hb_timestamp :: u32

record heart_beat_reply =
  hbr_nodeId :: node_id
  hbr_seq :: u64
  hbr_transferTime :: u32

record distance_detect =
  dd_seq :: u64
  dd_timestamp :: u32

record distance_detect_reply =
  ddr_seq :: u64
  ddr_elapsedTime :: u32

record distance_vector_msg =
  dvm_seq :: u64
  dvm_distanceVector :: "(node_id \<times> u32) list"

text \<open>
  A protobuf message class: \<^verbatim>\<open>ByteSizeLong\<close> and \<^verbatim>\<open>SerializeToArray\<close> are given by the bytes,
  \<^verbatim>\<open>ParseFromArray\<close> returns whether it succeeded and leaves the message in some state either way.
\<close>

record 'm pb_codec =
  pb_bytes :: "'m \<Rightarrow> u8 list"
  pb_parse :: "u8 list \<Rightarrow> bool \<times> 'm"

record protobuf =
  pb_clientInfo :: "client_info pb_codec"
  pb_clientInfoReply :: "client_info_reply pb_codec"
  pb_heartBeat :: "heart_beat pb_codec"
  pb_heartBeatReply :: "heart_beat_reply pb_codec"
  pb_distanceDetect :: "distance_detect pb_codec"
  pb_distanceDetectReply :: "distance_detect_reply pb_codec"
  pb_distanceVector :: "distance_vector_msg pb_codec"

text \<open>The payload classes as one sum.\<close>

datatype payload =
    Pl_ClientInfo client_info
  | Pl_ClientInfoReply client_info_reply
  | Pl_HeartBeat heart_beat
  | Pl_HeartBeatReply heart_beat_reply
  | Pl_DistanceDetect distance_detect
  | Pl_DistanceDetectReply distance_detect_reply
  | Pl_DistanceVector distance_vector_msg
  | Pl_ModuleMessage "u8 list"

fun payload_type :: "payload \<Rightarrow> packet_type" where
  "payload_type (Pl_ClientInfo _) = PT_ClientInfo"
| "payload_type (Pl_ClientInfoReply _) = PT_ClientInfoReply"
| "payload_type (Pl_HeartBeat _) = PT_HeartBeat"
| "payload_type (Pl_HeartBeatReply _) = PT_HeartBeatReply"
| "payload_type (Pl_DistanceDetect _) = PT_DistanceDetect"
| "payload_type (Pl_DistanceDetectReply _) = PT_DistanceDetectReply"
| "payload_type (Pl_DistanceVector _) = PT_DistanceVector"
| "payload_type (Pl_ModuleMessage _) = PT_ModuleMessage"

text \<open>
  \<^verbatim>\<open>PayloadTypeBase::packetLength\<close> and \<^verbatim>\<open>encode\<close>.  \<^verbatim>\<open>PayloadModuleMessage\<close> overrides both to do
  nothing.
\<close>

fun payload_bytes :: "protobuf \<Rightarrow> payload \<Rightarrow> u8 list" where
  "payload_bytes pb (Pl_ClientInfo m) = pb_bytes (pb_clientInfo pb) m"
| "payload_bytes pb (Pl_ClientInfoReply m) = pb_bytes (pb_clientInfoReply pb) m"
| "payload_bytes pb (Pl_HeartBeat m) = pb_bytes (pb_heartBeat pb) m"
| "payload_bytes pb (Pl_HeartBeatReply m) = pb_bytes (pb_heartBeatReply pb) m"
| "payload_bytes pb (Pl_DistanceDetect m) = pb_bytes (pb_distanceDetect pb) m"
| "payload_bytes pb (Pl_DistanceDetectReply m) = pb_bytes (pb_distanceDetectReply pb) m"
| "payload_bytes pb (Pl_DistanceVector m) = pb_bytes (pb_distanceVector pb) m"
| "payload_bytes pb (Pl_ModuleMessage xs) = []"

definition packetLength :: "protobuf \<Rightarrow> payload \<Rightarrow> u64" where
  "packetLength pb p = of_nat (length (payload_bytes pb p))"

text \<open>\<^verbatim>\<open>SerializeToArray\<close> fails when the array is smaller than the message.\<close>

definition payload_encode ::
  "protobuf \<Rightarrow> payload \<Rightarrow> u8 list \<Rightarrow> nat \<Rightarrow> u64 \<Rightarrow> (int \<times> u8 list) run" where
  "payload_encode pb p buffer off len =
     (if length (payload_bytes pb p) > unat len then Inr (-1, buffer)
      else and_then (mem_write buffer off (payload_bytes pb p)) (\<lambda>b. Inr (0, b)))"

text \<open>
  \<^verbatim>\<open>PayloadFactory::createPayload (type, data, len)\<close>: creates the payload of the type and decodes
  into it, ignoring whether that worked.  There is no case for the three distance types.
\<close>

fun createPayload :: "protobuf \<Rightarrow> packet_type \<Rightarrow> u8 list \<Rightarrow> payload option" where
  "createPayload pb PT_ClientInfo data = Some (Pl_ClientInfo (snd (pb_parse (pb_clientInfo pb) data)))"
| "createPayload pb PT_ClientInfoReply data =
     Some (Pl_ClientInfoReply (snd (pb_parse (pb_clientInfoReply pb) data)))"
| "createPayload pb PT_HeartBeat data = Some (Pl_HeartBeat (snd (pb_parse (pb_heartBeat pb) data)))"
| "createPayload pb PT_HeartBeatReply data =
     Some (Pl_HeartBeatReply (snd (pb_parse (pb_heartBeatReply pb) data)))"
| "createPayload pb PT_ModuleMessage data = Some (Pl_ModuleMessage data)"
| "createPayload pb _ data = None"

section \<open>Encoding packets\<close>

text \<open>\<^verbatim>\<open>PacketEncodeHelper<type, T>::encode\<close>, the specialisations for a packet without payload and
  the one for module messages.\<close>

definition encode_packet :: "protobuf \<Rightarrow> payload \<Rightarrow> u8 list run" where
  "encode_packet pb p =
     (let header = setPayloadLength (ucast (packetLength pb p)) (setType (payload_type p) PacketHeader_new);
          buffer = replicate (unat (headerLength + packetLength pb p)) 0
      in and_then (header_encode header buffer headerLength) (\<lambda>(_, b1).
         and_then (payload_encode pb p b1 (unat headerLength) (packetLength pb p)) (\<lambda>(_, b2). Inr b2)))"

definition encode_empty :: "packet_type \<Rightarrow> u8 list run" where
  "encode_empty t =
     (let header = setPayloadLength 0 (setType t PacketHeader_new)
      in and_then (header_encode header (replicate (unat headerLength) 0) headerLength) (\<lambda>(_, b). Inr b))"

definition encode_module :: "module_id \<Rightarrow> u8 list \<Rightarrow> u8 list run" where
  "encode_module m xs =
     (let header = setPayloadLength (of_nat (length xs))
            (setModuleId m (setType PT_ModuleMessage PacketHeader_new))
      in and_then (header_encode header
             (replicate (unat (headerLength + of_nat (length xs))) 0) headerLength) (\<lambda>(_, b1).
         and_then (mem_write b1 (unat headerLength) xs) Inr))"

text \<open>The header the receiver sees.\<close>

definition packet_head :: "packet_type \<Rightarrow> module_id \<Rightarrow> nat \<Rightarrow> packet_header" where
  "packet_head t m n = \<lparr>m_magic = c_magic, m_packetType = ucast (packet_type_code t),
     m_moduleId = m, m_payloadLength = of_nat n\<rparr>"

lemma packet_head_simps [simp]:
  "isMagicMatch (packet_head t m n)"
  "m_moduleId (packet_head t m n) = m"
  "m_payloadLength (packet_head t m n) = of_nat n"
  "named_type t \<Longrightarrow> header_type (packet_head t m n) = t"
  by (simp_all add: packet_head_def isMagicMatch_def header_type_def packet_type_code_u16 packet_type_of_code)

lemma named_payload_type [simp]: "named_type (payload_type p)"
  by (cases p) (simp_all add: named_type_def)

lemma ucast_of_nat_len: "(ucast (of_nat n :: u64) :: u32) = of_nat n"
  by (rule bit_word_eqI) (simp add: bit_simps)

lemma encode_packet_bytes:
  assumes "length (payload_bytes pb p) < 2 ^ 32"
  shows "encode_packet pb p =
    Inr (header_bytes (packet_head (payload_type p) M_unknown (length (payload_bytes pb p))) @ payload_bytes pb p)"
proof -
  let ?n = "length (payload_bytes pb p)"
  have n: "unat (packetLength pb p) = ?n"
    using assms by (simp add: packetLength_def unat_of_nat take_bit_nat_eq_self)
  then have sum: "unat (headerLength + packetLength pb p) = 14 + ?n"
    using assms by (simp add: unat_plus64)
  have h: "setPayloadLength (ucast (packetLength pb p)) (setType (payload_type p) PacketHeader_new) =
      packet_head (payload_type p) M_unknown ?n"
    by (simp add: setPayloadLength_def setType_def PacketHeader_new_def packet_head_def packetLength_def
        ucast_of_nat_len)
  show ?thesis
    by (simp add: encode_packet_def Let_def h sum header_encode_spec payload_encode_def n)
qed

lemma encode_empty_bytes: "encode_empty t = Inr (header_bytes (packet_head t M_unknown 0))"
  by (simp add: encode_empty_def Let_def header_encode_spec setPayloadLength_def setType_def
      PacketHeader_new_def packet_head_def)

lemma encode_module_bytes:
  assumes "length xs < 2 ^ 32"
  shows "encode_module m xs = Inr (header_bytes (packet_head PT_ModuleMessage m (length xs)) @ xs)"
proof -
  have sum: "unat (headerLength + of_nat (length xs)) = 14 + length xs"
    using assms by (simp add: unat_plus64 unat_of_nat take_bit_nat_eq_self)
  have h: "setPayloadLength (of_nat (length xs)) (setModuleId m (setType PT_ModuleMessage PacketHeader_new)) =
      packet_head PT_ModuleMessage m (length xs)"
    by (simp add: setPayloadLength_def setModuleId_def setType_def PacketHeader_new_def packet_head_def)
  show ?thesis by (simp add: encode_module_def Let_def h sum header_encode_spec)
qed

text \<open>A concrete message library, on which the theorems' hypotheses are instantiated.\<close>

definition ex_pb :: protobuf where
  "ex_pb = \<lparr>pb_clientInfo = \<lparr>pb_bytes = \<lambda>m. [], pb_parse = \<lambda>bs. (True, \<lparr>ci_seq = 0, ci_localHost = [],
       ci_peerHost = [], ci_handshakeUuid = [], ci_nodeId = []\<rparr>)\<rparr>,
     pb_clientInfoReply = \<lparr>pb_bytes = \<lambda>m. [ucast (cir_result m)], pb_parse = \<lambda>bs. (True, \<lparr>cir_seq = 0,
       cir_peerHost = [], cir_handshakeUuid = [], cir_nodeId = [], cir_result = ucast (hd bs)\<rparr>)\<rparr>,
     pb_heartBeat = \<lparr>pb_bytes = \<lambda>m. [], pb_parse = \<lambda>bs. (True, \<lparr>hb_nodeId = [], hb_seq = 0,
       hb_timestamp = 0\<rparr>)\<rparr>,
     pb_heartBeatReply = \<lparr>pb_bytes = \<lambda>m. [], pb_parse = \<lambda>bs. (True, \<lparr>hbr_nodeId = [], hbr_seq = 0,
       hbr_transferTime = 0\<rparr>)\<rparr>,
     pb_distanceDetect = \<lparr>pb_bytes = \<lambda>m. [ucast (dd_seq m), ucast (dd_timestamp m)],
       pb_parse = \<lambda>bs. (True, \<lparr>dd_seq = ucast (hd bs), dd_timestamp = 0\<rparr>)\<rparr>,
     pb_distanceDetectReply = \<lparr>pb_bytes = \<lambda>m. [ucast (ddr_seq m)],
       pb_parse = \<lambda>bs. (True, \<lparr>ddr_seq = ucast (hd bs), ddr_elapsedTime = 0\<rparr>)\<rparr>,
     pb_distanceVector = \<lparr>pb_bytes = \<lambda>m. [ucast (dvm_seq m)],
       pb_parse = \<lambda>bs. (True, \<lparr>dvm_seq = ucast (hd bs), dvm_distanceVector = []\<rparr>)\<rparr>\<rparr>"

text \<open>Protobuf refuses to serialise messages of \<open>2 ^ 31\<close> bytes or more.\<close>

definition pb_small :: "protobuf \<Rightarrow> bool" where
  "pb_small pb \<longleftrightarrow> (\<forall>p. length (payload_bytes pb p) < 2 ^ 31)"

lemma pb_smallD: "pb_small pb \<Longrightarrow> length (payload_bytes pb p) < 2 ^ 32"
proof -
  assume "pb_small pb"
  then have "length (payload_bytes pb p) < 2 ^ 31" by (simp add: pb_small_def)
  then show ?thesis by simp
qed

lemma pb_small_ex: "pb_small ex_pb"
  unfolding pb_small_def
proof
  fix p show "length (payload_bytes ex_pb p) < 2 ^ 31" by (cases p) (simp_all add: ex_pb_def)
qed

section \<open>Properties\<close>

text \<open>header round trip.  Encoding a header into a buffer writes exactly its first fourteen
  bytes, and decoding from there, over any header object and from a buffer at any offset, gives
  the header back; an encode with a length other than 14 is refused and writes nothing.\<close>

theorem header_roundtrip:
  assumes "14 \<le> length buffer" "module_normal (m_moduleId h)"
  shows "\<exists>b. header_encode h buffer headerLength = Inr (0, b) \<and>
    header_decode (pre @ b) (length pre) headerLength h0 = Inr (0, h) \<and>
    drop 14 b = drop 14 buffer \<and>
    (len \<noteq> headerLength \<longrightarrow> header_encode h buffer len = Inr (-1, buffer))"
  using assms
  by (simp add: header_encode_spec header_decode_spec) (simp add: header_encode_def)

theorem header_roundtrip_witness:
  "\<exists>b. header_encode (setModuleId M_rpc PacketHeader_new) (replicate 16 7) headerLength = Inr (0, b) \<and>
    header_decode (1 # b) 1 headerLength PacketHeader_new = Inr (0, setModuleId M_rpc PacketHeader_new)"
  using header_roundtrip [of "replicate 16 7" "setModuleId M_rpc PacketHeader_new" "[1]"
      PacketHeader_new 0]
  by (auto simp: setModuleId_def PacketHeader_new_def)

end
