(* ===== verification/Decoder.thy ===== *)
theory Decoder
  imports Session Codec
begin

text \<open>
  \<^verbatim>\<open>SessionDataDecoder\<close>: received bytes are appended to the session's ring buffer and complete
  packets are cut off its front.  The decoder is related to \<open>parse_packets\<close>, which cuts packets off
  a plain byte string.
\<close>

section \<open>The decoder\<close>

type_synonym packet = "packet_header \<times> payload option"

text \<open>
  \<^verbatim>\<open>decodePacketHeader\<close>.  When the header wraps round the end of the array it is copied into a
  vector that is local to the branch, and \<^verbatim>\<open>buffer\<close> is left pointing into it; the decode that
  follows reads the freed storage.
\<close>

definition decodePacketHeader :: "ringbuffer \<Rightarrow> packet_header option run" where
  "decodePacketHeader rb =
     (case rb_getBufferForRead rb headerLength of
        (ret, Some off) \<Rightarrow>
          and_then (header_decode (m_buffer rb) (unat off) headerLength PacketHeader_new) (\<lambda>(_, h).
          if isMagicMatch h then Inr (Some h) else Inl AssertFailed)
      | (ret, None) \<Rightarrow>
          if ret = -1 then Inr None
          else and_then (rb_readData rb headerLength 0 (replicate (unat headerLength) 0)) (\<lambda>_.
               Inl Dangling))"

definition decodePacketPayload :: "protobuf \<Rightarrow> packet_header \<Rightarrow> ringbuffer \<Rightarrow> payload option run" where
  "decodePacketPayload pb h rb =
     (let payloadLength = (ucast (m_payloadLength h) :: u64)
      in if rb_dataLength rb - headerLength < payloadLength then Inr None
         else (case rb_getContinuousData rb of
           (ret, None) \<Rightarrow> Inl AssertFailed
         | (ret, Some (off, continuousDataLen)) \<Rightarrow>
             if continuousDataLen < headerLength + payloadLength then
               and_then (rb_readData rb payloadLength headerLength (replicate (unat payloadLength) 0))
                 (\<lambda>(ret, payloadData).
                 if ret = -1 then Inl AssertFailed
                 else Inr (createPayload pb (header_type h) payloadData))
             else
               and_then (mem_read (m_buffer rb) (unat (off + headerLength)) (unat payloadLength)) (\<lambda>data.
               Inr (createPayload pb (header_type h) data))))"

text \<open>One round of the decoding loop; \<open>None\<close> where the loop breaks.\<close>

definition decode_one :: "protobuf \<Rightarrow> ringbuffer \<Rightarrow> (packet \<times> ringbuffer) option run" where
  "decode_one pb rb =
     and_then (decodePacketHeader rb) (\<lambda>header.
       case header of
         None \<Rightarrow> Inr None
       | Some h \<Rightarrow>
           and_then (if m_payloadLength h \<noteq> 0 then decodePacketPayload pb h rb else Inr None) (\<lambda>payload.
           if m_payloadLength h \<noteq> 0 \<and> payload = None then Inr None
           else Inr (Some ((h, payload),
                  snd (rb_decreaseUsedSpace rb (headerLength + ucast (m_payloadLength h)))))))"

text \<open>The loop, with fuel; \<open>None\<close> when the fuel runs out.  The packets are the handler's calls.\<close>

fun decode_loop :: "protobuf \<Rightarrow> nat \<Rightarrow> ringbuffer \<Rightarrow> (packet list \<times> ringbuffer) run option" where
  "decode_loop pb 0 rb = None"
| "decode_loop pb (Suc n) rb =
     (case decode_one pb rb of
        Inl e \<Rightarrow> Some (Inl e)
      | Inr None \<Rightarrow> Some (Inr ([], rb))
      | Inr (Some (p, rb')) \<Rightarrow>
          map_option (\<lambda>r. and_then r (\<lambda>(ps, rb''). Inr (p # ps, rb''))) (decode_loop pb n rb'))"

text \<open>
  \<^verbatim>\<open>addSessionData\<close>: the job a worker runs for one received chunk.  The session is \<open>None\<close> when it
  has been destroyed.  The result also gives the return value of
  \<^verbatim>\<open>writeDataToP2PSessionReadBuffer\<close>: \<open>-1\<close> drops the chunk.
\<close>

definition addSessionData ::
  "protobuf \<Rightarrow> nat \<Rightarrow> bool \<Rightarrow> p2p_session option \<Rightarrow> u8 list \<Rightarrow>
     (int \<times> packet list \<times> p2p_session option) run option" where
  "addSessionData pb fuel running session data =
     (case session of
        None \<Rightarrow> Some (Inr (0, [], None))
      | Some s \<Rightarrow>
          if ps_isWaitingDisconnect s then Some (Inr (0, [], Some s))
          else (case rb_push (ps_readBuffer s) data of
              Inl e \<Rightarrow> Some (Inl e)
            | Inr (ret, rb) \<Rightarrow>
                if ret = -1 then Some (Inr (-1, [], Some (s\<lparr>ps_readBuffer := rb\<rparr>)))
                else if \<not> running then Some (Inr (0, [], Some (s\<lparr>ps_readBuffer := rb\<rparr>)))
                else map_option (\<lambda>r. and_then r (\<lambda>(ps, rb').
                       Inr (0, ps, Some (s\<lparr>ps_readBuffer := rb'\<rparr>)))) (decode_loop pb fuel rb)))"

text \<open>Chunks of one session handled one after the other.\<close>

fun feed_chunks :: "protobuf \<Rightarrow> nat \<Rightarrow> p2p_session option \<Rightarrow> u8 list list \<Rightarrow>
    (int list \<times> packet list \<times> p2p_session option) run option" where
  "feed_chunks pb fuel s [] = Some (Inr ([], [], s))"
| "feed_chunks pb fuel s (c # cs) =
     (case addSessionData pb fuel True s c of
        None \<Rightarrow> None
      | Some (Inl e) \<Rightarrow> Some (Inl e)
      | Some (Inr (ret, ps, s')) \<Rightarrow>
          map_option (\<lambda>r. and_then r (\<lambda>(rets, qs, s''). Inr (ret # rets, ps @ qs, s'')))
            (feed_chunks pb fuel s' cs))"

section \<open>Packets in a byte string\<close>

definition next_packet :: "protobuf \<Rightarrow> u8 list \<Rightarrow> (packet \<times> nat) option" where
  "next_packet pb bs =
     (if length bs < 14 then None
      else (let h = header_parse bs; n = unat (m_payloadLength h)
            in if \<not> isMagicMatch h then None
               else if n = 0 then Some ((h, None), 14)
               else if length bs < 14 + n then None
               else (case createPayload pb (header_type h) (take n (drop 14 bs)) of
                       None \<Rightarrow> None
                     | Some p \<Rightarrow> Some ((h, Some p), 14 + n))))"

lemma next_packet_size: "next_packet pb bs = Some (p, n) \<Longrightarrow> 14 \<le> n \<and> n \<le> length bs"
  by (auto simp: next_packet_def Let_def split: if_splits option.splits)

function parse_packets :: "protobuf \<Rightarrow> u8 list \<Rightarrow> packet list \<times> u8 list" where
  "parse_packets pb bs =
     (case next_packet pb bs of
        None \<Rightarrow> ([], bs)
      | Some (p, n) \<Rightarrow> (let (ps, rest) = parse_packets pb (drop n bs) in (p # ps, rest)))"
  by pat_completeness auto

termination
  by (relation "measure (\<lambda>(pb, bs). length bs)") (auto dest!: next_packet_size)

declare parse_packets.simps [simp del]

definition bad_magic :: "u8 list \<Rightarrow> bool" where
  "bad_magic bs \<longleftrightarrow> 14 \<le> length bs \<and> \<not> isMagicMatch (header_parse bs)"

text \<open>The positions at which the decoder looks for a header.\<close>

function header_positions :: "protobuf \<Rightarrow> u8 list \<Rightarrow> nat list" where
  "header_positions pb bs =
     (if length bs < 14 then []
      else 0 # (case next_packet pb bs of
                  None \<Rightarrow> []
                | Some (p, n) \<Rightarrow> map (\<lambda>k. n + k) (header_positions pb (drop n bs))))"
  by pat_completeness auto

termination
  by (relation "measure (\<lambda>(pb, bs). length bs)") (auto dest!: next_packet_size)

declare header_positions.simps [simp del]

text \<open>A header at position \<open>k\<close> of the content lies across the end of the array.\<close>

definition header_split :: "ringbuffer \<Rightarrow> nat \<Rightarrow> bool" where
  "header_split rb k \<longleftrightarrow>
     length (m_buffer rb) < (unat (m_startOffset rb) + k) mod length (m_buffer rb) + 14"

section \<open>One step\<close>

lemma header_parse_take: "header_parse (take n bs) = header_parse bs" if "14 \<le> n"
  using that by (simp add: header_parse_def drop_take min_def)

lemma rb_content_split:
  assumes "wf_rb rb" "14 \<le> length (rb_content rb)"
  shows "header_split rb 0 \<longleftrightarrow>
    \<not> unat (m_startOffset rb) < unat (m_endOffset rb) \<and> length (m_buffer rb) < unat (m_startOffset rb) + 14"
  using wf_rbD [OF assms(1)] assms(2) by (auto simp: header_split_def length_rb_content split: if_splits)

lemma decodePacketHeader_spec:
  assumes wf: "wf_rb rb"
  shows "decodePacketHeader rb =
    (if length (rb_content rb) < 14 then Inr None
     else if header_split rb 0 then Inl Dangling
     else if isMagicMatch (header_parse (rb_content rb)) then Inr (Some (header_parse (rb_content rb)))
     else Inl AssertFailed)"
proof (cases "length (rb_content rb) < 14")
  case True
  then show ?thesis
    using rb_getBufferForRead_cases(1) [OF wf, of headerLength] by (simp add: decodePacketHeader_def)
next
  case False
  show ?thesis
  proof (cases "header_split rb 0")
    case True
    have "rb_getBufferForRead rb headerLength = (-2, None)"
      using rb_getBufferForRead_cases(3) [OF wf, of headerLength] False True rb_content_split [OF wf] by simp
    moreover have "rb_readData rb headerLength 0 (replicate (unat headerLength) 0) =
        Inr (0, take 14 (rb_content rb))"
      using rb.peek_ok [OF wf, of 0 headerLength "replicate 14 0"] False by simp
    ultimately show ?thesis using False True by (simp add: decodePacketHeader_def)
  next
    case nosplit: False
    have b: "rb_getBufferForRead rb headerLength = (0, Some (m_startOffset rb))"
      and r: "mem_read (m_buffer rb) (unat (m_startOffset rb)) 14 = Inr (take 14 (rb_content rb))"
      using rb_getBufferForRead_cases(2) [OF wf, of headerLength] False nosplit rb_content_split [OF wf]
      by auto
    then have len: "unat (m_startOffset rb) + 14 \<le> length (m_buffer rb)"
      and t: "take 14 (drop (unat (m_startOffset rb)) (m_buffer rb)) = take 14 (rb_content rb)"
      by (simp_all add: mem_read_def split: if_splits)
    have "header_parse (drop (unat (m_startOffset rb)) (m_buffer rb)) = header_parse (rb_content rb)"
      using t header_parse_take [of 14] by (metis order_refl)
    then show ?thesis
      using b len False nosplit by (simp add: decodePacketHeader_def header_decode_spec)
  qed
qed

lemma plus14_unat: "unat (headerLength + (ucast (n :: u32) :: u64)) = 14 + unat n"
proof -
  have "unat n < 2 ^ 32" using unsigned_less [of n] by simp
  then show ?thesis by (simp add: unat_plus64)
qed

lemma decodePacketPayload_spec:
  assumes wf: "wf_rb rb" and len: "14 \<le> length (rb_content rb)" and ns: "\<not> header_split rb 0"
  shows "decodePacketPayload pb h rb =
    (if length (rb_content rb) < 14 + unat (m_payloadLength h) then Inr None
     else Inr (createPayload pb (header_type h)
            (take (unat (m_payloadLength h)) (drop 14 (rb_content rb)))))"
proof -
  let ?n = "ucast (m_payloadLength h) :: u64" and ?S = "unat (m_startOffset rb)"
  have un: "unat ?n = unat (m_payloadLength h)" by (rule unat_ucast_u32)
  have dl: "unat (rb_dataLength rb - headerLength) = length (rb_content rb) - 14"
    using len by (simp add: unat_minus64 rb_dataLength_unat [OF wf])
  show ?thesis
  proof (cases "length (rb_content rb) < 14 + unat (m_payloadLength h)")
    case True
    then show ?thesis
      using dl un len by (simp add: decodePacketPayload_def Let_def word_less_nat_alt less_diff_conv2)
  next
    case False
    have nogap: "\<not> rb_tail_gap rb"
      using ns len rb_content_split [OF wf len] wf_rbD [OF wf]
      by (auto simp: rb_tail_gap_def word_less_nat_alt)
    from len have "rb_content rb \<noteq> []" by auto
    from rb_getContinuousData_prefix [OF wf this nogap] obtain m where
      m: "rb_getContinuousData rb = (0, Some (m_startOffset rb, m))" "unat m \<le> length (rb_content rb)"
      "mem_read (m_buffer rb) ?S (unat m) = Inr (take (unat m) (rb_content rb))" by metis
    have lt: "\<not> rb_dataLength rb - headerLength < ?n"
      using False dl un by (simp add: word_less_nat_alt)
    show ?thesis
    proof (cases "m < headerLength + ?n")
      case True
      have "rb_readData rb ?n headerLength (replicate (unat ?n) 0) =
          Inr (0, take (unat ?n) (drop 14 (rb_content rb)))"
        using rb.peek_ok [OF wf, of headerLength ?n "replicate (unat ?n) 0"] False un by simp
      then show ?thesis
        using lt m(1) True False un by (simp add: decodePacketPayload_def Let_def)
    next
      case False2: False
      then have le: "14 + unat ?n \<le> unat m"
        using plus14_unat [of "m_payloadLength h"] un by (simp add: word_less_nat_alt)
      from m(3) have bound: "?S + unat m \<le> length (m_buffer rb)"
        and t: "take (unat m) (drop ?S (m_buffer rb)) = take (unat m) (rb_content rb)"
        by (simp_all add: mem_read_def split: if_splits)
      have off: "unat (m_startOffset rb + headerLength) = ?S + 14"
        using wf_rbD(3,4) [OF wf] by (simp add: unat_plus64)
      have "take (unat ?n) (drop 14 (take (unat m) (drop ?S (m_buffer rb)))) =
          take (unat ?n) (drop 14 (take (unat m) (rb_content rb)))" by (simp only: t)
      then have "take (unat ?n) (drop (?S + 14) (m_buffer rb)) = take (unat ?n) (drop 14 (rb_content rb))"
      proof -
        assume eq: "take (unat ?n) (drop 14 (take (unat m) (drop ?S (m_buffer rb)))) =
          take (unat ?n) (drop 14 (take (unat m) (rb_content rb)))"
        have "unat (m_payloadLength h) \<le> unat m - 14" using le by simp
        with eq show ?thesis by (simp add: drop_take min_def add.commute)
      qed
      then have "mem_read (m_buffer rb) (unat (m_startOffset rb + headerLength)) (unat ?n) =
          Inr (take (unat ?n) (drop 14 (rb_content rb)))"
        using bound le off by (simp add: mem_read_def)
      then show ?thesis
        using lt m(1) False2 False un by (simp add: decodePacketPayload_def Let_def)
    qed
  qed
qed

lemma rb_decrease_start:
  assumes "wf_rb rb" "unat n < length (rb_content rb)"
  shows "unat (m_startOffset (snd (rb_decreaseUsedSpace rb n))) =
      (unat (m_startOffset rb) + unat n) mod length (m_buffer rb)"
    and "m_buffer (snd (rb_decreaseUsedSpace rb n)) = m_buffer rb"
proof -
  let ?S = "unat (m_startOffset rb)" and ?E = "unat (m_endOffset rb)" and ?N = "length (m_buffer rb)"
  note wfd = wf_rbD [OF assms(1)]
  have dl: "unat (rb_dataLength rb) = length (rb_content rb)" by (rule rb_dataLength_unat [OF assms(1)])
  have u: "unat ((m_startOffset rb + n) mod m_size rb) = (?S + unat n) mod ?N"
    using wfd assms(2) by (simp add: rb_unat)
  have "(?S + unat n) mod ?N \<noteq> ?E"
    using drop_ring_content(2) [OF wfd(4,5)] assms(2) by (simp add: rb_content_def)
  then have ne: "(m_startOffset rb + n) mod m_size rb \<noteq> m_endOffset rb" using u by auto
  have "\<not> rb_dataLength rb < n" "rb_dataLength rb \<noteq> n"
    using dl assms(2) by (auto simp: word_less_nat_alt)
  then show "unat (m_startOffset (snd (rb_decreaseUsedSpace rb n))) = (?S + unat n) mod ?N"
    and "m_buffer (snd (rb_decreaseUsedSpace rb n)) = m_buffer rb"
    using ne u by (simp_all add: rb_decreaseUsedSpace_def Let_def)
qed

lemma decode_one_spec:
  assumes wf: "wf_rb rb"
  shows "decode_one pb rb =
    (if length (rb_content rb) < 14 then Inr None
     else if header_split rb 0 then Inl Dangling
     else if bad_magic (rb_content rb) then Inl AssertFailed
     else (case next_packet pb (rb_content rb) of
             None \<Rightarrow> Inr None
           | Some (p, n) \<Rightarrow> Inr (Some (p, snd (rb_decreaseUsedSpace rb (of_nat n))))))"
proof (cases "length (rb_content rb) < 14 \<or> header_split rb 0 \<or> bad_magic (rb_content rb)")
  case True
  then show ?thesis
    by (auto simp: decode_one_def decodePacketHeader_spec [OF wf] bad_magic_def)
next
  case False
  let ?h = "header_parse (rb_content rb)"
  have size: "(of_nat (14 + unat (m_payloadLength ?h)) :: u64) = headerLength + ucast (m_payloadLength ?h)"
    by (simp add: headerLength_eq unsigned_ucast_eq)
  have z: "unat (m_payloadLength ?h) = 0 \<longleftrightarrow> m_payloadLength ?h = 0" by (rule unat_eq_0)
  show ?thesis
    using False size z
    by (auto simp: decode_one_def decodePacketHeader_spec [OF wf] decodePacketPayload_spec [OF wf]
        next_packet_def bad_magic_def Let_def headerLength_eq split: option.splits)
qed

section \<open>The loop\<close>

lemma header_split_decrease:
  assumes wf: "wf_rb rb" and n: "n < length (rb_content rb)"
  shows "header_split (snd (rb_decreaseUsedSpace rb (of_nat n))) k \<longleftrightarrow> header_split rb (n + k)"
proof -
  have "n < 2 ^ 64" using n wf_rbD(3,6) [OF wf] by simp
  then have u: "unat (of_nat n :: u64) = n" by (simp add: unat_of_nat take_bit_nat_eq_self)
  then show ?thesis
    using rb_decrease_start [OF wf, of "of_nat n"] n by (simp add: header_split_def mod_add_left_eq add.assoc)
qed

lemma pop_packet:
  assumes wf: "wf_rb rb" and np: "next_packet pb (rb_content rb) = Some (p, n)"
  defines "rb' \<equiv> snd (rb_decreaseUsedSpace rb (of_nat n))"
  shows "wf_rb rb'" "rb_content rb' = drop n (rb_content rb)" "rb_capacity rb' = rb_capacity rb"
proof -
  have le: "n \<le> length (rb_content rb)" using next_packet_size [OF np] by simp
  then have "n < 2 ^ 64" using wf_rbD(3,6) [OF wf] by simp
  then have u: "unat (of_nat n :: u64) = n" by (simp add: unat_of_nat take_bit_nat_eq_self)
  with rb.pop_ok [OF wf, of "of_nat n"] le show "wf_rb rb'" "rb_content rb' = drop n (rb_content rb)"
    "rb_capacity rb' = rb_capacity rb"
    unfolding rb'_def by auto
qed

definition split_in_run :: "protobuf \<Rightarrow> ringbuffer \<Rightarrow> bool" where
  "split_in_run pb rb \<longleftrightarrow> (\<exists>k \<in> set (header_positions pb (rb_content rb)). header_split rb k)"

lemma header_positions_length: "k \<in> set (header_positions pb bs) \<Longrightarrow> 14 \<le> length bs"
  by (simp add: header_positions.simps [of pb bs] split: if_splits)

lemma split_in_run_step:
  assumes wf: "wf_rb rb" and np: "next_packet pb (rb_content rb) = Some (p, n)"
  shows "split_in_run pb rb \<longleftrightarrow>
    header_split rb 0 \<or> split_in_run pb (snd (rb_decreaseUsedSpace rb (of_nat n)))"
proof -
  let ?rb' = "snd (rb_decreaseUsedSpace rb (of_nat n))"
  note size = next_packet_size [OF np] and pop = pop_packet [OF wf np]
  have split: "header_split ?rb' k \<longleftrightarrow> header_split rb (n + k)"
    if "k \<in> set (header_positions pb (drop n (rb_content rb)))" for k
  proof -
    have "n < length (rb_content rb)" using header_positions_length [OF that] by simp
    then show ?thesis by (rule header_split_decrease [OF wf])
  qed
  have pos: "header_positions pb (rb_content rb) =
      0 # map (\<lambda>k. n + k) (header_positions pb (drop n (rb_content rb)))"
    using size np by (subst header_positions.simps) simp
  show ?thesis using split by (auto simp: split_in_run_def pos pop(2))
qed

lemma split_in_run_stop:
  "next_packet pb (rb_content rb) = None \<Longrightarrow>
   split_in_run pb rb \<longleftrightarrow> 14 \<le> length (rb_content rb) \<and> header_split rb 0"
  by (simp add: split_in_run_def header_positions.simps [of pb "rb_content rb"])

lemma next_packet_bad: "next_packet pb bs = Some x \<Longrightarrow> 14 \<le> length bs \<and> \<not> bad_magic bs"
  by (auto simp: next_packet_def bad_magic_def Let_def split: if_splits)

text \<open>The outcome of the loop, with any fuel above the number of buffered bytes.\<close>

lemma decode_loop_spec:
  "wf_rb rb \<Longrightarrow> length (rb_content rb) < fuel \<Longrightarrow>
   (split_in_run pb rb \<and> decode_loop pb fuel rb = Some (Inl Dangling)) \<or>
   (\<not> split_in_run pb rb \<and> bad_magic (snd (parse_packets pb (rb_content rb))) \<and>
      decode_loop pb fuel rb = Some (Inl AssertFailed)) \<or>
   (\<not> split_in_run pb rb \<and> \<not> bad_magic (snd (parse_packets pb (rb_content rb))) \<and>
      (\<exists>rb'. decode_loop pb fuel rb = Some (Inr (fst (parse_packets pb (rb_content rb)), rb')) \<and>
        wf_rb rb' \<and> rb_content rb' = snd (parse_packets pb (rb_content rb)) \<and>
        rb_capacity rb' = rb_capacity rb))"
proof (induction fuel arbitrary: rb)
  case (Suc fuel)
  note one = decode_one_spec [OF Suc.prems(1), of pb]
  show ?case
  proof (cases "next_packet pb (rb_content rb)")
    case None
    have parse: "parse_packets pb (rb_content rb) = ([], rb_content rb)"
      by (subst parse_packets.simps) (simp add: None)
    show ?thesis
      using one None Suc.prems(1) split_in_run_stop [OF None] by (auto simp: parse bad_magic_def)
  next
    case (Some pn)
    obtain p n where pn: "pn = (p, n)" by (cases pn)
    let ?rb' = "snd (rb_decreaseUsedSpace rb (of_nat n))"
    note np = Some [unfolded pn]
    note pop = pop_packet [OF Suc.prems(1) np] and size = next_packet_size [OF np]
    have parse: "parse_packets pb (rb_content rb) =
        (p # fst (parse_packets pb (rb_content ?rb')), snd (parse_packets pb (rb_content ?rb')))"
      by (subst parse_packets.simps) (simp add: np pop(2) split_beta)
    have "length (rb_content ?rb') < fuel"
      using size Suc.prems(2) unfolding pop(2) length_drop by linarith
    note IH = Suc.IH [OF pop(1) this]
    note split = split_in_run_step [OF Suc.prems(1) np]
    show ?thesis
    proof (cases "header_split rb 0")
      case True
      then show ?thesis using one split next_packet_bad [OF np] by simp
    next
      case False
      have "decode_one pb rb = Inr (Some (p, ?rb'))"
        using one False next_packet_bad [OF np] np by simp
      then have loop: "decode_loop pb (Suc fuel) rb =
          map_option (\<lambda>r. and_then r (\<lambda>(ps, rb''). Inr (p # ps, rb''))) (decode_loop pb fuel ?rb')"
        by simp
      show ?thesis using IH split False pop(3) unfolding loop parse by auto
    qed
  qed
qed simp

section \<open>Streams\<close>

lemma next_packet_append:
  assumes "next_packet pb bs = Some (p, n)"
  shows "next_packet pb (bs @ cs) = Some (p, n)"
proof -
  have "14 \<le> length bs" using next_packet_size [OF assms] by simp
  then have "header_parse (bs @ cs) = header_parse bs"
    using header_parse_take [of 14 "bs @ cs"] header_parse_take [of 14 bs] by simp
  with assms show ?thesis by (auto simp: next_packet_def Let_def split: if_splits option.splits)
qed

text \<open>Cutting packets off a stream piece by piece gives the same packets.\<close>

lemma parse_packets_append:
  "parse_packets pb (bs @ cs) =
     (let (ps, rest) = parse_packets pb bs; (qs, rest') = parse_packets pb (rest @ cs)
      in (ps @ qs, rest'))"
proof (induction pb bs rule: parse_packets.induct)
  case (1 pb bs)
  show ?case
  proof (cases "next_packet pb bs")
    case None
    then show ?thesis by (simp add: parse_packets.simps [of pb bs] split_beta)
  next
    case (Some pn)
    obtain p n where pn: "pn = (p, n)" by (cases pn)
    note np = Some [unfolded pn]
    have le: "n \<le> length bs" using next_packet_size [OF np] by simp
    show ?thesis
      using 1 [OF np refl]
      by (simp add: parse_packets.simps [of pb "bs @ cs"] parse_packets.simps [of pb bs]
          next_packet_append [OF np] np le split_beta Let_def)
  qed
qed

lemma parse_packets_rest: "parse_packets pb (snd (parse_packets pb bs)) = ([], snd (parse_packets pb bs))"
proof (induction pb bs rule: parse_packets.induct)
  case (1 pb bs)
  show ?case
  proof (cases "next_packet pb bs")
    case None
    then show ?thesis by (simp add: parse_packets.simps [of pb bs])
  next
    case (Some pn)
    obtain p n where pn: "pn = (p, n)" by (cases pn)
    show ?thesis
      using 1 [OF Some [unfolded pn] refl] by (simp add: parse_packets.simps [of pb bs] Some pn split_beta)
  qed
qed

text \<open>The packet a receiver makes of an encoded message.\<close>

definition wire :: "packet_type \<Rightarrow> module_id \<Rightarrow> u8 list \<Rightarrow> u8 list" where
  "wire t m body = header_bytes (packet_head t m (length body)) @ body"

lemma next_packet_wire:
  assumes "named_type t" "module_normal m" "length body < 2 ^ 32"
  shows "next_packet pb (wire t m body @ rest) =
    (if body = [] then Some ((packet_head t m 0, None), 14)
     else (case createPayload pb t body of
             None \<Rightarrow> None
           | Some p \<Rightarrow> Some ((packet_head t m (length body), Some p), 14 + length body)))"
proof -
  have n: "unat (of_nat (length body) :: u32) = length body"
    using assms(3) by (simp add: unat_of_nat take_bit_nat_eq_self)
  have parse: "header_parse (header_bytes (packet_head t m k) @ bs) = packet_head t m k" for k bs
    using assms(2) by simp
  show ?thesis
    using assms(1) by (cases "body = []") (simp_all add: wire_def next_packet_def Let_def parse n split: option.split)
qed

text \<open>Chunks of one session: what is delivered and what is left depends only on the bytes.\<close>

lemma addSessionData_ok:
  assumes wf: "wf_rb (ps_readBuffer s)" and w: "\<not> ps_isWaitingDisconnect s"
    and len: "length data < 2 ^ 64" and fuel: "rb_capacity (ps_readBuffer s) < fuel"
    and res: "addSessionData pb fuel True (Some s) data = Some (Inr (0, ps, s'))"
  obtains rb where "s' = Some (s\<lparr>ps_readBuffer := rb\<rparr>)" "wf_rb rb"
    "parse_packets pb (rb_content (ps_readBuffer s) @ data) = (ps, rb_content rb)"
    "rb_capacity rb = rb_capacity (ps_readBuffer s)"
  using wf len
proof (cases rule: rb.push_cases)
  case (accepted rb1)
  have cap: "length (rb_content rb1) < fuel"
    using rb.content_fits [OF accepted(2)] accepted(4) fuel by simp
  from res accepted w obtain rb' where d: "decode_loop pb fuel rb1 = Some (Inr (ps, rb'))"
    and s': "s' = Some (s\<lparr>ps_readBuffer := rb'\<rparr>)"
    by (auto simp: addSessionData_def and_then_Inr split: option.splits)
  from decode_loop_spec [OF accepted(2) cap, of pb] d
  have "wf_rb rb'" "fst (parse_packets pb (rb_content rb1)) = ps"
    "rb_content rb' = snd (parse_packets pb (rb_content rb1))" "rb_capacity rb' = rb_capacity rb1"
    by auto
  with accepted s' show ?thesis by (intro that [of rb']) (simp_all add: prod_eq_iff)
next
  case refused
  with res w show ?thesis by (simp add: addSessionData_def)
qed

lemma feed_chunks_ok:
  "wf_rb (ps_readBuffer s) \<Longrightarrow> \<not> ps_isWaitingDisconnect s \<Longrightarrow>
   rb_capacity (ps_readBuffer s) < fuel \<Longrightarrow> \<forall>c \<in> set chunks. length c < 2 ^ 64 \<Longrightarrow>
   feed_chunks pb fuel (Some s) chunks = Some (Inr (rets, ps, s')) \<Longrightarrow> set rets \<subseteq> {0} \<Longrightarrow>
   parse_packets pb (rb_content (ps_readBuffer s)) = ([], rb_content (ps_readBuffer s)) \<Longrightarrow>
   \<exists>rb. s' = Some (s\<lparr>ps_readBuffer := rb\<rparr>) \<and> wf_rb rb \<and>
     parse_packets pb (rb_content (ps_readBuffer s) @ concat chunks) = (ps, rb_content rb)"
proof (induction chunks arbitrary: s rets ps s')
  case Nil
  then show ?case by (auto intro!: exI [of _ "ps_readBuffer s"])
next
  case (Cons c cs)
  from Cons.prems(5,6) obtain ps1 s1 rets2 ps2 where
    one: "addSessionData pb fuel True (Some s) c = Some (Inr (0, ps1, s1))" and
    more: "feed_chunks pb fuel s1 cs = Some (Inr (rets2, ps2, s'))" and
    res: "rets = 0 # rets2" "ps = ps1 @ ps2"
    by (fastforce simp: and_then_Inr split: option.splits sum.splits)
  from Cons.prems(4) have c: "length c < 2 ^ 64" by simp
  obtain rb where rb: "s1 = Some (s\<lparr>ps_readBuffer := rb\<rparr>)" "wf_rb rb"
    "parse_packets pb (rb_content (ps_readBuffer s) @ c) = (ps1, rb_content rb)"
    "rb_capacity rb = rb_capacity (ps_readBuffer s)"
    using addSessionData_ok [OF Cons.prems(1,2) c Cons.prems(3) one] by blast
  have rest: "parse_packets pb (rb_content rb) = ([], rb_content rb)"
    using parse_packets_rest [of pb "rb_content (ps_readBuffer s) @ c"] rb(3) by simp
  have "\<exists>rb'. s' = Some (s\<lparr>ps_readBuffer := rb, ps_readBuffer := rb'\<rparr>) \<and> wf_rb rb' \<and>
      parse_packets pb (rb_content rb @ concat cs) = (ps2, rb_content rb')"
    using Cons.IH [of "s\<lparr>ps_readBuffer := rb\<rparr>" rets2 ps2 s'] Cons.prems(2-4,6) rb more res rest by auto
  then obtain rb' where rb': "s' = Some (s\<lparr>ps_readBuffer := rb'\<rparr>)" "wf_rb rb'"
    "parse_packets pb (rb_content rb @ concat cs) = (ps2, rb_content rb')" by auto
  then show ?case
    using parse_packets_append [of pb "rb_content (ps_readBuffer s) @ c" "concat cs"] rb(3) res
    by auto
qed

section \<open>Properties\<close>

text \<open>C6: the decoding loop is exact.  On a well-formed buffer, with more fuel than buffered bytes, the
  loop returns.  If some header it looks at lies across the end of the array it reads freed
  memory; otherwise if it comes to a header with the wrong magic number the assertion fails;
  otherwise it delivers exactly the packets of the buffered byte string, in order, and leaves
  exactly the bytes of the incomplete rest.\<close>

theorem decode_loop_exact:
  assumes "wf_rb rb" and "length (rb_content rb) < fuel"
  shows "if split_in_run pb rb then decode_loop pb fuel rb = Some (Inl Dangling)
    else if bad_magic (snd (parse_packets pb (rb_content rb)))
    then decode_loop pb fuel rb = Some (Inl AssertFailed)
    else \<exists>rb'. decode_loop pb fuel rb = Some (Inr (fst (parse_packets pb (rb_content rb)), rb')) \<and>
      wf_rb rb' \<and> rb_content rb' = snd (parse_packets pb (rb_content rb)) \<and>
      rb_capacity rb' = rb_capacity rb"
  using decode_loop_spec [OF assms, of pb] by auto

definition ex_rb :: "u8 list \<Rightarrow> ringbuffer" where
  "ex_rb bs = \<lparr>m_size = 40, m_buffer = bs @ replicate (40 - length bs) 0, m_startOffset = 0,
     m_endOffset = of_nat (length bs)\<rparr>"

definition ex_heartbeat :: "u8 list" where
  "ex_heartbeat = [0x2c, 0xc9, 0x8f, 0x5d, 0, 3, 0, 0, 0, 2, 0, 0, 0, 0]"

theorem decode_loop_exact_witness:
  "\<exists>rb'. decode_loop ex_pb 20 (ex_rb (ex_heartbeat @ [0x2c, 0xc9])) =
     Some (Inr ([(packet_head PT_HeartBeat M_unknown 0, None)], rb')) \<and> rb_content rb' = [0x2c, 0xc9]"
proof -
  let ?rb = "ex_rb (ex_heartbeat @ [0x2c, 0xc9])"
  have wf: "wf_rb ?rb" and c: "rb_content ?rb = ex_heartbeat @ [0x2c, 0xc9]"
    and s: "m_startOffset ?rb = 0" "length (m_buffer ?rb) = 40"
    by (simp_all add: ex_rb_def wf_rb_def rb_content_def ring_content_def ex_heartbeat_def)
  have h: "header_parse (ex_heartbeat @ [0x2c, 0xc9]) = packet_head PT_HeartBeat M_unknown 0" by code_simp
  have np: "next_packet ex_pb (rb_content ?rb) = Some ((packet_head PT_HeartBeat M_unknown 0, None), 14)"
    by (simp add: c next_packet_def Let_def h) (simp add: ex_heartbeat_def)
  have np2: "next_packet ex_pb [0x2c, 0xc9] = None" by (simp add: next_packet_def)
  have d: "drop 14 (rb_content ?rb) = [0x2c, 0xc9]"
    unfolding c by (simp add: ex_heartbeat_def)
  have parse: "parse_packets ex_pb (rb_content ?rb) =
      ([(packet_head PT_HeartBeat M_unknown 0, None)], [0x2c, 0xc9])"
    by (subst parse_packets.simps) (simp add: np d parse_packets.simps [of ex_pb "[0x2c, 0xc9]"] np2)
  have len: "length (rb_content ?rb) = 16" unfolding c by (simp add: ex_heartbeat_def)
  have pos: "header_positions ex_pb (rb_content ?rb) = [0]"
    using len by (subst header_positions.simps) (simp add: np d header_positions.simps [of ex_pb "[0x2c, 0xc9]"])
  have "\<not> split_in_run ex_pb ?rb" by (simp add: split_in_run_def pos header_split_def s)
  moreover have "length (rb_content ?rb) < 20" using len by simp
  ultimately show ?thesis
    using decode_loop_exact [OF wf, of 20 ex_pb] parse by (auto simp: bad_magic_def)
qed

lemma decode_loop_more_fuel:
  "decode_loop pb n rb = Some r \<Longrightarrow> decode_loop pb (n + k) rb = Some r"
proof (induction pb n rb arbitrary: r rule: decode_loop.induct)
  case (2 pb n rb)
  then show ?case by (auto split: sum.splits option.splits prod.splits)
qed simp




definition ex_stream_session :: p2p_session where
  "ex_stream_session = P2PSession_new (0, 0) 5 1 (rb_new 40) (rb_new 40)"


lemma parse_wires:
  assumes "\<forall>(t, m, body) \<in> set msgs. named_type t \<and> module_normal m \<and> length body < 2 ^ 32 \<and>
      (body \<noteq> [] \<longrightarrow> createPayload pb t body \<noteq> None)"
  shows "parse_packets pb (concat (map (\<lambda>(t, m, body). wire t m body) msgs)) =
    (map (\<lambda>(t, m, body). (packet_head t m (length body),
       if body = [] then None else createPayload pb t body)) msgs, [])"
  using assms
proof (induction msgs)
  case Nil
  then show ?case by (simp add: parse_packets.simps [of pb "[]"] next_packet_def)
next
  case (Cons x msgs)
  obtain t m body where x: "x = (t, m, body)" by (cases x)
  let ?rest = "concat (map (\<lambda>(t, m, body). wire t m body) msgs)"
  have ok: "named_type t" "module_normal m" "length body < 2 ^ 32"
    and p: "body \<noteq> [] \<Longrightarrow> createPayload pb t body \<noteq> None"
    using Cons.prems by (simp_all add: x)
  have np: "next_packet pb (wire t m body @ ?rest) = Some ((packet_head t m (length body),
      if body = [] then None else createPayload pb t body), 14 + length body)"
    using next_packet_wire [OF ok, of pb ?rest] p by (cases "body = []") auto
  have d: "drop (14 + length body) (wire t m body @ ?rest) = ?rest" by (simp add: wire_def)
  have IH: "parse_packets pb ?rest = (map (\<lambda>(t, m, body). (packet_head t m (length body),
      if body = [] then None else createPayload pb t body)) msgs, [])"
    using Cons by simp
  show ?case
    using parse_packets.simps [of pb "wire t m body @ ?rest"] IH unfolding np
    by (simp add: x d del: drop_append)
qed

text \<open>The messages the encoders produce, and what the receiver's handler is called with.\<close>

datatype message = Msg_Payload payload | Msg_Empty packet_type | Msg_Module module_id "u8 list"

fun encode_message :: "protobuf \<Rightarrow> message \<Rightarrow> u8 list run" where
  "encode_message pb (Msg_Payload p) = encode_packet pb p"
| "encode_message pb (Msg_Empty t) = encode_empty t"
| "encode_message pb (Msg_Module m xs) = encode_module m xs"

fun encode_messages :: "protobuf \<Rightarrow> message list \<Rightarrow> u8 list run" where
  "encode_messages pb [] = Inr []"
| "encode_messages pb (m # ms) =
     and_then (encode_message pb m) (\<lambda>b. and_then (encode_messages pb ms) (\<lambda>bs. Inr (b @ bs)))"

fun delivered :: "protobuf \<Rightarrow> message \<Rightarrow> packet" where
  "delivered pb (Msg_Payload p) =
     (packet_head (payload_type p) M_unknown (length (payload_bytes pb p)), Some p)"
| "delivered pb (Msg_Empty t) = (packet_head t M_unknown 0, None)"
| "delivered pb (Msg_Module m xs) = (packet_head PT_ModuleMessage m (length xs), Some (Pl_ModuleMessage xs))"

text \<open>
  The protobuf payloads the factory knows, with the parser undoing the serializer on this
  message; packets whose length fits the header.
\<close>

fun message_ok :: "protobuf \<Rightarrow> message \<Rightarrow> bool" where
  "message_ok pb (Msg_Payload p) \<longleftrightarrow>
     (case p of
        Pl_ClientInfo m \<Rightarrow> pb_parse (pb_clientInfo pb) (pb_bytes (pb_clientInfo pb) m) = (True, m)
      | Pl_ClientInfoReply m \<Rightarrow>
          pb_parse (pb_clientInfoReply pb) (pb_bytes (pb_clientInfoReply pb) m) = (True, m)
      | Pl_HeartBeat m \<Rightarrow> pb_parse (pb_heartBeat pb) (pb_bytes (pb_heartBeat pb) m) = (True, m)
      | Pl_HeartBeatReply m \<Rightarrow>
          pb_parse (pb_heartBeatReply pb) (pb_bytes (pb_heartBeatReply pb) m) = (True, m)
      | _ \<Rightarrow> False) \<and>
     payload_bytes pb p \<noteq> [] \<and> length (payload_bytes pb p) < 2 ^ 32"
| "message_ok pb (Msg_Empty t) \<longleftrightarrow> named_type t"
| "message_ok pb (Msg_Module m xs) \<longleftrightarrow> module_normal m \<and> xs \<noteq> [] \<and> length xs < 2 ^ 32"

fun message_wire :: "protobuf \<Rightarrow> message \<Rightarrow> packet_type \<times> module_id \<times> u8 list" where
  "message_wire pb (Msg_Payload p) = (payload_type p, M_unknown, payload_bytes pb p)"
| "message_wire pb (Msg_Empty t) = (t, M_unknown, [])"
| "message_wire pb (Msg_Module m xs) = (PT_ModuleMessage, m, xs)"

lemma encode_message_wire:
  assumes "message_ok pb msg" "message_wire pb msg = (t, m, body)"
  shows "encode_message pb msg = Inr (wire t m body)" "named_type t" "module_normal m"
    "length body < 2 ^ 32" "body \<noteq> [] \<Longrightarrow> createPayload pb t body \<noteq> None"
    "delivered pb msg = (packet_head t m (length body), if body = [] then None else createPayload pb t body)"
proof -
  have "encode_message pb msg = Inr (wire t m body) \<and> named_type t \<and> module_normal m \<and>
    length body < 2 ^ 32 \<and> (body \<noteq> [] \<longrightarrow> createPayload pb t body \<noteq> None) \<and>
    delivered pb msg = (packet_head t m (length body), if body = [] then None else createPayload pb t body)"
  proof (cases msg)
    case (Msg_Payload p)
    with assms(2) have "t = payload_type p" "m = M_unknown" "body = payload_bytes pb p" by simp_all
    with assms(1) Msg_Payload show ?thesis
      by (cases p) (simp_all add: encode_packet_bytes wire_def named_type_def)
  next
    case (Msg_Empty u)
    with assms show ?thesis by (auto simp: encode_empty_bytes wire_def)
  next
    case (Msg_Module u xs)
    with assms show ?thesis by (auto simp: encode_module_bytes wire_def named_type_def)
  qed
  then show "encode_message pb msg = Inr (wire t m body)" "named_type t" "module_normal m"
    "length body < 2 ^ 32" "body \<noteq> [] \<Longrightarrow> createPayload pb t body \<noteq> None"
    "delivered pb msg = (packet_head t m (length body), if body = [] then None else createPayload pb t body)"
    by blast+
qed

lemma encode_messages_wire:
  "list_all (message_ok pb) msgs \<Longrightarrow>
   encode_messages pb msgs = Inr (concat (map (\<lambda>(t, m, body). wire t m body) (map (message_wire pb) msgs)))"
proof (induction msgs)
  case (Cons msg msgs)
  obtain t m body where w: "message_wire pb msg = (t, m, body)" using prod_cases3 by blast
  with Cons encode_message_wire(1) [OF _ w] show ?case by simp
qed simp


definition ex_reply :: "u32 \<Rightarrow> client_info_reply" where
  "ex_reply r = \<lparr>cir_seq = 0, cir_peerHost = [], cir_handshakeUuid = [], cir_nodeId = [], cir_result = r\<rparr>"


text \<open>A packet of the three distance types blocks its session for good.  \<^verbatim>\<open>PayloadFactory\<close> has no
  case for them, the decoder takes the missing payload for missing data, and whatever bytes follow,
  neither this packet nor any later one is ever delivered.\<close>

theorem distance_packet_blocks:
  assumes "t \<in> {PT_DistanceDetect, PT_DistanceDetectReply, PT_DistanceVector}"
    and "body \<noteq> []" "length body < 2 ^ 32"
  shows "parse_packets pb (wire t M_unknown body @ later) = ([], wire t M_unknown body @ later)"
proof -
  have "named_type t" "createPayload pb t body = None" using assms(1) by (auto simp: named_type_def)
  then have "next_packet pb (wire t M_unknown body @ later) = None"
    using next_packet_wire [of t M_unknown body pb later] assms(2,3) by simp
  then show ?thesis by (simp add: parse_packets.simps [of pb "wire t M_unknown body @ later"])
qed

theorem distance_packet_blocks_witness:
  "parse_packets ex_pb (wire PT_DistanceDetect M_unknown [8, 1] @ ex_heartbeat) =
     ([], wire PT_DistanceDetect M_unknown [8, 1] @ ex_heartbeat)"
  by (rule distance_packet_blocks) simp_all

text \<open>A header that straddles the end of the ring is read from freed memory.  In a 40-byte buffer,
  after two heartbeats have come and gone the third one starts at offset 28: its fourteen bytes are
  all there, and the decoder reads its copy of them after the vector holding it is destroyed.\<close>

theorem split_header_dangling:
  "feed_chunks ex_pb 50 (Some ex_stream_session)
     [ex_heartbeat @ ex_heartbeat @ take 2 ex_heartbeat, drop 2 ex_heartbeat] = Some (Inl Dangling) \<and>
   parse_packets ex_pb (ex_heartbeat @ ex_heartbeat @ ex_heartbeat) =
     (replicate 3 (packet_head PT_HeartBeat M_unknown 0, None), [])"
  by (intro conjI) code_simp+

end
