(* ===== verification/Reactor.thy ===== *)
theory Reactor
  imports Session "HOL-Library.Sublist"
begin

text \<open>
  \<^verbatim>\<open>SlaveReactor\<close>: sending and receiving on the sockets of its sessions.  A \<^verbatim>\<open>send\<close> or \<^verbatim>\<open>recv\<close>
  system call is an element of a list of outcomes, consumed call by call; the bytes the kernel
  took are a log.  The sessions themselves live in the heap of \<open>Session\<close>; the reactor keeps the
  sessions it owns, its queue of send tasks and the epoll interest of each session.
\<close>

section \<open>Sending\<close>

text \<open>The outcomes of \<^verbatim>\<open>send\<close>: a number of bytes taken, and \<open>-1\<close> with the three kinds of \<^verbatim>\<open>errno\<close>
  the code tells apart.\<close>

datatype send_result = Taken nat | WouldBlock | PeerGone | SendFailed

text \<open>What a sending step leaves: the session, the bytes the kernel took, whether it asked for
  \<^verbatim>\<open>EPOLLOUT\<close> (\<open>None\<close> when it did not call \<^verbatim>\<open>epoll_ctl\<close>), and whether the disconnect handler ran.\<close>

record send_state =
  ss_session :: p2p_session
  ss_wire :: "u8 list"
  ss_epollout :: "bool option"
  ss_disconnect :: bool

text \<open>
  The loop of \<^verbatim>\<open>handleSend\<close> for an empty write buffer.  \<open>data\<close> is what is still to be sent; \<open>None\<close>
  when the list of outcomes ends first.
\<close>

fun send_direct :: "u8 list \<Rightarrow> send_result list \<Rightarrow> send_state \<Rightarrow> send_state run option" where
  "send_direct [] os st = Some (Inr st)"
| "send_direct (x # xs) [] st = None"
| "send_direct (x # xs) (Taken n # os) st =
     send_direct (drop n (x # xs)) os (st\<lparr>ss_wire := ss_wire st @ take n (x # xs)\<rparr>)"
| "send_direct (x # xs) (WouldBlock # os) st =
     Some (and_then (rb_writeData (ps_writeBuffer (ss_session st)) (x # xs) (of_nat (length (x # xs))))
       (\<lambda>(ret, wb).
         if ret = -1 then Inl AssertFailed
         else Inr (st\<lparr>ss_session := (ss_session st)\<lparr>ps_writeBuffer :=
                snd (rb_increaseUsedSpace wb (of_nat (length (x # xs))))\<rparr>,
              ss_epollout := Some True\<rparr>)))"
| "send_direct (x # xs) (PeerGone # os) st = Some (Inr (st\<lparr>ss_disconnect := True\<rparr>))"
| "send_direct (x # xs) (SendFailed # os) st = Some (Inr st)"

definition handleSend :: "u8 list \<Rightarrow> send_result list \<Rightarrow> send_state \<Rightarrow> send_state run option" where
  "handleSend data os st =
     (let s = ss_session st; wb = ps_writeBuffer s
      in if ps_isWaitingDisconnect s then Some (Inr st)
         else if rb_dataLength wb \<noteq> 0 then
           (if of_nat (length data) > rb_space wb then Some (Inr st)
            else Some (and_then (rb_writeData wb data (of_nat (length data))) (\<lambda>(ret, wb1).
              if ret = -1 then Inl AssertFailed
              else Inr (st\<lparr>ss_session := s\<lparr>ps_writeBuffer :=
                     snd (rb_increaseUsedSpace wb1 (of_nat (length data)))\<rparr>\<rparr>))))
         else send_direct data os st)"

text \<open>\<^verbatim>\<open>disconnectSession\<close>: mark the session; the handler call is the flag \<open>ss_disconnect\<close>.\<close>

definition disconnectSession :: "p2p_session \<Rightarrow> p2p_session" where
  "disconnectSession s = s\<lparr>ps_isWaitingDisconnect := True\<rparr>"

text \<open>
  The \<^verbatim>\<open>EPOLLOUT\<close> branch: the inner loop sends the window \<open>(off, len)\<close> again and again until
  \<open>sendLen\<close> reaches its length, each time from the start of the window and with its whole length.
\<close>

fun flush_window :: "nat \<Rightarrow> nat \<Rightarrow> nat \<Rightarrow> send_result list \<Rightarrow> send_state \<Rightarrow>
    (send_result list \<times> send_state) run option" where
  "flush_window off len sendLen [] st = (if sendLen < len then None else Some (Inr ([], st)))"
| "flush_window off len sendLen (r # os) st =
     (if \<not> sendLen < len then Some (Inr (r # os, st))
      else (case r of
          Taken n \<Rightarrow>
            (if n = 0 then flush_window off len sendLen os st
             else (case mem_read (m_buffer (ps_writeBuffer (ss_session st))) off len of
                 Inl e \<Rightarrow> Some (Inl e)
               | Inr bytes \<Rightarrow>
                   flush_window off len (sendLen + n) os
                     (st\<lparr>ss_session := (ss_session st)\<lparr>ps_writeBuffer :=
                           snd (rb_decreaseUsedSpace (ps_writeBuffer (ss_session st)) (of_nat n))\<rparr>,
                         ss_wire := ss_wire st @ take n bytes, ss_epollout := Some False\<rparr>)))
        | WouldBlock \<Rightarrow> flush_window off len sendLen os (st\<lparr>ss_epollout := Some True\<rparr>)
        | PeerGone \<Rightarrow> flush_window off len sendLen os
            (st\<lparr>ss_session := disconnectSession (ss_session st), ss_disconnect := True\<rparr>)
        | SendFailed \<Rightarrow> flush_window off len sendLen os st))"

text \<open>The outer loop, with fuel for its rounds; \<open>None\<close> when the fuel or the outcomes run out.\<close>

fun flush_loop :: "nat \<Rightarrow> send_result list \<Rightarrow> send_state \<Rightarrow> send_state run option" where
  "flush_loop 0 os st = None"
| "flush_loop (Suc k) os st =
     (if \<not> rb_dataLength (ps_writeBuffer (ss_session st)) > 0 then Some (Inr st)
      else (case rb_getContinuousData (ps_writeBuffer (ss_session st)) of
          (ret, None) \<Rightarrow> Some (Inl AssertFailed)
        | (ret, Some (off, len)) \<Rightarrow>
            (case flush_window (unat off) (unat len) 0 os st of
               None \<Rightarrow> None
             | Some (Inl e) \<Rightarrow> Some (Inl e)
             | Some (Inr (os', st')) \<Rightarrow> flush_loop k os' st')))"

definition handleEpollOut :: "nat \<Rightarrow> send_result list \<Rightarrow> send_state \<Rightarrow> send_state run option" where
  "handleEpollOut k os st =
     (if ps_isWaitingDisconnect (ss_session st) then Some (Inr st)
      else if rb_dataLength (ps_writeBuffer (ss_session st)) = 0 then Some (Inl AssertFailed)
      else flush_loop k os st)"

section \<open>Receiving and registration\<close>

text \<open>The reactor: the sessions it owns by id, the queued send tasks.\<close>

record reactor =
  sr_sessions :: "(session_id, session_wptr) umap"
  sr_sendTasks :: "(session_id \<times> u8 list) list"

definition SlaveReactor_new :: reactor where
  "SlaveReactor_new = \<lparr>sr_sessions = [], sr_sendTasks = []\<rparr>"

text \<open>\<open>epoll_ok\<close> is whether \<^verbatim>\<open>epoll_ctl\<close> succeeds.\<close>

definition sr_addSession :: "bool \<Rightarrow> session_id \<Rightarrow> reactor \<Rightarrow> int \<times> reactor" where
  "sr_addSession epoll_ok sid r =
     (if \<not> epoll_ok then (-1, r) else (0, r\<lparr>sr_sessions := emplace sid sid (sr_sessions r)\<rparr>))"

definition sr_removeClient :: "bool \<Rightarrow> session_id \<Rightarrow> reactor \<Rightarrow> int \<times> reactor" where
  "sr_removeClient epoll_ok sid r =
     (if \<not> epoll_ok then (-1, r) else (0, r\<lparr>sr_sessions := AList.delete sid (sr_sessions r)\<rparr>))"

definition sr_getP2PSession :: "session_id \<Rightarrow> reactor \<Rightarrow> session_wptr option" where
  "sr_getP2PSession sid r = map_of (sr_sessions r) sid"

text \<open>\<^verbatim>\<open>sendData\<close> by session id: checks, then the task is queued.  \<open>heap\<close> gives the session.\<close>

definition sr_sendData :: "session_heap \<Rightarrow> session_id \<Rightarrow> u8 list \<Rightarrow> reactor \<Rightarrow> int \<times> reactor" where
  "sr_sendData heap sid data r =
     (case sr_getP2PSession sid r of
        None \<Rightarrow> (-1, r)
      | Some w \<Rightarrow>
          (case map_of heap w of
             None \<Rightarrow> (-1, r)
           | Some s \<Rightarrow>
               if length data > unat c_p2pSessionWriteBufferSize then (-1, r)
               else if ps_isWaitingDisconnect s then (-1, r)
               else (0, r\<lparr>sr_sendTasks := sr_sendTasks r @ [(sid, data)]\<rparr>)))"

text \<open>
  One ready session of the event loop up to the \<^verbatim>\<open>EPOLLOUT\<close> part: \<open>err\<close> is \<^verbatim>\<open>EPOLLERR | EPOLLHUP\<close>,
  \<open>recv\<close> the outcome of \<^verbatim>\<open>recv\<close> when \<^verbatim>\<open>EPOLLIN\<close> is set.  \<open>Disconnected\<close> means
  \<^verbatim>\<open>disconnectSession\<close> ran, \<open>Received\<close> carries the bytes for the data handler.
\<close>

datatype recv_result = RecvFailed | RecvClosed | RecvData "u8 list"
datatype ready_result = Offline | Disconnected p2p_session | Received "u8 list" | Nothing

definition handleReady :: "p2p_session option \<Rightarrow> bool \<Rightarrow> recv_result option \<Rightarrow> ready_result" where
  "handleReady session err recv =
     (case session of
        None \<Rightarrow> Offline
      | Some s \<Rightarrow>
          if err then Disconnected (disconnectSession s)
          else (case recv of
              None \<Rightarrow> Nothing
            | Some RecvFailed \<Rightarrow> Disconnected (disconnectSession s)
            | Some RecvClosed \<Rightarrow> Disconnected (disconnectSession s)
            | Some (RecvData bytes) \<Rightarrow> Received bytes))"

section \<open>A round of the event loop\<close>

text \<open>
  The world of a reactor: the live sessions, the bytes the kernel took per session, and the calls of
  the disconnect and data handlers in their order.  A send task holds a \<^verbatim>\<open>shared_ptr\<close>, so its
  session is alive; the branch for a missing one is the fault \<open>Dangling\<close>.
\<close>

datatype reactor_call = DisconnectCall session_id | DataCall session_id "u8 list"

record reactor_world =
  rw_heap :: session_heap
  rw_wire :: "session_id \<Rightarrow> u8 list"
  rw_calls :: "reactor_call list"

definition commit :: "session_id \<Rightarrow> send_state \<Rightarrow> reactor_world \<Rightarrow> reactor_world" where
  "commit sid st w =
     w\<lparr>rw_heap := AList.update sid (ss_session st) (rw_heap w),
       rw_wire := (rw_wire w)(sid := ss_wire st),
       rw_calls := rw_calls w @ (if ss_disconnect st then [DisconnectCall sid] else [])\<rparr>"

definition on_session :: "(send_state \<Rightarrow> send_state run option) \<Rightarrow> session_id \<Rightarrow> reactor_world \<Rightarrow>
    reactor_world run option" where
  "on_session f sid w =
     (case map_of (rw_heap w) sid of
        None \<Rightarrow> Some (Inl Dangling)
      | Some s \<Rightarrow>
          (case f \<lparr>ss_session = s, ss_wire = rw_wire w sid, ss_epollout = None, ss_disconnect = False\<rparr> of
             None \<Rightarrow> None
           | Some (Inl e) \<Rightarrow> Some (Inl e)
           | Some (Inr st) \<Rightarrow> Some (Inr (commit sid st w))))"

text \<open>\<^verbatim>\<open>handleSendTasks\<close>: the queue taken in one swap, each task with the outcomes of its \<^verbatim>\<open>send\<close> calls.\<close>

fun handleSendTasks :: "(session_id \<times> u8 list \<times> send_result list) list \<Rightarrow> reactor_world \<Rightarrow>
    reactor_world run option" where
  "handleSendTasks [] w = Some (Inr w)"
| "handleSendTasks ((sid, data, os) # tasks) w =
     (case on_session (handleSend data os) sid w of
        None \<Rightarrow> None
      | Some (Inl e) \<Rightarrow> Some (Inl e)
      | Some (Inr w') \<Rightarrow> handleSendTasks tasks w')"

record ready_event =
  ev_sid :: session_id
  ev_err :: bool
  ev_in :: "recv_result option"
  ev_out :: "(nat \<times> send_result list) option"

text \<open>
  One ready descriptor; \<open>ev_out\<close> is the \<^verbatim>\<open>EPOLLOUT\<close> bit with the fuel and outcomes of its sends.  The events
  carry session numbers, and that of the wake-up descriptor the number \<open>wakeup\<close> of this descriptor.
\<close>

definition sr_event :: "u64 \<Rightarrow> reactor \<Rightarrow> ready_event \<Rightarrow> reactor_world \<Rightarrow> reactor_world run option" where
  "sr_event wakeup r ev w =
     (if wakeup = ev_sid ev then Some (Inr w) else
      let sid = ev_sid ev;
          session = (case sr_getP2PSession sid r of None \<Rightarrow> None | Some p \<Rightarrow> map_of (rw_heap w) p)
      in case handleReady session (ev_err ev) (ev_in ev) of
           Offline \<Rightarrow> Some (Inr w)
         | Disconnected s \<Rightarrow> Some (Inr (w\<lparr>rw_heap := AList.update sid s (rw_heap w),
                                           rw_calls := rw_calls w @ [DisconnectCall sid]\<rparr>))
         | Received bytes \<Rightarrow>
             (let w1 = w\<lparr>rw_calls := rw_calls w @ [DataCall sid bytes]\<rparr>
              in case ev_out ev of None \<Rightarrow> Some (Inr w1) | Some (k, os) \<Rightarrow> on_session (handleEpollOut k os) sid w1)
         | Nothing \<Rightarrow>
             (case ev_out ev of None \<Rightarrow> Some (Inr w) | Some (k, os) \<Rightarrow> on_session (handleEpollOut k os) sid w))"

fun sr_events :: "u64 \<Rightarrow> reactor \<Rightarrow> ready_event list \<Rightarrow> reactor_world \<Rightarrow> reactor_world run option" where
  "sr_events wakeup r [] w = Some (Inr w)"
| "sr_events wakeup r (ev # evs) w =
     (case sr_event wakeup r ev w of
        None \<Rightarrow> None | Some (Inl e) \<Rightarrow> Some (Inl e) | Some (Inr w') \<Rightarrow> sr_events wakeup r evs w')"

text \<open>\<open>outcome\<close> gives each queued task the results of its \<^verbatim>\<open>send\<close> calls, by its position.\<close>

definition sr_round :: "u64 \<Rightarrow> (nat \<Rightarrow> send_result list) \<Rightarrow> ready_event list \<Rightarrow> reactor \<Rightarrow> reactor_world \<Rightarrow>
    (reactor \<times> reactor_world) run option" where
  "sr_round wakeup outcome evs r w =
     (case handleSendTasks (map (\<lambda>(i, sid, data). (sid, data, outcome i)) (enumerate 0 (sr_sendTasks r))) w of
        None \<Rightarrow> None
      | Some (Inl e) \<Rightarrow> Some (Inl e)
      | Some (Inr w') \<Rightarrow>
          (case sr_events wakeup (r\<lparr>sr_sendTasks := []\<rparr>) evs w' of
             None \<Rightarrow> None
           | Some (Inl e) \<Rightarrow> Some (Inl e)
           | Some (Inr w'') \<Rightarrow> Some (Inr (r\<lparr>sr_sendTasks := []\<rparr>, w''))))"

section \<open>Lemmas\<close>

definition wbuf :: "send_state \<Rightarrow> ringbuffer" where
  "wbuf st = ps_writeBuffer (ss_session st)"

text \<open>The byte stream of a session: what the kernel took and what waits in the write buffer.\<close>

definition out_stream :: "send_state \<Rightarrow> u8 list" where
  "out_stream st = ss_wire st @ rb_content (wbuf st)"

lemma dataLength_zero: "wf_rb rb \<Longrightarrow> rb_dataLength rb = 0 \<longleftrightarrow> rb_content rb = []"
  using rb_dataLength_unat [of rb] by (metis length_0_conv unat_eq_0)

text \<open>The two calls a sender makes are one push of the byte queue.\<close>

lemma write_increase_push:
  assumes wf: "wf_rb rb" and fits: "length data \<le> rb_capacity rb - length (rb_content rb)"
  obtains rb1 where "rb_writeData rb data (of_nat (length data)) = Inr (0, rb1)"
    "wf_rb (snd (rb_increaseUsedSpace rb1 (of_nat (length data))))"
    "rb_content (snd (rb_increaseUsedSpace rb1 (of_nat (length data)))) = rb_content rb @ data"
    "rb_capacity (snd (rb_increaseUsedSpace rb1 (of_nat (length data)))) = rb_capacity rb"
proof -
  obtain rb' where p: "rb_push rb data = Inr (0, rb')" "wf_rb rb'" "rb_content rb' = rb_content rb @ data"
    "rb_capacity rb' = rb_capacity rb"
    using rb.push_fits [OF wf fits] by blast
  have "length data < 2 ^ 64" using fits rb.capacity_small [OF wf] by simp
  then have u: "unat (of_nat (length data) :: u64) = length data"
    by (simp add: unat_of_nat take_bit_nat_eq_self)
  define rb1 where "rb1 = rb\<lparr>m_buffer := ring_store (unat (m_endOffset rb)) data (m_buffer rb)\<rparr>"
  have w: "rb_writeData rb data (of_nat (length data)) = Inr (0, rb1)"
    unfolding rb1_def by (rule rb_writeData_store [OF wf u fits])
  with p have "snd (rb_increaseUsedSpace rb1 (of_nat (length data))) = rb'"
    by (auto simp: rb_push_def split_beta Let_def split: if_splits)
  with w p show ?thesis by (intro that [of rb1]) simp_all
qed

lemma send_direct_stream:
  "wf_rb (wbuf st) \<Longrightarrow> rb_content (wbuf st) = [] \<Longrightarrow> length data \<le> rb_capacity (wbuf st) \<Longrightarrow>
   send_direct data os st = Some r \<Longrightarrow>
   \<exists>st' sent. r = Inr st' \<and> wf_rb (wbuf st') \<and> rb_capacity (wbuf st') = rb_capacity (wbuf st) \<and>
     out_stream st' = out_stream st @ sent \<and> (\<exists>rest. data = sent @ rest) \<and>
     (sent = data \<or> ss_disconnect st' \<or> SendFailed \<in> set os)"
proof (induction data os st rule: send_direct.induct)
  case (3 x xs n os st)
  let ?st = "st\<lparr>ss_wire := ss_wire st @ take n (x # xs)\<rparr>"
  have "wbuf ?st = wbuf st" by (simp add: wbuf_def)
  with 3 obtain st' sent where r: "r = Inr st'" "wf_rb (wbuf st')"
    "rb_capacity (wbuf st') = rb_capacity (wbuf st)" "out_stream st' = out_stream ?st @ sent"
    "\<exists>rest. drop n (x # xs) = sent @ rest"
    "sent = drop n (x # xs) \<or> ss_disconnect st' \<or> SendFailed \<in> set os"
    by (fastforce simp del: drop_Cons' simp: less_imp_le)
  have "out_stream st' = out_stream st @ (take n (x # xs) @ sent)"
    using r(4) 3(3) by (simp add: out_stream_def wbuf_def)
  moreover have "\<exists>rest. x # xs = (take n (x # xs) @ sent) @ rest"
    using r(5) by (metis append.assoc append_take_drop_id)
  moreover have "sent = drop n (x # xs) \<Longrightarrow> take n (x # xs) @ sent = x # xs"
    by (metis append_take_drop_id)
  ultimately show ?case using r by (metis list.set_intros(2))
next
  case (4 x xs os st)
  have "length (x # xs) \<le> rb_capacity (wbuf st) - length (rb_content (wbuf st))" using 4 by simp
  from write_increase_push [OF 4(1) this] obtain rb1 where
    "rb_writeData (wbuf st) (x # xs) (of_nat (length (x # xs))) = Inr (0, rb1)"
    "wf_rb (snd (rb_increaseUsedSpace rb1 (of_nat (length (x # xs)))))"
    "rb_content (snd (rb_increaseUsedSpace rb1 (of_nat (length (x # xs))))) = rb_content (wbuf st) @ x # xs"
    "rb_capacity (snd (rb_increaseUsedSpace rb1 (of_nat (length (x # xs))))) = rb_capacity (wbuf st)"
    by blast
  with 4 show ?case
    by (intro exI [of _ "st\<lparr>ss_session := (ss_session st)\<lparr>ps_writeBuffer :=
          snd (rb_increaseUsedSpace rb1 (of_nat (length (x # xs))))\<rparr>, ss_epollout := Some True\<rparr>"]
        exI [of _ "x # xs"])
      (auto simp: out_stream_def wbuf_def)
qed (auto simp: out_stream_def wbuf_def)

text \<open>One message: the stream grows by the whole message, or by nothing when the session is closing or
  the buffer has no room for it, or by a part of it when the socket fails for good.\<close>

lemma handleSend_stream:
  assumes "wf_rb (wbuf st)" and "length data \<le> rb_capacity (wbuf st)"
    and "handleSend data os st = Some r"
  shows "\<exists>st' sent rest. r = Inr st' \<and> wf_rb (wbuf st') \<and> rb_capacity (wbuf st') = rb_capacity (wbuf st) \<and>
    data = sent @ rest \<and> out_stream st' = out_stream st @ sent \<and>
    (rest = [] \<or> ss_disconnect st' \<or> SendFailed \<in> set os \<or>
     (sent = [] \<and> st' = st \<and> (ps_isWaitingDisconnect (ss_session st) \<or>
        length (rb_content (wbuf st)) + length data > rb_capacity (wbuf st))))"
proof (cases "ps_isWaitingDisconnect (ss_session st)")
  case True
  then have "r = Inr st" using assms(3) by (simp add: handleSend_def Let_def)
  with True assms(1) show ?thesis by (intro exI [of _ st] exI [of _ "[]"] exI [of _ data]) simp
next
  case False
  have fit: "length (rb_content (wbuf st)) \<le> rb_capacity (wbuf st)"
    using rb.content_fits [OF assms(1)] .
  have u: "unat (of_nat (length data) :: u64) = length data"
    using assms(2) rb.capacity_small [OF assms(1)] by (simp add: unat_of_nat take_bit_nat_eq_self)
  show ?thesis
  proof (cases "rb_content (wbuf st) = []")
    case True
    then have "send_direct data os st = Some r"
      using assms(3) False dataLength_zero [OF assms(1)]
      by (simp add: handleSend_def Let_def wbuf_def)
    from send_direct_stream [OF assms(1) True assms(2) this] show ?thesis by blast
  next
    case ne: False
    then have dl: "rb_dataLength (wbuf st) \<noteq> 0" using dataLength_zero [OF assms(1)] by simp
    show ?thesis
    proof (cases "length data \<le> rb_capacity (wbuf st) - length (rb_content (wbuf st))")
      case True
      have room: "\<not> of_nat (length data) > rb_space (wbuf st)"
        using True by (simp add: word_less_nat_alt u rb_space_unat [OF assms(1)])
      obtain rb1 where rb1: "rb_writeData (wbuf st) data (of_nat (length data)) = Inr (0, rb1)"
        "wf_rb (snd (rb_increaseUsedSpace rb1 (of_nat (length data))))"
        "rb_content (snd (rb_increaseUsedSpace rb1 (of_nat (length data)))) = rb_content (wbuf st) @ data"
        "rb_capacity (snd (rb_increaseUsedSpace rb1 (of_nat (length data)))) = rb_capacity (wbuf st)"
        using write_increase_push [OF assms(1) True] by blast
      let ?st = "st\<lparr>ss_session := (ss_session st)\<lparr>ps_writeBuffer :=
          snd (rb_increaseUsedSpace rb1 (of_nat (length data)))\<rparr>\<rparr>"
      have "r = Inr ?st"
        using assms(3) False dl room rb1(1) by (simp add: handleSend_def Let_def wbuf_def)
      with rb1 show ?thesis
        by (intro exI [of _ ?st] exI [of _ data] exI [of _ "[]"]) (simp add: out_stream_def wbuf_def)
    next
      case full: False
      then have "of_nat (length data) > rb_space (wbuf st)"
        by (simp add: word_less_nat_alt u rb_space_unat [OF assms(1)])
      then have "r = Inr st"
        using assms(3) False dl by (simp add: handleSend_def Let_def wbuf_def)
      moreover have "length (rb_content (wbuf st)) + length data > rb_capacity (wbuf st)"
        using full fit by linarith
      ultimately show ?thesis using assms(1)
        by (intro exI [of _ st] exI [of _ "[]"] exI [of _ data]) simp
    qed
  qed
qed

lemma send_direct_disconnect:
  "send_direct data os st = Some (Inr st') \<Longrightarrow> PeerGone \<notin> set os \<Longrightarrow> ss_disconnect st' = ss_disconnect st"
  by (induction data os st rule: send_direct.induct) (auto simp: and_then_Inr split: if_splits)

lemma handleSend_disconnect:
  "handleSend data os st = Some (Inr st') \<Longrightarrow> PeerGone \<notin> set os \<Longrightarrow> ss_disconnect st' = ss_disconnect st"
  by (auto simp: handleSend_def Let_def and_then_Inr send_direct_disconnect split: if_splits)

text \<open>A socket that only ever takes bytes or blocks.\<close>

definition healthy :: "send_result list \<Rightarrow> bool" where
  "healthy os \<longleftrightarrow> list_all (\<lambda>r. r \<noteq> PeerGone \<and> r \<noteq> SendFailed) os"

definition world_ok :: "nat \<Rightarrow> reactor_world \<Rightarrow> bool" where
  "world_ok cap w \<longleftrightarrow>
     (\<forall>sid s. map_of (rw_heap w) sid = Some s \<longrightarrow>
        wf_rb (ps_writeBuffer s) \<and> rb_capacity (ps_writeBuffer s) = cap)"

definition world_stream :: "reactor_world \<Rightarrow> session_id \<Rightarrow> u8 list" where
  "world_stream w sid = rw_wire w sid @
     (case map_of (rw_heap w) sid of None \<Rightarrow> [] | Some s \<Rightarrow> rb_content (ps_writeBuffer s))"

text \<open>The queued messages of one session, in order.\<close>

definition messages_for :: "session_id \<Rightarrow> (session_id \<times> u8 list \<times> send_result list) list \<Rightarrow> u8 list list" where
  "messages_for sid tasks = map (fst \<circ> snd) (filter (\<lambda>t. fst t = sid) tasks)"

lemma send_task_stream:
  assumes ok: "world_ok cap w" and sid: "sid \<in> dom (map_of (rw_heap w))"
    and fit: "length data \<le> cap" and h: "healthy os"
    and run: "on_session (handleSend data os) sid w = Some r"
  shows "\<exists>w' sent. r = Inr w' \<and> world_ok cap w' \<and> dom (map_of (rw_heap w')) = dom (map_of (rw_heap w)) \<and>
    sent \<in> {[], data} \<and>
    (\<forall>t. world_stream w' t = world_stream w t @ (if t = sid then sent else []))"
proof -
  obtain s where s: "map_of (rw_heap w) sid = Some s" using sid by blast
  let ?st = "\<lparr>ss_session = s, ss_wire = rw_wire w sid, ss_epollout = None, ss_disconnect = False\<rparr>"
  have wf: "wf_rb (wbuf ?st)" "rb_capacity (wbuf ?st) = cap" using ok s by (auto simp: world_ok_def wbuf_def)
  obtain r0 where r0: "handleSend data os ?st = Some r0" using run s by (auto simp: on_session_def split: option.splits)
  obtain st' sent rest where st': "r0 = Inr st'" "wf_rb (wbuf st')" "rb_capacity (wbuf st') = cap"
    "data = sent @ rest" "out_stream st' = out_stream ?st @ sent"
    "rest = [] \<or> ss_disconnect st' \<or> SendFailed \<in> set os \<or> sent = []"
    using handleSend_stream [OF wf(1) _ r0] wf(2) fit by auto
  have "\<not> ss_disconnect st'" "SendFailed \<notin> set os"
    using handleSend_disconnect [of data os ?st st'] r0 st'(1) h by (auto simp: healthy_def list_all_iff)
  with st'(4,6) have "sent \<in> {[], data}" by auto
  moreover have "r = Inr (commit sid st' w)" using run s r0 st'(1) by (simp add: on_session_def)
  moreover have "world_ok cap (commit sid st' w)"
    using ok st' by (auto simp: world_ok_def commit_def alist_simps wbuf_def split: if_splits)
  moreover have "dom (map_of (rw_heap (commit sid st' w))) = dom (map_of (rw_heap w))"
    using sid by (auto simp: commit_def alist_simps)
  moreover have "world_stream (commit sid st' w) t = world_stream w t @ (if t = sid then sent else [])" for t
    using st'(5) s by (simp add: world_stream_def commit_def alist_simps out_stream_def wbuf_def)
  ultimately show ?thesis by blast
qed

section \<open>Properties\<close>


definition ex_world :: "reactor_world" where
  "ex_world = \<lparr>rw_heap = [(1, P2PSession_new (0, 0) 4 1 (rb_new 16) (rb_new 8)),
                         (2, P2PSession_new (0, 0) 5 2 (rb_new 16) (rb_new 8))],
     rw_wire = (\<lambda>_. []), rw_calls = []\<rparr>"


text \<open>The \<^verbatim>\<open>EPOLLOUT\<close> branch repeats bytes after a partial send.  It always sends from the start
  of the window: when the kernel takes \<open>n\<close> bytes of a window of \<open>len\<close> and then the window again, the
  peer receives the first \<open>n\<close> bytes twice, followed by the rest.\<close>

theorem epollout_duplicates:
  assumes "wf_rb (wbuf st)" "rb_getContinuousData (wbuf st) = (0, Some (off, len))"
    and "m_startOffset (wbuf st) < m_endOffset (wbuf st)" "0 < n" "n < unat len"
  shows "\<exists>st'. flush_window (unat off) (unat len) 0 [Taken n, Taken (unat len)] st = Some (Inr ([], st')) \<and>
    ss_wire st' = ss_wire st @ take n (rb_content (wbuf st)) @ rb_content (wbuf st)"
proof -
  let ?S = "unat (m_startOffset (wbuf st))" and ?E = "unat (m_endOffset (wbuf st))"
  note wfd = wf_rbD [OF assms(1)]
  have lt: "?S < ?E" using assms(3) by (simp add: word_less_nat_alt)
  have off: "off = m_startOffset (wbuf st)" and len: "unat len = ?E - ?S"
    using assms(2,3) lt by (auto simp: rb_getContinuousData_def unat_minus64 split: if_splits)
  have c: "rb_content (wbuf st) = take (unat len) (drop ?S (m_buffer (wbuf st)))"
    using lt by (simp add: rb_content_def ring_content_def len)
  have lc: "length (rb_content (wbuf st)) = unat len" using c wfd(5) len by simp
  have r1: "mem_read (m_buffer (wbuf st)) (unat off) (unat len) = Inr (rb_content (wbuf st))"
    using wfd(5) lt by (simp add: off len c)
  have "unat len < 2 ^ 64" by (rule order_less_le_trans [OF unsigned_less]) simp
  then have "n < 2 ^ 64" using assms(5) by simp
  then have un: "unat (of_nat n :: u64) = n" by (simp add: unat_of_nat take_bit_nat_eq_self)
  have buf: "m_buffer (snd (rb_decreaseUsedSpace (wbuf st) (of_nat n))) = m_buffer (wbuf st)"
    by (simp add: rb_decreaseUsedSpace_def Let_def)
  show ?thesis
    using assms(4,5) r1 lc buf by (simp add: wbuf_def)
qed

theorem epollout_duplicates_witness:
  "\<exists>st'. flush_window 0 4 0 [Taken 2, Taken 4]
      \<lparr>ss_session = (P2PSession_new (0, 0) 4 1 (rb_new 16) (rb_new 8))\<lparr>ps_writeBuffer :=
         \<lparr>m_size = 8, m_buffer = [1, 2, 3, 4, 0, 0, 0, 0], m_startOffset = 0, m_endOffset = 4\<rparr>\<rparr>,
       ss_wire = [], ss_epollout = None, ss_disconnect = False\<rparr> = Some (Inr ([], st')) \<and>
    ss_wire st' = [1, 2, 1, 2, 3, 4]"
proof -
  let ?st = "\<lparr>ss_session = (P2PSession_new (0, 0) 4 1 (rb_new 16) (rb_new 8))\<lparr>ps_writeBuffer :=
         \<lparr>m_size = 8, m_buffer = [1, 2, 3, 4, 0, 0, 0, 0], m_startOffset = 0, m_endOffset = 4\<rparr>\<rparr>,
       ss_wire = [], ss_epollout = None, ss_disconnect = False\<rparr>"
  have 1: "wf_rb (wbuf ?st)" by (simp add: wf_rb_def wbuf_def rb_content_def ring_content_def)
  have 2: "rb_getContinuousData (wbuf ?st) = (0, Some (0, 4))" unfolding wbuf_def by code_simp
  have 3: "m_startOffset (wbuf ?st) < m_endOffset (wbuf ?st)" by (simp add: wbuf_def)
  have 4: "rb_content (wbuf ?st) = [1, 2, 3, 4]" unfolding wbuf_def by code_simp
  show ?thesis using epollout_duplicates [OF 1 2 3, of 2] by (simp add: 4)
qed

text \<open>The reactor thread does not leave the inner loop while the socket blocks or after the peer is
  gone: however long the list of such \<^verbatim>\<open>send\<close> results, the loop is still running at its end.  All
  other sessions of the reactor wait meanwhile.\<close>

theorem epollout_spins:
  assumes "sendLen < len" and "list_all (\<lambda>r. r \<in> {WouldBlock, PeerGone, SendFailed}) os"
  shows "flush_window off len sendLen os st = None"
  using assms by (induction os arbitrary: st) auto

definition ex_send :: "ringbuffer \<Rightarrow> send_state" where
  "ex_send rb = \<lparr>ss_session = (P2PSession_new (0, 0) 4 1 (rb_new 16) rb),
     ss_wire = [], ss_epollout = None, ss_disconnect = False\<rparr>"

theorem epollout_spins_witness:
  "flush_window 0 4 2 [WouldBlock, PeerGone, SendFailed, PeerGone] (ex_send (rb_new 16)) = None"
  by (rule epollout_spins) simp_all

text \<open>The size check of \<^verbatim>\<open>sendData\<close> is two bytes too generous.  A message of 16383 or 16384 bytes for a
  session with an empty write buffer of the configured size is accepted and queued; if the socket then
  blocks on its first byte, the message does not fit the buffer and the process aborts.\<close>

theorem oversize_message_aborts:
  assumes "sr_getP2PSession sid r = Some sid" and "map_of heap sid = Some s"
    and "\<not> ps_isWaitingDisconnect s" and "ps_writeBuffer s = rb_new c_p2pSessionWriteBufferSize"
    and "length data \<in> {16383, 16384}"
  shows "sr_sendData heap sid data r = (0, r\<lparr>sr_sendTasks := sr_sendTasks r @ [(sid, data)]\<rparr>) \<and>
    handleSend data (WouldBlock # os) \<lparr>ss_session = s, ss_wire = [], ss_epollout = None, ss_disconnect = False\<rparr>
      = Some (Inl AssertFailed)"
proof
  have u: "unat c_p2pSessionWriteBufferSize = 16384" by (simp add: c_p2pSessionWriteBufferSize_def)
  show "sr_sendData heap sid data r = (0, r\<lparr>sr_sendTasks := sr_sendTasks r @ [(sid, data)]\<rparr>)"
    using assms by (auto simp: sr_sendData_def u)
  have d: "data \<noteq> []" using assms(5) by auto
  then obtain x xs where x: "data = x # xs" by (cases data) auto
  let ?rb = "rb_new c_p2pSessionWriteBufferSize"
  have len: "rb_dataLength ?rb = 0" and sp: "rb_space ?rb = 16382"
    by (simp_all add: rb_space_def rb_dataLength_def rb_new_def c_reservedSpace_def c_p2pSessionWriteBufferSize_def)
  have "(16382 :: u64) < of_nat (length data)" using assms(5) by auto
  then have "rb_writeData ?rb data (of_nat (length data)) = Inr (-1, ?rb)"
    by (intro rb_writeData_full) (simp add: sp)
  then show "handleSend data (WouldBlock # os)
      \<lparr>ss_session = s, ss_wire = [], ss_epollout = None, ss_disconnect = False\<rparr> = Some (Inl AssertFailed)"
    using assms(3,4) len x by (simp add: handleSend_def Let_def)
qed

theorem oversize_message_aborts_witness:
  "handleSend (replicate 16383 0) [WouldBlock]
     \<lparr>ss_session = P2PSession_new (0, 0) 4 1 (rb_new 16) (rb_new c_p2pSessionWriteBufferSize),
      ss_wire = [], ss_epollout = None, ss_disconnect = False\<rparr> = Some (Inl AssertFailed)"
proof -
  let ?s = "P2PSession_new (0, 0) 4 1 (rb_new 16) (rb_new c_p2pSessionWriteBufferSize)"
  have s: "sr_getP2PSession 1 (snd (sr_addSession True 1 SlaveReactor_new)) = Some 1"
    "map_of [(1 :: session_id, ?s)] 1 = Some ?s" "\<not> ps_isWaitingDisconnect ?s"
    "ps_writeBuffer ?s = rb_new c_p2pSessionWriteBufferSize"
    by (simp_all add: sr_getP2PSession_def sr_addSession_def SlaveReactor_new_def emplace_def P2PSession_new_def)
  show ?thesis using oversize_message_aborts [OF s, of "replicate 16383 0" "[]"] by simp
qed

end
