(* ===== verification/P2P.thy ===== *)
theory P2P
  imports Decoder Reactor
begin

text \<open>
  \<^verbatim>\<open>P2PService\<close>: the callbacks it registers with the other parts of the network module, composed
  over one state.  A session lives as long as some \<^verbatim>\<open>shared_ptr\<close> holds it: the session table or a
  queued send task of a reactor, or the running callback.  Each callback is one step; \<open>release\<close>
  frees the session a callback lets go of when nothing else holds it.
\<close>

section \<open>State\<close>

text \<open>
  \<open>sv_connecting\<close> is \<^verbatim>\<open>HostsConnector::m_connectingHosts\<close>, \<open>sv_delivered\<close> the calls of the handlers
  other modules registered, and the two queues hold the packets routed by the decoder's callback.
\<close>

type_synonym connecting = "(host_end_point, int \<times> int) umap"
type_synonym module_handler = "node_id \<Rightarrow> u8 list \<Rightarrow> int"

record p2p_service =
  sv_nodeId :: node_id
  sv_p2pHost :: host_end_point
  sv_heap :: session_heap
  sv_hostsInfo :: hosts_info
  sv_connecting :: connecting
  sv_alive :: alive_map
  sv_dispatcher :: dispatcher
  sv_destroyer :: destroy_queue
  sv_reactors :: "reactor list"
  sv_moduleHandlers :: "(module_id, module_handler) umap"
  sv_delivered :: "(module_id \<times> node_id \<times> u8 list) list"
  sv_serviceQueue :: "(session_id \<times> packet) list"
  sv_moduleQueue :: "(session_id \<times> packet) list"

definition SlaveReactorPool_new :: "nat \<Rightarrow> reactor list" where
  "SlaveReactorPool_new n = replicate n SlaveReactor_new"

definition P2PService_new :: "nat \<Rightarrow> node_id \<Rightarrow> host_end_point \<Rightarrow> hosts_info \<Rightarrow> p2p_service" where
  "P2PService_new n self host infos =
     \<lparr>sv_nodeId = self, sv_p2pHost = host, sv_heap = [], sv_hostsInfo = infos, sv_connecting = [],
      sv_alive = [], sv_dispatcher = SessionDispatcher_new n, sv_destroyer = [],
      sv_reactors = SlaveReactorPool_new n, sv_moduleHandlers = [], sv_delivered = [],
      sv_serviceQueue = [], sv_moduleQueue = []\<rparr>"

text \<open>\<^verbatim>\<open>SlaveReactorPool::slaveReactor\<close>; \<open>None\<close> is the null pointer.\<close>

definition slaveReactor :: "u64 \<Rightarrow> p2p_service \<Rightarrow> reactor option" where
  "slaveReactor index st =
     (if unat index \<ge> length (sv_reactors st) then None else Some (sv_reactors st ! unat index))"

definition set_reactor :: "u64 \<Rightarrow> reactor \<Rightarrow> p2p_service \<Rightarrow> p2p_service" where
  "set_reactor index r st = st\<lparr>sv_reactors := (sv_reactors st)[unat index := r]\<rparr>"

definition set_session :: "p2p_session \<Rightarrow> p2p_service \<Rightarrow> p2p_service" where
  "set_session s st = st\<lparr>sv_heap := AList.update (ps_sessionId s) s (sv_heap st)\<rparr>"

definition lock_session :: "session_wptr \<Rightarrow> p2p_service \<Rightarrow> p2p_session option" where
  "lock_session w st = map_of (sv_heap st) w"

definition held :: "session_id \<Rightarrow> reactor \<Rightarrow> bool" where
  "held sid r \<longleftrightarrow> map_of (sr_sessions r) sid \<noteq> None \<or> sid \<in> set (map fst (sr_sendTasks r))"

definition release :: "session_id \<Rightarrow> p2p_service \<Rightarrow> p2p_service" where
  "release sid st =
     (if list_ex (held sid) (sv_reactors st) then st else st\<lparr>sv_heap := AList.delete sid (sv_heap st)\<rparr>)"

definition queue_destroy :: "destroy_info \<Rightarrow> p2p_service \<Rightarrow> p2p_service" where
  "queue_destroy info st = st\<lparr>sv_destroyer := destroyer_addSession info (sv_destroyer st)\<rparr>"

section \<open>Lookup and sending\<close>

definition svc_getP2PSession :: "session_id \<Rightarrow> p2p_service \<Rightarrow> p2p_session option run" where
  "svc_getP2PSession sid st =
     (case getSlaveReactorIndexBySessionId sid (sv_dispatcher st) of
        None \<Rightarrow> Inr None
      | Some index \<Rightarrow>
          (case slaveReactor index st of
             None \<Rightarrow> Inl NullDeref
           | Some r \<Rightarrow>
               Inr (case sr_getP2PSession sid r of None \<Rightarrow> None | Some w \<Rightarrow> lock_session w st)))"

definition svc_sendData :: "session_id \<Rightarrow> u8 list \<Rightarrow> p2p_service \<Rightarrow> (int \<times> p2p_service) run" where
  "svc_sendData sid data st =
     (case getSlaveReactorIndexBySessionId sid (sv_dispatcher st) of
        None \<Rightarrow> Inr (-1, st)
      | Some index \<Rightarrow>
          (case slaveReactor index st of
             None \<Rightarrow> Inl NullDeref
           | Some r \<Rightarrow>
               (let (ret, r') = sr_sendData (sv_heap st) sid data r
                in Inr (if ret \<noteq> 0 then -1 else 0, set_reactor index r' st))))"

fun send_each :: "(node_id \<times> session_id) list \<Rightarrow> u8 list \<Rightarrow> p2p_service \<Rightarrow> p2p_service run" where
  "send_each [] buffer st = Inr st"
| "send_each ((node, sid) # hosts) buffer st =
     and_then (svc_sendData sid buffer st) (\<lambda>(_, st1). send_each hosts buffer st1)"

definition boardcastModuleMessage :: "module_id \<Rightarrow> u8 list \<Rightarrow> p2p_service \<Rightarrow> (int \<times> p2p_service) run" where
  "boardcastModuleMessage m data st =
     and_then (encode_module m data) (\<lambda>buffer.
     and_then (send_each (getAllHosts (sv_hostsInfo st)) buffer st) (\<lambda>st1. Inr (0, st1)))"

definition sendModuleMessageByNodeId ::
  "node_id \<Rightarrow> module_id \<Rightarrow> u8 list \<Rightarrow> p2p_service \<Rightarrow> (int \<times> p2p_service) run" where
  "sendModuleMessageByNodeId nodeId m data st =
     and_then (encode_module m data) (\<lambda>buffer.
     (case getSessionId nodeId (sv_hostsInfo st) of
        None \<Rightarrow> Inr (-1, st)
      | Some sid \<Rightarrow> and_then (svc_sendData sid buffer st) (\<lambda>(ret, st1).
          Inr (if ret \<noteq> 0 then -1 else 0, st1))))"

text \<open>The packet sender of the distance vector service.\<close>

definition distance_sender :: "node_id \<Rightarrow> u8 list \<Rightarrow> p2p_service \<Rightarrow> (int \<times> p2p_service) run" where
  "distance_sender nodeId data st =
     (case getSessionId nodeId (sv_hostsInfo st) of
        None \<Rightarrow> Inr (-1, st)
      | Some sid \<Rightarrow> svc_sendData sid data st)"

text \<open>The heartbeat sender, and the round of \<^verbatim>\<open>HostsHeartbeatService\<close>'s thread that calls it.  The
  time stamps are those of a copy of the host table; a host without a session ends the round.  The
  service stores the sender as a function on \<^verbatim>\<open>int\<close>, so the session id passes through an \<^verbatim>\<open>int\<close>.\<close>

definition heartbeat_sender :: "session_id \<Rightarrow> u8 list \<Rightarrow> p2p_service \<Rightarrow> (int \<times> p2p_service) run" where
  "heartbeat_sender sid data st =
     and_then (svc_sendData sid data st) (\<lambda>(ret, st1). Inr (if ret \<noteq> 0 then -1 else 0, st1))"

definition c_heartbeatInterval :: u64 where
  "c_heartbeatInterval = 5000"

fun heartbeat_round :: "u64 \<Rightarrow> hosts \<Rightarrow> p2p_service \<Rightarrow> p2p_service run" where
  "heartbeat_round now [] st = Inr st"
| "heartbeat_round now ((host, nodeId, stamp) # hosts) st =
     (if nodeId = [] \<or> sv_nodeId st = nodeId then heartbeat_round now hosts st
      else if now - stamp \<ge> c_heartbeatInterval then
        and_then (encode_empty PT_HeartBeat) (\<lambda>buffer.
        (case getSessionId nodeId (sv_hostsInfo st) of
           None \<Rightarrow> Inr st
         | Some sid \<Rightarrow> and_then (heartbeat_sender (size_of_int (int_of_size sid)) buffer st) (\<lambda>(_, st1). heartbeat_round now hosts st1)))
      else heartbeat_round now hosts st)"

definition HostsHeartbeatService_run :: "u64 \<Rightarrow> p2p_service \<Rightarrow> p2p_service run" where
  "HostsHeartbeatService_run now st = heartbeat_round now (m_hosts (sv_hostsInfo st)) st"

section \<open>Sessions coming and going\<close>

text \<open>The acceptor's callback for a new session \<open>s\<close>, with the dispatcher's callback inside it.\<close>

definition newClientCallback :: "bool \<Rightarrow> p2p_session \<Rightarrow> p2p_service \<Rightarrow> p2p_service run" where
  "newClientCallback epoll_ok s st =
     (let sid = ps_sessionId s
      in and_then (dispatch_index sid (sv_dispatcher st)) (\<lambda>(index, d1).
         (let st1 = (set_session s st)\<lparr>sv_dispatcher := d1\<rparr>
          in case slaveReactor index st1 of
               None \<Rightarrow> Inl NullDeref
             | Some r \<Rightarrow>
                 (let (ret, r') = sr_addSession epoll_ok sid r;
                      st2 = (if ret = -1 then release sid st1
                             else (let st3 = set_session (s\<lparr>ps_slaveReactorIndex := index\<rparr>) (set_reactor index r' st1)
                                   in st3\<lparr>sv_alive := snd (alive_addSession sid sid (sv_alive st3))\<rparr>))
                  in and_then (dispatch_count index (sv_dispatcher st2)) (\<lambda>d2.
                     Inr (st2\<lparr>sv_dispatcher := d2\<rparr>))))))"

text \<open>The connector's callback for a session it has connected: register it, then introduce ourselves.\<close>

definition client_info_of :: "p2p_session \<Rightarrow> p2p_service \<Rightarrow> client_info" where
  "client_info_of s st =
     \<lparr>ci_seq = 0,
      ci_localHost = hep_ip (sv_p2pHost st) @ '':'' @ nat_to_string (unat (hep_port (sv_p2pHost st))),
      ci_peerHost = hep_host (ps_peerHost s), ci_handshakeUuid = [], ci_nodeId = sv_nodeId st\<rparr>"

definition connectHandler :: "protobuf \<Rightarrow> bool \<Rightarrow> p2p_session \<Rightarrow> p2p_service \<Rightarrow> p2p_service run" where
  "connectHandler pb epoll_ok s st =
     (let sid = ps_sessionId s
      in and_then (dispatch_one sid (sv_dispatcher st)) (\<lambda>(index, d1).
         (let st1 = (set_session s st)\<lparr>sv_dispatcher := d1\<rparr>;
              (ret, alive) = alive_addSession sid sid (sv_alive st1)
          in if ret = -1 then Inr (release sid st1)
             else (let st2 = st1\<lparr>sv_alive := alive\<rparr>
                   in case slaveReactor index st2 of
                        None \<Rightarrow> Inl NullDeref
                      | Some r \<Rightarrow>
                          (let (ret2, r') = sr_addSession epoll_ok sid r
                           in if ret2 = -1 then Inr (release sid st2)
                              else (let st3 = set_session (s\<lparr>ps_slaveReactorIndex := index\<rparr>) (set_reactor index r' st2)
                                    in and_then (encode_packet pb (Pl_ClientInfo (client_info_of s st3))) (\<lambda>buffer.
                                       and_then (svc_sendData sid buffer st3) (\<lambda>(_, st4). Inr st4))))))))"

text \<open>The disconnect handler of the reactors and the timeout handler of the alive checker.\<close>

definition disconnectHandler :: "session_id \<Rightarrow> p2p_service \<Rightarrow> p2p_service" where
  "disconnectHandler sid st =
     queue_destroy \<lparr>di_sessionId = sid, di_session = sid, di_flag = 0, di_isFromAliveChecker = False\<rparr> st"

fun timeoutHandler :: "(session_id \<times> session_wptr) list \<Rightarrow> p2p_service \<Rightarrow> p2p_service" where
  "timeoutHandler [] st = st"
| "timeoutHandler ((sid, w) # sessions) st =
     timeoutHandler sessions (st\<lparr>sv_destroyer := destroyer_addSessions
       [\<lparr>di_sessionId = sid, di_session = w, di_flag = 0, di_isFromAliveChecker = True\<rparr>] (sv_destroyer st)\<rparr>)"

definition alive_tick :: "p2p_service \<Rightarrow> p2p_service" where
  "alive_tick st =
     (let (kept, offline, heap) = alive_pass (sv_alive st) (sv_heap st)
      in timeoutHandler offline (st\<lparr>sv_alive := kept, sv_heap := heap\<rparr>))"

definition disconnectClient ::
  "host_end_point \<Rightarrow> node_id \<Rightarrow> int \<Rightarrow> session_id \<Rightarrow> p2p_service \<Rightarrow> p2p_service" where
  "disconnectClient host nodeId flag sid st =
     (if flag = 0 \<or> flag = -1 then
        (if nodeId = sv_nodeId st then st
         else (let st1 = st\<lparr>sv_hostsInfo := snd (removeHostIdInfo nodeId sid (sv_hostsInfo st))\<rparr>
               in st1\<lparr>sv_hostsInfo := snd (setHostNotConnected host (sv_hostsInfo st1))\<rparr>))
      else if flag = -2 then st
      else if flag = -3 then st
      else if flag = -4 then st\<lparr>sv_hostsInfo := snd (removeHostIdInfo nodeId sid (sv_hostsInfo st))\<rparr>
      else st)"

text \<open>
  The destroy handler.  When the session is gone it is logged through the null pointer.  Otherwise
  the handler runs through all its steps whatever they return, and drops the last reference.
\<close>

definition destroyHandler :: "bool \<Rightarrow> destroy_info \<Rightarrow> p2p_service \<Rightarrow> p2p_service run" where
  "destroyHandler epoll_ok info st =
     (case lock_session (di_session info) st of
        None \<Rightarrow> Inl NullDeref
      | Some s \<Rightarrow>
          (let sid = ps_sessionId s;
               s1 = s\<lparr>ps_isWaitingDisconnect := True\<rparr>;
               st1 = set_session s1 st;
               st2 = (if di_isFromAliveChecker info then st1
                      else st1\<lparr>sv_alive := snd (alive_removeSession sid (sv_alive st1))\<rparr>)
           in case slaveReactor (ps_slaveReactorIndex s1) st2 of
                None \<Rightarrow> Inl NullDeref
              | Some r \<Rightarrow>
                  (let st3 = set_reactor (ps_slaveReactorIndex s1) (snd (sr_removeClient epoll_ok sid r)) st2;
                       st4 = disconnectClient (ps_peerHost s1) (ps_nodeId s1) (di_flag info) sid st3;
                       st5 = st4\<lparr>sv_dispatcher := snd (removeSessionIdSlaveReactorRelation sid (sv_dispatcher st4))\<rparr>
                   in Inr (release sid st5))))"

text \<open>The destroying thread takes the oldest entry.\<close>

definition destroy_next :: "bool \<Rightarrow> p2p_service \<Rightarrow> p2p_service run" where
  "destroy_next epoll_ok st =
     (case destroyer_pop (sv_destroyer st) of
        None \<Rightarrow> Inr st
      | Some (info, rest) \<Rightarrow> destroyHandler epoll_ok info (st\<lparr>sv_destroyer := rest\<rparr>))"

section \<open>Packet handlers\<close>

text \<open>
  Each handler gets the session id the decoder passes along; the weak pointer was made from the same
  session.  A payload of another class, or none, makes \<^verbatim>\<open>dynamic_pointer_cast\<close> give a null pointer.
\<close>

definition onHeartBeat :: "session_id \<Rightarrow> p2p_service \<Rightarrow> (int \<times> p2p_service) run" where
  "onHeartBeat sid st =
     (case lock_session sid st of
        None \<Rightarrow> Inr (-1, st)
      | Some s \<Rightarrow>
          (let st1 = set_session (refreshHeartbeat s) st
           in and_then (encode_empty PT_HeartBeatReply) (\<lambda>buffer. svc_sendData sid buffer st1)))"

definition onHeartBeatReply :: "session_id \<Rightarrow> p2p_service \<Rightarrow> (int \<times> p2p_service) run" where
  "onHeartBeatReply sid st =
     (case lock_session sid st of
        None \<Rightarrow> Inr (-1, st)
      | Some s \<Rightarrow> Inr (0, set_session (refreshHeartbeat s) st))"

text \<open>The reply codes: \<open>-2\<close> for a connection to oneself, \<open>-3\<close> for a node that is already connected.\<close>

definition client_info_result :: "node_id \<Rightarrow> session_id \<Rightarrow> p2p_service \<Rightarrow> int \<times> p2p_service" where
  "client_info_result nodeId sid st =
     (if nodeId = sv_nodeId st then (-2, st)
      else (let (ret, infos) = addHostIdInfo nodeId sid (sv_hostsInfo st)
            in (if ret = -1 then -3 else 0, st\<lparr>sv_hostsInfo := infos\<rparr>)))"

definition onClientInfo :: "protobuf \<Rightarrow> u16 \<Rightarrow> session_id \<Rightarrow> payload option \<Rightarrow> p2p_service \<Rightarrow>
    (int \<times> p2p_service) run" where
  "onClientInfo pb junk sid payload st =
     (case lock_session sid st of
        None \<Rightarrow> Inr (-1, st)
      | Some s \<Rightarrow>
          (case payload of
             Some (Pl_ClientInfo m) \<Rightarrow>
               (let nodeId = ci_nodeId m;
                    st1 = set_session (s\<lparr>ps_nodeId := nodeId\<rparr>) st;
                    peerHost = HostEndPointInfo_of junk (ci_peerHost m);
                    (replyResult, st2) = client_info_result nodeId sid st1
                in and_then (encode_packet pb (Pl_ClientInfoReply
                     \<lparr>cir_seq = 0, cir_peerHost = hep_host peerHost, cir_handshakeUuid = ci_handshakeUuid m,
                      cir_nodeId = sv_nodeId st2, cir_result = of_int replyResult\<rparr>)) (\<lambda>buffer.
                   and_then (svc_sendData sid buffer st2) (\<lambda>(ret, st3).
                   Inr (if ret = -1 then -1 else 0, st3))))
           | _ \<Rightarrow> Inl NullDeref))"

definition setHostConnected :: "host_end_point \<Rightarrow> connecting \<Rightarrow> int \<times> connecting" where
  "setHostConnected host m =
     (if map_of m host = None then (-1, m) else (0, AList.delete host m))"

text \<open>The branch for result \<open>-4\<close> gives the other session the address the peer was told.\<close>

definition rename_other :: "u16 \<Rightarrow> client_info_reply \<Rightarrow> p2p_service \<Rightarrow> p2p_service run" where
  "rename_other junk m st =
     (case getSessionId (cir_nodeId m) (sv_hostsInfo st) of
        None \<Rightarrow> Inl AssertFailed
      | Some other \<Rightarrow>
          and_then (svc_getP2PSession other st) (\<lambda>session.
          (case session of
             None \<Rightarrow> Inl AssertFailed
           | Some s \<Rightarrow> Inr (set_session (s\<lparr>ps_peerHost := HostEndPointInfo_of junk (cir_peerHost m)\<rparr>) st))))"

text \<open>Result 0: keep the one of two connections the smaller node id did not initiate, or register
  this one.\<close>

definition reply_accepted :: "session_id \<Rightarrow> host_end_point \<Rightarrow> node_id \<Rightarrow> p2p_service \<Rightarrow>
    int \<times> p2p_service" where
  "reply_accepted sid host nodeId st =
     (case getSessionId nodeId (sv_hostsInfo st) of
        Some another \<Rightarrow>
          if sv_nodeId st < nodeId then
            (0, queue_destroy \<lparr>di_sessionId = sid, di_session = sid, di_flag = -4,
                               di_isFromAliveChecker = False\<rparr> st)
          else (0, st)
      | None \<Rightarrow>
          (let (ret1, infos1) = setHostId host nodeId (sv_hostsInfo st)
           in if ret1 = -1 then (-1, st)
              else (let (ret2, connecting) = setHostConnected host (sv_connecting st);
                        st2 = st\<lparr>sv_hostsInfo := infos1, sv_connecting := connecting\<rparr>
                    in if ret2 = -1 then (-1, st2)
                       else (let (ret3, infos3) = addHostIdInfo nodeId sid (sv_hostsInfo st2)
                             in (if ret3 = -1 then -1 else 0, st2\<lparr>sv_hostsInfo := infos3\<rparr>)))))"

definition onClientInfoReply :: "u16 \<Rightarrow> session_id \<Rightarrow> payload option \<Rightarrow> p2p_service \<Rightarrow>
    (int \<times> p2p_service) run" where
  "onClientInfoReply junk sid payload st =
     (case lock_session sid st of
        None \<Rightarrow> Inr (-1, st)
      | Some s \<Rightarrow>
          (case payload of
             Some (Pl_ClientInfoReply m) \<Rightarrow>
               (let st1 = set_session (s\<lparr>ps_nodeId := cir_nodeId m\<rparr>) st;
                    result = sint (cir_result m)
                in if result \<noteq> 0 then
                     and_then (if result = -4 then rename_other junk m st1 else Inr st1) (\<lambda>st2.
                     Inr (0, st2\<lparr>sv_destroyer := destroyer_addSessions
                       [\<lparr>di_sessionId = sid, di_session = sid, di_flag = result,
                         di_isFromAliveChecker = False\<rparr>] (sv_destroyer st2)\<rparr>))
                   else Inr (reply_accepted sid (ps_peerHost s) (cir_nodeId m) st1))
           | _ \<Rightarrow> Inl NullDeref))"

text \<open>The handler of module messages: the module's own handler is called with the node id and bytes.\<close>

definition onModuleMessage :: "session_id \<Rightarrow> packet \<Rightarrow> p2p_service \<Rightarrow> (int \<times> p2p_service) run" where
  "onModuleMessage sid p st =
     (case lock_session sid st of
        None \<Rightarrow> Inr (-1, st)
      | Some s \<Rightarrow>
          (case map_of (sv_moduleHandlers st) (m_moduleId (fst p)) of
             None \<Rightarrow> Inr (-1, st)
           | Some handler \<Rightarrow>
               (case snd p of
                  Some (Pl_ModuleMessage bytes) \<Rightarrow>
                    Inr (handler (ps_nodeId s) bytes,
                         st\<lparr>sv_delivered := sv_delivered st @ [(m_moduleId (fst p), ps_nodeId s, bytes)]\<rparr>)
                | _ \<Rightarrow> Inl NullDeref)))"

definition registerModulePacketHandler :: "module_id \<Rightarrow> module_handler \<Rightarrow> p2p_service \<Rightarrow> p2p_service" where
  "registerModulePacketHandler m h st =
     st\<lparr>sv_moduleHandlers := AList.update m h (sv_moduleHandlers st)\<rparr>"

section \<open>Routing\<close>

text \<open>The decoder's packet callback, and one turn of each of the two processors.\<close>

definition route_packet :: "session_id \<Rightarrow> packet \<Rightarrow> p2p_service \<Rightarrow> p2p_service" where
  "route_packet sid p st =
     (if header_type (fst p) = PT_ModuleMessage
      then st\<lparr>sv_moduleQueue := sv_moduleQueue st @ [(sid, p)]\<rparr>
      else st\<lparr>sv_serviceQueue := sv_serviceQueue st @ [(sid, p)]\<rparr>)"

text \<open>The handlers registered with \<^verbatim>\<open>SessionServiceDataProcessor\<close>; other types are only logged.\<close>

definition service_handler :: "protobuf \<Rightarrow> u16 \<Rightarrow> session_id \<Rightarrow> packet \<Rightarrow> p2p_service \<Rightarrow>
    p2p_service run" where
  "service_handler pb junk sid p st =
     (case header_type (fst p) of
        PT_HeartBeat \<Rightarrow> and_then (onHeartBeat sid st) (\<lambda>(_, st1). Inr st1)
      | PT_ClientInfo \<Rightarrow> and_then (onClientInfo pb junk sid (snd p) st) (\<lambda>(_, st1). Inr st1)
      | PT_ClientInfoReply \<Rightarrow> and_then (onClientInfoReply junk sid (snd p) st) (\<lambda>(_, st1). Inr st1)
      | PT_HeartBeatReply \<Rightarrow> and_then (onHeartBeatReply sid st) (\<lambda>(_, st1). Inr st1)
      | _ \<Rightarrow> Inr st)"

definition service_turn :: "protobuf \<Rightarrow> u16 \<Rightarrow> p2p_service \<Rightarrow> p2p_service run" where
  "service_turn pb junk st =
     (case sv_serviceQueue st of
        [] \<Rightarrow> Inr st
      | (sid, p) # rest \<Rightarrow> service_handler pb junk sid p (st\<lparr>sv_serviceQueue := rest\<rparr>))"

definition module_turn :: "p2p_service \<Rightarrow> p2p_service run" where
  "module_turn st =
     (case sv_moduleQueue st of
        [] \<Rightarrow> Inr st
      | (sid, p) # rest \<Rightarrow>
          (let st1 = st\<lparr>sv_moduleQueue := rest\<rparr>
           in if header_type (fst p) = PT_ModuleMessage
              then and_then (onModuleMessage sid p st1) (\<lambda>(_, st2). Inr st2) else Inr st1))"

section \<open>Steps\<close>

datatype p2p_event =
    Accepted bool p2p_session
  | Connected bool p2p_session
  | Arrived session_id packet
  | ServiceTurn
  | ModuleTurn
  | PeerLost session_id
  | AliveTick
  | DestroyTurn bool
  | HeartbeatRound u64
  | Broadcast module_id "u8 list"
  | SendTo node_id module_id "u8 list"
  | SendDistance node_id "u8 list"
  | TasksDone nat

text \<open>A reactor works through its queue of send tasks; the sessions only they held are freed.\<close>

definition tasks_done :: "nat \<Rightarrow> p2p_service \<Rightarrow> p2p_service" where
  "tasks_done i st =
     (if i < length (sv_reactors st) then
        (let r = sv_reactors st ! i
         in fold release (map fst (sr_sendTasks r)) (set_reactor (of_nat i) (r\<lparr>sr_sendTasks := []\<rparr>) st))
      else st)"

fun p2p_step :: "protobuf \<Rightarrow> u16 \<Rightarrow> p2p_event \<Rightarrow> p2p_service \<Rightarrow> p2p_service run" where
  "p2p_step pb junk (Accepted ok s) st = newClientCallback ok s st"
| "p2p_step pb junk (Connected ok s) st = connectHandler pb ok s st"
| "p2p_step pb junk (Arrived sid p) st = Inr (route_packet sid p st)"
| "p2p_step pb junk ServiceTurn st = service_turn pb junk st"
| "p2p_step pb junk ModuleTurn st = module_turn st"
| "p2p_step pb junk (PeerLost sid) st = Inr (disconnectHandler sid st)"
| "p2p_step pb junk AliveTick st = Inr (alive_tick st)"
| "p2p_step pb junk (DestroyTurn ok) st = destroy_next ok st"
| "p2p_step pb junk (HeartbeatRound now) st = HostsHeartbeatService_run now st"
| "p2p_step pb junk (Broadcast m data) st = and_then (boardcastModuleMessage m data st) (\<lambda>(_, st1). Inr st1)"
| "p2p_step pb junk (SendTo n m data) st = and_then (sendModuleMessageByNodeId n m data st) (\<lambda>(_, st1). Inr st1)"
| "p2p_step pb junk (SendDistance n data) st = and_then (distance_sender n data st) (\<lambda>(_, st1). Inr st1)"
| "p2p_step pb junk (TasksDone i) st = Inr (tasks_done i st)"

text \<open>
  What the environment guarantees of an event: a new session has an id no session has, and data to
  send is shorter than \<open>2 ^ 32\<close> bytes.
\<close>

fun event_ok :: "p2p_event \<Rightarrow> p2p_service \<Rightarrow> bool" where
  "event_ok (Accepted ok s) st \<longleftrightarrow> map_of (sv_heap st) (ps_sessionId s) = None"
| "event_ok (Connected ok s) st \<longleftrightarrow> map_of (sv_heap st) (ps_sessionId s) = None"
| "event_ok (Broadcast m data) st \<longleftrightarrow> length data < 2 ^ 32"
| "event_ok (SendTo n m data) st \<longleftrightarrow> length data < 2 ^ 32"
| "event_ok _ st \<longleftrightarrow> True"

text \<open>The states a service with at least two reactors can be in.\<close>

inductive p2p_reachable :: "protobuf \<Rightarrow> u16 \<Rightarrow> p2p_service \<Rightarrow> bool" for pb junk where
  start: "2 \<le> n \<Longrightarrow>
    p2p_reachable pb junk ((P2PService_new n self host infos)\<lparr>sv_moduleHandlers := handlers\<rparr>)"
| step: "p2p_reachable pb junk st \<Longrightarrow> event_ok e st \<Longrightarrow> p2p_step pb junk e st = Inr st' \<Longrightarrow>
    p2p_reachable pb junk st'"

lemma p2p_reachable_new: "2 \<le> n \<Longrightarrow> p2p_reachable pb junk (P2PService_new n self host infos)"
  using p2p_reachable.start [where handlers = "[]"] by (simp add: P2PService_new_def)

section \<open>The invariant\<close>

text \<open>
  Every assignment the dispatcher made is reactor 0, every live session is filed under its own id
  with that reactor, and whatever a reactor holds is alive.
\<close>

definition dispatcher_ok :: "nat \<Rightarrow> dispatcher \<Rightarrow> bool" where
  "dispatcher_ok n d \<longleftrightarrow> 2 \<le> n \<and> (\<exists>c. sd_sessionSize d = c # replicate (n - 1) 0) \<and>
     (\<forall>sid i. map_of (sd_relation d) sid = Some i \<longrightarrow> i = 0)"

definition heap_ok :: "session_heap \<Rightarrow> bool" where
  "heap_ok heap \<longleftrightarrow> (\<forall>sid s. map_of heap sid = Some s \<longrightarrow> ps_sessionId s = sid \<and> ps_slaveReactorIndex s = 0)"

definition reactor_ok :: "session_heap \<Rightarrow> reactor \<Rightarrow> bool" where
  "reactor_ok heap r \<longleftrightarrow> (\<forall>sid. held sid r \<longrightarrow> map_of heap sid \<noteq> None) \<and>
     (\<forall>sid w. map_of (sr_sessions r) sid = Some w \<longrightarrow> w = sid)"

definition svc_ok :: "p2p_service \<Rightarrow> bool" where
  "svc_ok st \<longleftrightarrow> dispatcher_ok (length (sv_reactors st)) (sv_dispatcher st) \<and> heap_ok (sv_heap st) \<and>
     list_all (reactor_ok (sv_heap st)) (sv_reactors st)"

lemma dispatcher_ok_new: "2 \<le> n \<Longrightarrow> dispatcher_ok n (SessionDispatcher_new n)"
  by (cases n) (auto simp: dispatcher_ok_def SessionDispatcher_new_def)

lemma dispatch_index_ok:
  "dispatcher_ok n d \<Longrightarrow> dispatch_index sid d = Inr (0, d\<lparr>sd_relation := AList.update sid 0 (sd_relation d)\<rparr>)"
  by (auto simp: dispatcher_ok_def dispatch_index_def foldl_min_zero Let_def)

lemma dispatch_index_keeps:
  "dispatcher_ok n d \<Longrightarrow> dispatcher_ok n (d\<lparr>sd_relation := AList.update sid 0 (sd_relation d)\<rparr>)"
  by (auto simp: dispatcher_ok_def alist_simps split: if_splits)

lemma dispatch_count_ok:
  assumes "dispatcher_ok n d"
  shows "\<exists>d'. dispatch_count 0 d = Inr d' \<and> dispatcher_ok n d' \<and> sd_relation d' = sd_relation d"
  using assms by (auto simp: dispatcher_ok_def dispatch_count_def)

lemma relation_remove_ok:
  "dispatcher_ok n d \<Longrightarrow> dispatcher_ok n (snd (removeSessionIdSlaveReactorRelation sid d))"
  by (auto simp: removeSessionIdSlaveReactorRelation_def dispatcher_ok_def alist_simps split: if_splits)

lemma dispatch_one_ok:
  assumes "dispatcher_ok n d"
  shows "\<exists>d'. dispatch_one sid d = Inr (0, d') \<and> dispatcher_ok n d' \<and>
    sd_relation d' = AList.update sid 0 (sd_relation d)"
proof -
  obtain d' where "dispatch_count 0 (d\<lparr>sd_relation := AList.update sid 0 (sd_relation d)\<rparr>) = Inr d'"
    "dispatcher_ok n d'" "sd_relation d' = AList.update sid 0 (sd_relation d)"
    using dispatch_count_ok [OF dispatch_index_keeps [OF assms, of sid]] by auto
  then show ?thesis using dispatch_index_ok [OF assms] by (simp add: dispatch_one_def)
qed

lemma svc_okD:
  assumes "svc_ok st"
  shows "dispatcher_ok (length (sv_reactors st)) (sv_dispatcher st)" "heap_ok (sv_heap st)"
    "sv_reactors st \<noteq> []" "slaveReactor 0 st = Some (sv_reactors st ! 0)"
    "reactor_ok (sv_heap st) (sv_reactors st ! 0)"
    "\<And>i. i < length (sv_reactors st) \<Longrightarrow> reactor_ok (sv_heap st) (sv_reactors st ! i)"
proof -
  show d: "dispatcher_ok (length (sv_reactors st)) (sv_dispatcher st)" and "heap_ok (sv_heap st)"
    using assms by (simp_all add: svc_ok_def)
  have n: "0 < length (sv_reactors st)" using d by (auto simp: dispatcher_ok_def)
  then show "sv_reactors st \<noteq> []" "slaveReactor 0 st = Some (sv_reactors st ! 0)"
    by (simp_all add: slaveReactor_def)
  show r: "i < length (sv_reactors st) \<Longrightarrow> reactor_ok (sv_heap st) (sv_reactors st ! i)" for i
    using assms by (simp add: svc_ok_def list_all_length)
  show "reactor_ok (sv_heap st) (sv_reactors st ! 0)" using r n by blast
qed

lemma svc_ok_new: "2 \<le> n \<Longrightarrow> svc_ok (P2PService_new n self host infos)"
  by (simp add: svc_ok_def P2PService_new_def dispatcher_ok_new SlaveReactorPool_new_def heap_ok_def
      list_all_length reactor_ok_def SlaveReactor_new_def held_def)

text \<open>What does not touch heap, reactors and dispatcher keeps the invariant.\<close>

lemma svc_ok_frame:
  "sv_heap st' = sv_heap st \<Longrightarrow> sv_reactors st' = sv_reactors st \<Longrightarrow> sv_dispatcher st' = sv_dispatcher st \<Longrightarrow>
   svc_ok st' = svc_ok st"
  by (simp add: svc_ok_def)

lemma svc_ok_set_session:
  assumes "svc_ok st" and "ps_slaveReactorIndex s = 0"
  shows "svc_ok (set_session s st)"
  using assms by (auto simp: svc_ok_def set_session_def heap_ok_def reactor_ok_def alist_simps list_all_length)

lemma svc_ok_set_reactor:
  assumes "svc_ok st" and "reactor_ok (sv_heap st) r"
  shows "svc_ok (set_reactor i r st)"
proof -
  have "list_all (reactor_ok (sv_heap st)) ((sv_reactors st)[unat i := r])"
    using assms set_update_subset_insert [of "sv_reactors st" "unat i" r] by (auto simp: list_all_iff svc_ok_def)
  with assms(1) show ?thesis by (simp add: svc_ok_def set_reactor_def)
qed

lemma svc_ok_release:
  assumes "svc_ok st"
  shows "svc_ok (release sid st)"
  using assms
  by (fastforce simp: svc_ok_def release_def heap_ok_def reactor_ok_def alist_simps list_all_length list_ex_length)

lemma release_frame [simp]:
  "sv_reactors (release sid st) = sv_reactors st" "sv_dispatcher (release sid st) = sv_dispatcher st"
  "sv_hostsInfo (release sid st) = sv_hostsInfo st" "sv_alive (release sid st) = sv_alive st"
  by (simp_all add: release_def)


section \<open>Sending never faults\<close>

text \<open>Appending a task for a session that is alive, or changing nothing, keeps a reactor good.\<close>

lemma sr_sendData_ok:
  assumes "reactor_ok heap r"
  shows "reactor_ok heap (snd (sr_sendData heap sid data r))"
  using assms
  by (auto simp: sr_sendData_def sr_getP2PSession_def reactor_ok_def held_def split: option.splits)

lemma svc_sendData_ok:
  assumes "svc_ok st"
  shows "\<exists>ret st'. svc_sendData sid data st = Inr (ret, st') \<and> svc_ok st' \<and> sv_hostsInfo st' = sv_hostsInfo st \<and>
    sv_heap st' = sv_heap st \<and> sv_destroyer st' = sv_destroyer st \<and> sv_alive st' = sv_alive st \<and>
    sv_dispatcher st' = sv_dispatcher st \<and> sv_connecting st' = sv_connecting st \<and> sv_nodeId st' = sv_nodeId st"
proof (cases "map_of (sd_relation (sv_dispatcher st)) sid")
  case None
  then show ?thesis using assms by (auto simp: svc_sendData_def getSlaveReactorIndexBySessionId_def)
next
  case (Some i)
  then have "i = 0" using svc_okD(1) [OF assms] by (auto simp: dispatcher_ok_def)
  with Some svc_okD(4) [OF assms] have eq: "svc_sendData sid data st =
      Inr (if fst (sr_sendData (sv_heap st) sid data (sv_reactors st ! 0)) \<noteq> 0 then -1 else 0,
           set_reactor 0 (snd (sr_sendData (sv_heap st) sid data (sv_reactors st ! 0))) st)"
    by (simp add: svc_sendData_def getSlaveReactorIndexBySessionId_def Let_def split_beta)
  have "svc_ok (set_reactor 0 (snd (sr_sendData (sv_heap st) sid data (sv_reactors st ! 0))) st)"
    by (rule svc_ok_set_reactor [OF assms sr_sendData_ok [OF svc_okD(5) [OF assms]]])
  with eq show ?thesis by (simp add: set_reactor_def)
qed

text \<open>A computation that returns, in a state that satisfies the invariant.\<close>

definition safe :: "p2p_service run \<Rightarrow> bool" where
  "safe r \<longleftrightarrow> (\<exists>st'. r = Inr st' \<and> svc_ok st')"

lemma safe_Inr [simp]: "safe (Inr st) \<longleftrightarrow> svc_ok st"
  by (simp add: safe_def)

lemma safe_Inl [simp]: "\<not> safe (Inl e)"
  by (simp add: safe_def)

lemma safe_sendData:
  assumes "svc_ok st" and "\<And>ret st'. svc_ok st' \<Longrightarrow> sv_hostsInfo st' = sv_hostsInfo st \<Longrightarrow> safe (f (ret, st'))"
  shows "safe (and_then (svc_sendData sid data st) f)"
  using svc_sendData_ok [OF assms(1), of sid data] assms(2) by auto

lemma safe_send_each: "svc_ok st \<Longrightarrow> safe (send_each hosts buffer st)"
  by (induction hosts buffer st rule: send_each.induct) (auto intro!: safe_sendData)

lemma encode_packet_Inr:
  assumes "pb_small pb"
  obtains bytes where "encode_packet pb p = Inr bytes"
  using encode_packet_bytes [OF pb_smallD [OF assms], of p] by auto

lemma safe_encode:
  "pb_small pb \<Longrightarrow> (\<And>b. safe (f b)) \<Longrightarrow> safe (and_then (encode_packet pb p) f)"
  by (rule encode_packet_Inr [of pb p]) auto

lemma safe_broadcast:
  assumes "svc_ok st" "length data < 2 ^ 32"
  shows "safe (and_then (boardcastModuleMessage m data st) (\<lambda>(_, st1). Inr st1))"
proof -
  obtain buffer where b: "encode_module m data = Inr buffer" using encode_module_bytes [OF assms(2)] by blast
  then show ?thesis
    using safe_send_each [OF assms(1), of "getAllHosts (sv_hostsInfo st)" buffer]
    by (auto simp: boardcastModuleMessage_def safe_def)
qed

lemma safe_sendTo:
  assumes "svc_ok st" "length data < 2 ^ 32"
  shows "safe (and_then (sendModuleMessageByNodeId n m data st) (\<lambda>(_, st1). Inr st1))"
  using assms
  by (auto simp: sendModuleMessageByNodeId_def encode_module_bytes and_then_assoc
      intro!: safe_sendData split: option.split)

lemma safe_distance:
  "svc_ok st \<Longrightarrow> safe (and_then (distance_sender n data st) (\<lambda>(_, st1). Inr st1))"
  by (auto simp: distance_sender_def intro!: safe_sendData split: option.split)

lemma safe_heartbeat: "svc_ok st \<Longrightarrow> safe (heartbeat_round now hosts st)"
  by (induction now hosts st rule: heartbeat_round.induct)
    (auto simp: heartbeat_sender_def encode_empty_bytes and_then_assoc intro!: safe_sendData split: option.split)


section \<open>The session life cycle keeps the invariant\<close>

lemma slaveReactor_release [simp]: "slaveReactor i (release sid st) = slaveReactor i st"
  by (simp add: slaveReactor_def)

lemma not_held_fresh:
  assumes "svc_ok st" "map_of (sv_heap st) sid = None"
  shows "\<not> list_ex (held sid) (sv_reactors st)"
  using assms by (fastforce simp: svc_ok_def list_ex_iff list_all_iff reactor_ok_def)

lemma reactor_ok_heap_mono:
  "reactor_ok heap r \<Longrightarrow> (\<And>sid. map_of heap sid \<noteq> None \<Longrightarrow> map_of heap' sid \<noteq> None) \<Longrightarrow> reactor_ok heap' r"
  by (auto simp: reactor_ok_def)

lemma reactor_ok_add:
  "reactor_ok heap r \<Longrightarrow> map_of heap sid \<noteq> None \<Longrightarrow> reactor_ok heap (snd (sr_addSession ok sid r))"
  by (auto simp: sr_addSession_def reactor_ok_def held_def alist_simps split: if_splits)

lemma reactor_ok_remove: "reactor_ok heap r \<Longrightarrow> reactor_ok heap (snd (sr_removeClient ok sid r))"
  by (auto simp: sr_removeClient_def reactor_ok_def held_def alist_simps split: if_splits)

text \<open>A new session is put into the heap, assigned, and either registered or let go.\<close>

lemma svc_ok_drop_new:
  assumes "svc_ok st" "map_of (sv_heap st) (ps_sessionId s) = None" "dispatcher_ok (length (sv_reactors st)) d"
  shows "svc_ok (release (ps_sessionId s) ((set_session s st)\<lparr>sv_dispatcher := d\<rparr>))"
proof -
  have nh: "\<not> list_ex (held (ps_sessionId s)) (sv_reactors st)" using not_held_fresh [OF assms(1,2)] .
  have "map_of (AList.delete (ps_sessionId s) (AList.update (ps_sessionId s) s (sv_heap st))) =
      map_of (sv_heap st)"
    using assms(2) by (auto simp: alist_simps)
  moreover from this have "reactor_ok (AList.delete (ps_sessionId s) (AList.update (ps_sessionId s) s (sv_heap st))) =
      reactor_ok (sv_heap st)"
    by (simp add: reactor_ok_def fun_eq_iff)
  ultimately show ?thesis
    using nh assms(1,3) by (simp add: release_def set_session_def svc_ok_def heap_ok_def)
qed

lemma svc_ok_register_new:
  assumes "svc_ok st" "dispatcher_ok (length (sv_reactors st)) d"
  shows "svc_ok (set_session (s\<lparr>ps_slaveReactorIndex := 0\<rparr>) (set_reactor 0
    (snd (sr_addSession ok (ps_sessionId s) (sv_reactors st ! 0))) ((set_session s st)\<lparr>sv_dispatcher := d\<rparr>)))"
proof -
  let ?heap = "AList.update (ps_sessionId s) (s\<lparr>ps_slaveReactorIndex := 0\<rparr>)
      (AList.update (ps_sessionId s) s (sv_heap st))"
  let ?r = "snd (sr_addSession ok (ps_sessionId s) (sv_reactors st ! 0))"
  have mono: "reactor_ok (sv_heap st) r \<Longrightarrow> reactor_ok ?heap r" for r
    by (erule reactor_ok_heap_mono) (auto simp: alist_simps)
  have "reactor_ok ?heap ?r"
    by (rule reactor_ok_add [OF mono [OF svc_okD(5) [OF assms(1)]]]) (simp add: alist_simps)
  moreover have "list_all (reactor_ok ?heap) (sv_reactors st)"
    using assms(1) mono by (auto simp: svc_ok_def list_all_iff)
  ultimately have "list_all (reactor_ok ?heap) ((sv_reactors st)[0 := ?r])"
    using set_update_subset_insert [of "sv_reactors st" 0 ?r] by (auto simp: list_all_iff)
  moreover have "heap_ok ?heap"
    using svc_okD(2) [OF assms(1)] by (auto simp: heap_ok_def alist_simps)
  ultimately show ?thesis
    using assms(2) by (simp add: svc_ok_def set_session_def set_reactor_def)
qed

lemma svc_ok_dispatcher:
  "svc_ok st \<Longrightarrow> dispatcher_ok (length (sv_reactors st)) d \<Longrightarrow> svc_ok (st\<lparr>sv_dispatcher := d\<rparr>)"
  by (simp add: svc_ok_def)

lemma svc_ok_alive [simp]: "svc_ok (st\<lparr>sv_alive := a\<rparr>) = svc_ok st"
  by (simp add: svc_ok_def)

lemma svc_ok_hostsInfo [simp]: "svc_ok (st\<lparr>sv_hostsInfo := a\<rparr>) = svc_ok st"
  by (simp add: svc_ok_def)

lemma svc_ok_connecting [simp]: "svc_ok (st\<lparr>sv_connecting := a\<rparr>) = svc_ok st"
  by (simp add: svc_ok_def)

lemma svc_ok_destroyer [simp]: "svc_ok (st\<lparr>sv_destroyer := a\<rparr>) = svc_ok st"
  by (simp add: svc_ok_def)

lemma svc_ok_queues [simp]:
  "svc_ok (st\<lparr>sv_serviceQueue := a\<rparr>) = svc_ok st" "svc_ok (st\<lparr>sv_moduleQueue := a\<rparr>) = svc_ok st"
  "svc_ok (st\<lparr>sv_delivered := c\<rparr>) = svc_ok st"
  by (simp_all add: svc_ok_def)

lemma safe_newClient:
  assumes ok: "svc_ok st" and fresh: "map_of (sv_heap st) (ps_sessionId s) = None"
  shows "safe (newClientCallback epoll_ok s st)"
proof -
  let ?d = "(sv_dispatcher st)\<lparr>sd_relation := AList.update (ps_sessionId s) 0 (sd_relation (sv_dispatcher st))\<rparr>"
  let ?st1 = "(set_session s st)\<lparr>sv_dispatcher := ?d\<rparr>"
  note d = svc_okD(1) [OF ok]
  have d1: "dispatch_index (ps_sessionId s) (sv_dispatcher st) = Inr (0, ?d)"
    by (rule dispatch_index_ok [OF d])
  have dok: "dispatcher_ok (length (sv_reactors st)) ?d" by (rule dispatch_index_keeps [OF d])
  have r: "slaveReactor 0 ?st1 = Some (sv_reactors st ! 0)"
    using svc_okD(4) [OF ok] by (simp add: slaveReactor_def set_session_def split: if_splits)
  have count: "safe (and_then (dispatch_count 0 (sv_dispatcher st2)) (\<lambda>d2. Inr (st2\<lparr>sv_dispatcher := d2\<rparr>)))"
    if "svc_ok st2" for st2
    using dispatch_count_ok [OF svc_okD(1) [OF that]] svc_ok_dispatcher [OF that] by auto
  show ?thesis
  proof (cases "fst (sr_addSession epoll_ok (ps_sessionId s) (sv_reactors st ! 0)) = -1")
    case True
    then show ?thesis
      using count [OF svc_ok_drop_new [OF ok fresh dok]] d1 r
      by (simp add: newClientCallback_def Let_def split_beta)
  next
    case False
    let ?st3 = "set_session (s\<lparr>ps_slaveReactorIndex := 0\<rparr>) (set_reactor 0
        (snd (sr_addSession epoll_ok (ps_sessionId s) (sv_reactors st ! 0))) ?st1)"
    have "svc_ok (?st3\<lparr>sv_alive := snd (alive_addSession (ps_sessionId s) (ps_sessionId s) (sv_alive ?st3))\<rparr>)"
      using svc_ok_register_new [OF ok dok] by simp
    from count [OF this] False show ?thesis
      using d1 r by (simp add: newClientCallback_def Let_def split_beta)
  qed
qed

lemma safe_connect:
  assumes ok: "svc_ok st" and fresh: "map_of (sv_heap st) (ps_sessionId s) = None" and pb: "pb_small pb"
  shows "safe (connectHandler pb epoll_ok s st)"
proof -
  obtain d where d: "dispatch_one (ps_sessionId s) (sv_dispatcher st) = Inr (0, d)"
    "dispatcher_ok (length (sv_reactors st)) d"
    using dispatch_one_ok [OF svc_okD(1) [OF ok], of "ps_sessionId s"] by blast
  let ?st1 = "(set_session s st)\<lparr>sv_dispatcher := d\<rparr>"
  have drop: "svc_ok (release (ps_sessionId s) ?st1)" by (rule svc_ok_drop_new [OF ok fresh d(2)])
  have drop2: "svc_ok (release (ps_sessionId s) (?st1\<lparr>sv_alive := a\<rparr>))" for a
    using drop by (auto simp: release_def svc_ok_def set_session_def split: if_splits)
  have r: "slaveReactor 0 (?st1\<lparr>sv_alive := a\<rparr>) = Some (sv_reactors st ! 0)" for a
    using svc_okD(4) [OF ok] by (simp add: slaveReactor_def set_session_def split: if_splits)
  have reg: "svc_ok (set_session (s\<lparr>ps_slaveReactorIndex := 0\<rparr>) (set_reactor 0
      (snd (sr_addSession epoll_ok (ps_sessionId s) (sv_reactors st ! 0))) (?st1\<lparr>sv_alive := a\<rparr>)))" for a
    using svc_ok_register_new [OF ok d(2), of s epoll_ok] by (simp add: svc_ok_def set_session_def set_reactor_def)
  show ?thesis
    using d(1) drop drop2 r reg
    by (auto simp: connectHandler_def Let_def split_beta intro!: safe_sendData safe_encode [OF pb])
qed

lemma svc_ok_timeouts: "svc_ok (timeoutHandler sessions st) = svc_ok st"
  by (induction sessions st rule: timeoutHandler.induct) (simp_all add: destroyer_addSessions_def)

lemma alive_pass_heap:
  "map_of (snd (snd (alive_pass m heap))) w = None \<longleftrightarrow> map_of heap w = None"
  "map_of (snd (snd (alive_pass m heap))) w = Some s' \<Longrightarrow>
     \<exists>s. map_of heap w = Some s \<and> ps_sessionId s' = ps_sessionId s \<and> ps_slaveReactorIndex s' = ps_slaveReactorIndex s"
proof (induction m arbitrary: heap)
  case (Cons p m)
  obtain sid w0 where p: "p = (sid, w0)" by (cases p)
  {
    case 1
    show ?case
      using Cons.IH(1)
      by (auto simp: p isHeartbeatTimeout_def Let_def split_beta alist_simps split: option.splits)
  next
    case 2
    show ?case
    proof (cases "map_of heap w0")
      case None
      then show ?thesis using 2 Cons.IH(2) by (simp add: p)
    next
      case (Some s0)
      have "map_of (snd (snd (alive_pass m (AList.update w0 (snd (isHeartbeatTimeout s0)) heap)))) w = Some s'"
        using 2 Some by (simp add: p Let_def split_beta split: if_splits)
      from Cons.IH(2) [OF this] Some show ?thesis
        by (auto simp: isHeartbeatTimeout_def alist_simps split: if_splits)
    qed
  }
qed simp_all

lemma svc_ok_aliveTick: "svc_ok st \<Longrightarrow> svc_ok (alive_tick st)"
proof -
  assume ok: "svc_ok st"
  let ?h = "snd (snd (alive_pass (sv_alive st) (sv_heap st)))"
  have "heap_ok ?h"
    using svc_okD(2) [OF ok] alive_pass_heap(2) [of "sv_alive st" "sv_heap st"] by (fastforce simp: heap_ok_def)
  moreover have "reactor_ok (sv_heap st) r \<Longrightarrow> reactor_ok ?h r" for r
    by (erule reactor_ok_heap_mono) (simp add: alive_pass_heap(1))
  ultimately show ?thesis
    using ok unfolding alive_tick_def Let_def split_beta svc_ok_timeouts
    by (simp add: svc_ok_def list_all_iff)
qed

lemma svc_ok_tasksDone: "svc_ok st \<Longrightarrow> svc_ok (tasks_done i st)"
proof -
  assume ok: "svc_ok st"
  have f: "svc_ok st' \<Longrightarrow> svc_ok (fold release sids st')" for sids st'
    by (induction sids arbitrary: st') (simp_all add: svc_ok_release)
  have "reactor_ok (sv_heap st) ((sv_reactors st ! i)\<lparr>sr_sendTasks := []\<rparr>)" if "i < length (sv_reactors st)"
    using svc_okD(6) [OF ok that] by (auto simp: reactor_ok_def held_def)
  then show ?thesis
    using ok f svc_ok_set_reactor [OF ok] by (simp add: tasks_done_def Let_def)
qed

section \<open>The faults of the service\<close>

text \<open>A node is connected when its session is still assigned and in the reactor's table.\<close>

definition connected :: "node_id \<Rightarrow> p2p_service \<Rightarrow> bool" where
  "connected n st =
     (case getSessionId n (sv_hostsInfo st) of
        None \<Rightarrow> False
      | Some sid \<Rightarrow> map_of (sd_relation (sv_dispatcher st)) sid \<noteq> None \<and>
          sr_getP2PSession sid (sv_reactors st ! 0) \<noteq> None)"

text \<open>The next packet of the service queue makes its handler fail.\<close>

definition service_fault :: "p2p_service \<Rightarrow> bool" where
  "service_fault st =
     (case sv_serviceQueue st of
        [] \<Rightarrow> False
      | (sid, p) # _ \<Rightarrow>
          lock_session sid st \<noteq> None \<and>
          (case header_type (fst p) of
             PT_ClientInfo \<Rightarrow> (case snd p of Some (Pl_ClientInfo _) \<Rightarrow> False | _ \<Rightarrow> True)
           | PT_ClientInfoReply \<Rightarrow>
               (case snd p of
                  Some (Pl_ClientInfoReply m) \<Rightarrow> sint (cir_result m) = -4 \<and> \<not> connected (cir_nodeId m) st
                | _ \<Rightarrow> True)
           | _ \<Rightarrow> False))"

definition module_fault :: "p2p_service \<Rightarrow> bool" where
  "module_fault st =
     (case sv_moduleQueue st of
        [] \<Rightarrow> False
      | (sid, p) # _ \<Rightarrow>
          header_type (fst p) = PT_ModuleMessage \<and> lock_session sid st \<noteq> None \<and>
          map_of (sv_moduleHandlers st) (m_moduleId (fst p)) \<noteq> None \<and>
          (case snd p of Some (Pl_ModuleMessage _) \<Rightarrow> False | _ \<Rightarrow> True))"

definition destroy_fault :: "p2p_service \<Rightarrow> bool" where
  "destroy_fault st =
     (case sv_destroyer st of [] \<Rightarrow> False | info # _ \<Rightarrow> lock_session (di_session info) st = None)"

fun step_fault :: "p2p_event \<Rightarrow> p2p_service \<Rightarrow> bool" where
  "step_fault ServiceTurn st = service_fault st"
| "step_fault ModuleTurn st = module_fault st"
| "step_fault (DestroyTurn ok) st = destroy_fault st"
| "step_fault _ st = False"

text \<open>\<open>faults_iff P r\<close>: \<open>r\<close> faults exactly when \<open>P\<close>, and otherwise ends in a good state.\<close>

definition faults_iff :: "bool \<Rightarrow> p2p_service run \<Rightarrow> bool" where
  "faults_iff P r \<longleftrightarrow> (if P then \<exists>e. r = Inl e else safe r)"

lemma safe_faults_iff: "faults_iff False r = safe r"
  by (simp add: faults_iff_def)

lemma session_keeps:
  assumes "svc_ok st" "lock_session sid st = Some s"
  shows "ps_slaveReactorIndex s = 0" "ps_sessionId s = sid"
  using svc_okD(2) [OF assms(1)] assms(2) by (auto simp: heap_ok_def lock_session_def)

lemma connected_frame:
  "sv_hostsInfo st' = sv_hostsInfo st \<Longrightarrow> sv_dispatcher st' = sv_dispatcher st \<Longrightarrow>
   sv_reactors st' = sv_reactors st \<Longrightarrow> connected n st' = connected n st"
  by (simp add: connected_def cong: option.case_cong)

lemma safe_onHeartBeat:
  "svc_ok st \<Longrightarrow> safe (and_then (onHeartBeat sid st) (\<lambda>(_, st1). Inr st1))"
  by (auto simp: onHeartBeat_def encode_empty_bytes refreshHeartbeat_def session_keeps
      intro!: safe_sendData svc_ok_set_session split: option.split)

lemma safe_onHeartBeatReply:
  "svc_ok st \<Longrightarrow> safe (and_then (onHeartBeatReply sid st) (\<lambda>(_, st1). Inr st1))"
  by (auto simp: onHeartBeatReply_def refreshHeartbeat_def session_keeps
      intro!: svc_ok_set_session split: option.split)

lemma svc_ok_client_info_result: "svc_ok st \<Longrightarrow> svc_ok (snd (client_info_result n sid st))"
  by (simp add: client_info_result_def Let_def split_beta)

lemma svc_ok_reply_accepted: "svc_ok st \<Longrightarrow> svc_ok (snd (reply_accepted sid host n st))"
  by (simp add: reply_accepted_def Let_def split_beta queue_destroy_def svc_ok_def split: option.split)

lemma rename_other_faults:
  assumes "svc_ok st"
  shows "if connected (cir_nodeId m) st then \<exists>st'. rename_other junk m st = Inr st' \<and> svc_ok st'
    else \<exists>e. rename_other junk m st = Inl e"
proof (cases "getSessionId (cir_nodeId m) (sv_hostsInfo st)")
  case None
  then show ?thesis by (simp add: connected_def rename_other_def)
next
  case (Some other)
  have rel: "map_of (sd_relation (sv_dispatcher st)) other = Some i \<Longrightarrow> i = 0" for i
    using svc_okD(1) [OF assms] by (auto simp: dispatcher_ok_def)
  note r = svc_okD(4) [OF assms]
  have alive: "sr_getP2PSession other (sv_reactors st ! 0) = Some w \<Longrightarrow>
      w = other \<and> (\<exists>s. lock_session other st = Some s)" for w
    using svc_okD(5) [OF assms] by (auto simp: reactor_ok_def held_def sr_getP2PSession_def lock_session_def)
  show ?thesis
  proof (cases "connected (cir_nodeId m) st")
    case True
    then obtain i w where "map_of (sd_relation (sv_dispatcher st)) other = Some i"
      "sr_getP2PSession other (sv_reactors st ! 0) = Some w"
      by (auto simp: connected_def Some)
    with rel alive r Some True session_keeps [OF assms] show ?thesis
      by (auto simp: rename_other_def svc_getP2PSession_def getSlaveReactorIndexBySessionId_def
          intro!: svc_ok_set_session [OF assms])
  next
    case False
    then consider "map_of (sd_relation (sv_dispatcher st)) other = None"
      | i where "map_of (sd_relation (sv_dispatcher st)) other = Some i"
        "sr_getP2PSession other (sv_reactors st ! 0) = None"
      by (auto simp: connected_def Some)
    then show ?thesis
      using rel r Some False
      by cases (auto simp: rename_other_def svc_getP2PSession_def getSlaveReactorIndexBySessionId_def)
  qed
qed


lemma faults_iff_service:
  assumes ok: "svc_ok st" and pb: "pb_small pb"
  shows "faults_iff (service_fault st) (service_turn pb junk st)"
proof (cases "sv_serviceQueue st")
  case Nil
  then show ?thesis using ok by (simp add: faults_iff_def service_fault_def service_turn_def)
next
  case (Cons q rest)
  obtain sid h pl where q: "q = (sid, h, pl)" by (metis prod_cases3)
  let ?st = "st\<lparr>sv_serviceQueue := rest\<rparr>"
  have ok': "svc_ok ?st" using ok by simp
  have lock: "lock_session sid ?st = lock_session sid st" by (simp add: lock_session_def)
  have turn: "service_turn pb junk st = service_handler pb junk sid (h, pl) ?st"
    by (simp add: service_turn_def Cons q)
  show ?thesis
  proof (cases "lock_session sid st")
    case None
    then show ?thesis
      using ok' by (simp add: faults_iff_def service_fault_def turn Cons q service_handler_def onHeartBeat_def
          onHeartBeatReply_def onClientInfo_def onClientInfoReply_def lock split: packet_type.split)
  next
    case (Some s)
    note idx = session_keeps [OF ok Some]
    have safe_ci: "safe (and_then (onClientInfo pb junk sid (Some (Pl_ClientInfo m)) ?st) (\<lambda>(_, st1). Inr st1))" for m
    proof -
      have "svc_ok (snd (client_info_result (ci_nodeId m) sid (set_session (s\<lparr>ps_nodeId := ci_nodeId m\<rparr>) ?st)))"
        by (intro svc_ok_client_info_result svc_ok_set_session ok') (simp add: idx)
      then show ?thesis
        by (auto simp: onClientInfo_def lock Some Let_def split_beta and_then_assoc
            intro!: safe_encode [OF pb] safe_sendData)
    qed
    have iff_cir: "faults_iff (sint (cir_result m) = -4 \<and> \<not> connected (cir_nodeId m) st)
      (and_then (onClientInfoReply junk sid (Some (Pl_ClientInfoReply m)) ?st) (\<lambda>(_, st1). Inr st1))" for m
    proof -
      let ?st1 = "set_session (s\<lparr>ps_nodeId := cir_nodeId m\<rparr>) ?st"
      have ok1: "svc_ok ?st1" by (intro svc_ok_set_session ok') (simp add: idx)
      have "connected (cir_nodeId m) ?st1 = connected (cir_nodeId m) st"
        by (rule connected_frame) (simp_all add: set_session_def)
      with rename_other_faults [OF ok1, of m junk] svc_ok_reply_accepted [OF ok1, of sid "ps_peerHost s" "cir_nodeId m"] ok1
      show ?thesis
        by (auto simp: onClientInfoReply_def lock Some Let_def faults_iff_def safe_def
            split_beta destroyer_addSessions_def split: if_splits)
    qed
    have null: "\<exists>e. and_then (onClientInfo pb junk sid p ?st) (\<lambda>(_, st1). Inr st1) = Inl e"
      if "\<And>m. p \<noteq> Some (Pl_ClientInfo m)" for p
      using that by (auto simp: onClientInfo_def lock Some split: option.split payload.split)
    have nullr: "\<exists>e. and_then (onClientInfoReply junk sid p ?st) (\<lambda>(_, st1). Inr st1) = Inl e"
      if "\<And>m. p \<noteq> Some (Pl_ClientInfoReply m)" for p
      using that by (auto simp: onClientInfoReply_def lock Some split: option.split payload.split)
    consider (hb) "header_type h = PT_HeartBeat" | (ci) "header_type h = PT_ClientInfo"
      | (cir) "header_type h = PT_ClientInfoReply" | (hbr) "header_type h = PT_HeartBeatReply"
      | (other) "header_type h \<notin> {PT_HeartBeat, PT_ClientInfo, PT_ClientInfoReply, PT_HeartBeatReply}"
      by auto
    then show ?thesis
    proof cases
      case hb
      then show ?thesis using safe_onHeartBeat [OF ok', of sid]
        by (simp add: faults_iff_def service_fault_def turn Cons q service_handler_def)
    next
      case hbr
      then show ?thesis using safe_onHeartBeatReply [OF ok', of sid]
        by (simp add: faults_iff_def service_fault_def turn Cons q service_handler_def)
    next
      case ci
      then show ?thesis using safe_ci null [of pl] Some
        by (cases "\<exists>m. pl = Some (Pl_ClientInfo m)")
          (auto simp: faults_iff_def service_fault_def turn Cons q service_handler_def
            split: option.split payload.split)
    next
      case cir
      then show ?thesis using iff_cir nullr [of pl] Some
        by (cases "\<exists>m. pl = Some (Pl_ClientInfoReply m)")
          (auto simp: faults_iff_def service_fault_def turn Cons q service_handler_def
            split: option.split payload.split)
    next
      case other
      then show ?thesis using ok'
        by (cases "header_type h") (simp_all add: faults_iff_def service_fault_def turn Cons q service_handler_def)
    qed
  qed
qed


lemma faults_iff_module: "svc_ok st \<Longrightarrow> faults_iff (module_fault st) (module_turn st)"
  by (auto simp: faults_iff_def module_fault_def module_turn_def onModuleMessage_def Let_def lock_session_def
      split: list.split option.split payload.split)

lemma svc_ok_disconnectClient: "svc_ok (disconnectClient host n flag sid st) = svc_ok st"
  by (simp add: disconnectClient_def Let_def)

lemma disconnectClient_frame [simp]:
  "sv_dispatcher (disconnectClient host n flag sid st) = sv_dispatcher st"
  "sv_reactors (disconnectClient host n flag sid st) = sv_reactors st"
  "sv_heap (disconnectClient host n flag sid st) = sv_heap st"
  "sv_alive (disconnectClient host n flag sid st) = sv_alive st"
  by (simp_all add: disconnectClient_def Let_def)

lemma destroyHandler_result:
  assumes "svc_ok st" "lock_session (di_session info) st = Some s"
  shows "\<exists>st'. destroyHandler epoll_ok info st = Inr st' \<and> svc_ok st'"
proof -
  note idx = session_keeps [OF assms]
  let ?s = "s\<lparr>ps_isWaitingDisconnect := True\<rparr>"
  have ok1: "svc_ok (set_session ?s st)" by (rule svc_ok_set_session [OF assms(1)]) (simp add: idx)
  let ?st2 = "if di_isFromAliveChecker info then set_session ?s st
      else (set_session ?s st)\<lparr>sv_alive := snd (alive_removeSession (ps_sessionId s) (sv_alive (set_session ?s st)))\<rparr>"
  have ok2: "svc_ok ?st2" using ok1 by simp
  let ?st3 = "set_reactor 0 (snd (sr_removeClient epoll_ok (ps_sessionId s) (sv_reactors ?st2 ! 0))) ?st2"
  have ok3: "svc_ok ?st3" by (rule svc_ok_set_reactor [OF ok2 reactor_ok_remove [OF svc_okD(5) [OF ok2]]])
  let ?st4 = "disconnectClient (ps_peerHost s) (ps_nodeId s) (di_flag info) (ps_sessionId s) ?st3"
  have ok4: "svc_ok ?st4" using ok3 by (simp add: svc_ok_disconnectClient)
  have "dispatcher_ok (length (sv_reactors ?st4))
      (snd (removeSessionIdSlaveReactorRelation (ps_sessionId s) (sv_dispatcher ?st4)))"
    by (rule relation_remove_ok [OF svc_okD(1) [OF ok4]])
  from svc_ok_release [OF svc_ok_dispatcher [OF ok4 this]] show ?thesis
    using assms(2) svc_okD(4) [OF ok2] by (simp add: destroyHandler_def Let_def idx(1))
qed

lemma faults_iff_destroy: "svc_ok st \<Longrightarrow> faults_iff (destroy_fault st) (destroy_next epoll_ok st)"
proof (cases "sv_destroyer st")
  case (Cons info rest)
  assume ok: "svc_ok st"
  let ?st = "st\<lparr>sv_destroyer := rest\<rparr>"
  have l: "lock_session w ?st = lock_session w st" for w by (simp add: lock_session_def)
  show ?thesis
    using destroyHandler_result [of ?st info _ epoll_ok] ok
    by (cases "lock_session (di_session info) st")
      (auto simp: faults_iff_def destroy_fault_def destroy_next_def destroyer_pop_def Cons l safe_def
        destroyHandler_def)
qed (simp add: faults_iff_def destroy_fault_def destroy_next_def destroyer_pop_def)

lemma faults_iff_step:
  assumes ok: "svc_ok st" and pb: "pb_small pb" and ev: "event_ok e st"
  shows "faults_iff (step_fault e st) (p2p_step pb junk e st)"
proof (cases e)
  case ServiceTurn
  then show ?thesis using faults_iff_service [OF ok pb] by simp
next
  case ModuleTurn
  then show ?thesis using faults_iff_module [OF ok] by simp
next
  case (DestroyTurn b)
  then show ?thesis using faults_iff_destroy [OF ok] by simp
next
  case (HeartbeatRound now)
  then show ?thesis using safe_heartbeat [OF ok] by (simp add: faults_iff_def HostsHeartbeatService_run_def)
qed (use ok ev in \<open>simp_all add: faults_iff_def safe_newClient safe_connect pb route_packet_def
      disconnectHandler_def queue_destroy_def svc_ok_aliveTick safe_broadcast safe_sendTo safe_distance
      svc_ok_tasksDone\<close>)

lemma p2p_reachable_ok: "p2p_reachable pb junk st \<Longrightarrow> pb_small pb \<Longrightarrow> svc_ok st"
proof (induction rule: p2p_reachable.induct)
  case (step st e st')
  then show ?case
    using faults_iff_step [OF step.IH [OF step.prems] step.prems step.hyps(2), of junk]
    by (auto simp: faults_iff_def split: if_splits)
next
  case (start n handlers self host infos)
  then show ?case using svc_ok_new [of n self host infos] by (simp add: svc_ok_def)
qed

section \<open>Properties\<close>


text \<open>A run of the service over a list of events; \<open>None\<close> when an event is not possible or faults.\<close>

fun p2p_run :: "protobuf \<Rightarrow> u16 \<Rightarrow> p2p_event list \<Rightarrow> p2p_service \<Rightarrow> p2p_service option" where
  "p2p_run pb junk [] st = Some st"
| "p2p_run pb junk (e # es) st =
     (if event_ok e st then (case p2p_step pb junk e st of Inl f \<Rightarrow> None | Inr st' \<Rightarrow> p2p_run pb junk es st')
      else None)"

lemma p2p_run_reachable:
  "p2p_run pb junk es st = Some st' \<Longrightarrow> p2p_reachable pb junk st \<Longrightarrow> p2p_reachable pb junk st'"
  by (induction es arbitrary: st) (auto split: if_splits sum.splits intro: p2p_reachable.step)

definition ex_accepted :: "session_id \<Rightarrow> p2p_session" where
  "ex_accepted sid = P2PSession_new (0, 0) 9 sid (rb_new 64) (rb_new 64)"

definition ex_service :: p2p_service where
  "ex_service = P2PService_new 2 ''B'' (HostEndPointInfo ''b'' 1) HostsInfoManager_new"

definition ex_info :: "node_id \<Rightarrow> packet" where
  "ex_info n = (setType PT_ClientInfo PacketHeader_new, Some (Pl_ClientInfo
     \<lparr>ci_seq = 0, ci_localHost = [], ci_peerHost = [], ci_handshakeUuid = [], ci_nodeId = n\<rparr>))"

definition ex_null_info :: packet where
  "ex_null_info = (setType PT_ClientInfo PacketHeader_new, None)"




section \<open>The node table over a step\<close>

lemma svc_sendData_frame:
  "svc_sendData sid data st = Inr (ret, st') \<Longrightarrow> \<exists>rs. st' = st\<lparr>sv_reactors := rs\<rparr>"
  by (auto simp: svc_sendData_def set_reactor_def Let_def split_beta split: option.splits)
    (metis p2p_service.surjective p2p_service.update_convs(9))+


text \<open>\<open>bound st n\<close>: the session the service would send to for node \<open>n\<close>.\<close>

abbreviation bound :: "p2p_service \<Rightarrow> node_id \<Rightarrow> session_id option" where
  "bound st n \<equiv> getSessionId n (sv_hostsInfo st)"

lemma sendData_hosts: "svc_sendData sid data st = Inr (ret, st') \<Longrightarrow> sv_hostsInfo st' = sv_hostsInfo st"
  by (auto dest: svc_sendData_frame)

lemma send_each_hosts: "send_each hosts buffer st = Inr st' \<Longrightarrow> sv_hostsInfo st' = sv_hostsInfo st"
  by (induction hosts buffer st rule: send_each.induct) (auto simp: and_then_Inr dest!: sendData_hosts)

lemma heartbeat_hosts: "heartbeat_round now hosts st = Inr st' \<Longrightarrow> sv_hostsInfo st' = sv_hostsInfo st"
  by (induction now hosts st rule: heartbeat_round.induct)
    (auto simp: and_then_Inr heartbeat_sender_def dest!: sendData_hosts split: if_splits option.splits)

lemma newClient_hosts: "newClientCallback ok s st = Inr st' \<Longrightarrow> sv_hostsInfo st' = sv_hostsInfo st"
  by (auto simp: newClientCallback_def and_then_Inr Let_def split_beta set_session_def set_reactor_def
      split: option.splits if_splits)

lemma connect_hosts: "connectHandler pb ok s st = Inr st' \<Longrightarrow> sv_hostsInfo st' = sv_hostsInfo st"
  by (auto simp: connectHandler_def and_then_Inr Let_def split_beta set_session_def set_reactor_def
      dest!: sendData_hosts split: option.splits if_splits)

lemma timeout_hosts: "sv_hostsInfo (timeoutHandler sessions st) = sv_hostsInfo st"
  by (induction sessions st rule: timeoutHandler.induct) simp_all

lemma fold_release_hosts: "sv_hostsInfo (fold release sids st) = sv_hostsInfo st"
  by (induction sids arbitrary: st) simp_all

text \<open>Only the service's packet handlers and the destroyer change the node table.\<close>

lemma step_hosts:
  assumes "p2p_step pb junk e st = Inr st'" "e \<noteq> ServiceTurn" "\<And>ok. e \<noteq> DestroyTurn ok"
  shows "sv_hostsInfo st' = sv_hostsInfo st"
  using assms
  by (cases e)
    (auto simp: and_then_Inr newClient_hosts connect_hosts route_packet_def disconnectHandler_def queue_destroy_def
      alive_tick_def Let_def split_beta timeout_hosts HostsHeartbeatService_run_def heartbeat_hosts
      boardcastModuleMessage_def sendModuleMessageByNodeId_def distance_sender_def module_turn_def
      onModuleMessage_def tasks_done_def fold_release_hosts set_reactor_def
      dest!: send_each_hosts sendData_hosts split: option.splits list.splits if_splits payload.splits)

text \<open>The node a handshake packet speaks for.\<close>

definition speaks_for :: "packet \<Rightarrow> node_id \<Rightarrow> bool" where
  "speaks_for p n \<longleftrightarrow>
     (case snd p of
        Some (Pl_ClientInfo m) \<Rightarrow> header_type (fst p) = PT_ClientInfo \<and> ci_nodeId m = n
      | Some (Pl_ClientInfoReply m) \<Rightarrow> header_type (fst p) = PT_ClientInfoReply \<and> cir_nodeId m = n \<and> cir_result m = 0
      | _ \<Rightarrow> False)"

lemma addHostIdInfo_bound:
  "getSessionId n (snd (addHostIdInfo m sid infos)) =
     (if n = m \<and> getSessionId n infos = None then Some sid else getSessionId n infos)"
  using fun_cong [OF nodes.put_get [of m sid infos], of n] by (auto split: option.splits)

lemma client_info_result_bound:
  "bound (snd (client_info_result m sid st)) n =
     (if n = m \<and> m \<noteq> sv_nodeId st \<and> bound st n = None then Some sid else bound st n)"
  by (auto simp: client_info_result_def Let_def split_beta addHostIdInfo_bound)

lemma reply_accepted_bound:
  "bound (snd (reply_accepted sid host m st)) n = bound st n \<or>
   (n = m \<and> bound st n = None \<and> bound (snd (reply_accepted sid host m st)) n = Some sid)"
  by (auto simp: reply_accepted_def Let_def split_beta queue_destroy_def getSessionId_def
      addHostIdInfo_def alist_simps setHostId_def split: option.splits)

lemma sint_zero: "sint (w :: u32) = 0 \<longleftrightarrow> w = 0"
  by (rule signed_eq_0_iff)

lemma service_turn_bound:
  assumes "service_turn pb junk st = Inr st'"
  shows "bound st' n = bound st n \<or> (bound st n = None \<and>
    (\<exists>sid p rest. sv_serviceQueue st = (sid, p) # rest \<and> speaks_for p n \<and> lock_session sid st \<noteq> None \<and>
       bound st' n = Some sid))"
proof (cases "sv_serviceQueue st")
  case (Cons q rest)
  obtain sid h pl where q: "q = (sid, h, pl)" by (metis prod_cases3)
  let ?st = "st\<lparr>sv_serviceQueue := rest\<rparr>"
  have l: "lock_session w ?st = lock_session w st" for w by (simp add: lock_session_def)
  have turn: "service_handler pb junk sid (h, pl) ?st = Inr st'"
    using assms by (simp add: service_turn_def Cons q)
  consider (hb) "header_type h = PT_HeartBeat" | (ci) "header_type h = PT_ClientInfo"
    | (cir) "header_type h = PT_ClientInfoReply" | (hbr) "header_type h = PT_HeartBeatReply"
    | (other) "header_type h \<notin> {PT_HeartBeat, PT_ClientInfo, PT_ClientInfoReply, PT_HeartBeatReply}"
    by auto
  then show ?thesis
  proof cases
    case hb
    then show ?thesis using turn
      by (auto simp: service_handler_def onHeartBeat_def and_then_Inr set_session_def
          dest!: sendData_hosts split: option.splits)
  next
    case hbr
    then show ?thesis using turn
      by (auto simp: service_handler_def onHeartBeatReply_def and_then_Inr set_session_def split: option.splits)
  next
    case other
    then show ?thesis using turn by (cases "header_type h") (auto simp: service_handler_def)
  next
    case ci
    with turn obtain ret where t: "onClientInfo pb junk sid pl ?st = Inr (ret, st')"
      by (auto simp: service_handler_def and_then_Inr)
    show ?thesis
    proof (cases "lock_session sid st")
      case None
      then show ?thesis using t by (auto simp: onClientInfo_def l)
    next
      case (Some s)
      with t obtain m where m: "pl = Some (Pl_ClientInfo m)"
        by (auto simp: onClientInfo_def l split: option.splits payload.splits)
      let ?st1 = "set_session (s\<lparr>ps_nodeId := ci_nodeId m\<rparr>) ?st"
      have "sv_hostsInfo st' = sv_hostsInfo (snd (client_info_result (ci_nodeId m) sid ?st1))"
        using t Some m by (auto simp: onClientInfo_def l Let_def split_beta and_then_Inr dest!: sendData_hosts)
      then have "bound st' n = (if n = ci_nodeId m \<and> ci_nodeId m \<noteq> sv_nodeId ?st1 \<and> bound ?st1 n = None
          then Some sid else bound ?st1 n)"
        by (simp add: client_info_result_bound)
      moreover have "bound ?st1 n = bound st n" by (simp add: set_session_def)
      ultimately show ?thesis using Cons q Some m ci by (auto simp: speaks_for_def)
    qed
  next
    case cir
    with turn obtain ret where t: "onClientInfoReply junk sid pl ?st = Inr (ret, st')"
      by (auto simp: service_handler_def and_then_Inr)
    show ?thesis
    proof (cases "lock_session sid st")
      case None
      then show ?thesis using t by (auto simp: onClientInfoReply_def l)
    next
      case (Some s)
      with t obtain m where m: "pl = Some (Pl_ClientInfoReply m)"
        by (auto simp: onClientInfoReply_def l split: option.splits payload.splits)
      let ?st1 = "set_session (s\<lparr>ps_nodeId := cir_nodeId m\<rparr>) ?st"
      have b1: "bound ?st1 n = bound st n" by (simp add: set_session_def)
      show ?thesis
      proof (cases "sint (cir_result m) = 0")
        case True
        then have "st' = snd (reply_accepted sid (ps_peerHost s) (cir_nodeId m) ?st1)"
          using t Some m by (simp add: onClientInfoReply_def l Let_def)
        with reply_accepted_bound [of n sid "ps_peerHost s" "cir_nodeId m" ?st1] True b1 Cons q Some m cir
        show ?thesis by (auto simp: speaks_for_def sint_zero)
      next
        case False
        then have "bound st' n = bound st n"
          using t Some m
          by (auto simp: onClientInfoReply_def l Let_def and_then_Inr set_session_def rename_other_def
              split: if_splits option.splits)
        then show ?thesis by simp
      qed
    qed
  qed
next
  case Nil
  then show ?thesis using assms by (auto simp: service_turn_def)
qed


lemma setHostNotConnected_bound [simp]:
  "getSessionId n (snd (setHostNotConnected h infos)) = getSessionId n infos"
  by (simp add: getSessionId_def hosts_ops_frame)

lemma destroy_bound:
  assumes "destroy_next ok st = Inr st'"
  shows "bound st' n = bound st n \<or> (bound st' n = None \<and>
    (\<exists>info rest s. sv_destroyer st = info # rest \<and> lock_session (di_session info) st = Some s \<and>
       bound st n = Some (ps_sessionId s) \<and> ps_nodeId s = n \<and> di_flag info \<in> {0, -1, -4}))"
proof (cases "sv_destroyer st")
  case (Cons info rest)
  let ?st = "st\<lparr>sv_destroyer := rest\<rparr>"
  have l: "lock_session w ?st = lock_session w st" for w by (simp add: lock_session_def)
  have h: "destroyHandler ok info ?st = Inr st'"
    using assms by (simp add: destroy_next_def destroyer_pop_def Cons)
  then obtain s where s: "lock_session (di_session info) st = Some s"
    by (auto simp: destroyHandler_def l split: option.splits)
  have infos: "sv_hostsInfo st' = sv_hostsInfo (disconnectClient (ps_peerHost s) (ps_nodeId s) (di_flag info)
      (ps_sessionId s) st3) \<and> sv_hostsInfo st3 = sv_hostsInfo st"
    if "st3 = set_reactor i r st2" "sv_hostsInfo st2 = sv_hostsInfo st" "sv_hostsInfo st' = sv_hostsInfo
      (disconnectClient (ps_peerHost s) (ps_nodeId s) (di_flag info) (ps_sessionId s) st3)" for st3 i r st2
    using that by (simp add: set_reactor_def)
  obtain st3 where st3: "sv_hostsInfo st' = sv_hostsInfo (disconnectClient (ps_peerHost s) (ps_nodeId s)
      (di_flag info) (ps_sessionId s) st3)" "sv_hostsInfo st3 = sv_hostsInfo st"
    using h s by (auto simp: destroyHandler_def l Let_def set_session_def set_reactor_def split: option.splits if_splits)
  then have "bound st' n = (if n = ps_nodeId s \<and> bound st n = Some (ps_sessionId s) \<and>
      (di_flag info = -4 \<or> (di_flag info \<in> {0, -1} \<and> ps_nodeId s \<noteq> sv_nodeId st3)) then None else bound st n)"
    by (auto simp: disconnectClient_def Let_def removeHostIdInfo_get setHostNotConnected_bound)
  then show ?thesis using Cons s by (auto split: if_splits)
next
  case Nil
  then show ?thesis using assms by (simp add: destroy_next_def destroyer_pop_def)
qed



text \<open>C9: traffic to a node is never redirected.  In one step the session bound to a node changes in two
  ways only: a node without a session is bound to the session on which a client info, or a reply
  with result 0, speaking for that node was taken up; a bound node is unbound when the
  destroyer closes the very session it is bound to, with one of the flags 0, -1, -4.\<close>

theorem node_bindings:
  assumes "p2p_step pb junk e st = Inr st'"
  shows "case getSessionId n (sv_hostsInfo st) of
      None \<Rightarrow> getSessionId n (sv_hostsInfo st') = None \<or>
        (\<exists>sid p rest. e = ServiceTurn \<and> sv_serviceQueue st = (sid, p) # rest \<and> speaks_for p n \<and>
           lock_session sid st \<noteq> None \<and> getSessionId n (sv_hostsInfo st') = Some sid)
    | Some sid \<Rightarrow> getSessionId n (sv_hostsInfo st') = Some sid \<or>
        (getSessionId n (sv_hostsInfo st') = None \<and>
         (\<exists>ok info rest s. e = DestroyTurn ok \<and> sv_destroyer st = info # rest \<and>
            lock_session (di_session info) st = Some s \<and> ps_sessionId s = sid \<and> ps_nodeId s = n \<and>
            di_flag info \<in> {0, -1, -4}))"
proof -
  consider (service) "e = ServiceTurn" | (destroy) ok where "e = DestroyTurn ok"
    | (other) "e \<noteq> ServiceTurn" "\<And>ok. e \<noteq> DestroyTurn ok" by blast
  then show ?thesis
  proof cases
    case service
    then show ?thesis using assms service_turn_bound [of pb junk st st' n] by (auto split: option.split)
  next
    case destroy
    then show ?thesis using assms destroy_bound [of ok st st' n] by (auto split: option.split)
  next
    case other
    then show ?thesis using step_hosts [OF assms] by (simp split: option.split)
  qed
qed

definition ex_info_packets :: "p2p_event list" where
  "ex_info_packets = [Accepted True (ex_accepted 1), Arrived 1 (ex_info ''A'')]"

theorem node_bindings_witness:
  "\<exists>st st'. p2p_step ex_pb 0 ServiceTurn st = Inr st' \<and> bound st ''A'' = None \<and> bound st' ''A'' = Some 1"
proof -
  have c: "case p2p_run ex_pb 0 ex_info_packets ex_service of
      Some st \<Rightarrow> (case p2p_step ex_pb 0 ServiceTurn st of
          Inr st' \<Rightarrow> bound st' ''A'' \<noteq> None \<and> bound st ''A'' = None \<and> map fst (sv_serviceQueue st) = [1]
        | Inl _ \<Rightarrow> False)
    | None \<Rightarrow> False"
    by code_simp
  then obtain st st' where "p2p_step ex_pb 0 ServiceTurn st = Inr st'" "bound st' ''A'' \<noteq> None"
    "bound st ''A'' = None" "map fst (sv_serviceQueue st) = [1]"
    by (auto split: option.splits sum.splits)
  with node_bindings [of ex_pb 0 ServiceTurn st st' "''A''"] show ?thesis by fastforce
qed

section \<open>Broadcast\<close>

text \<open>A message of \<open>n\<close> bytes for the session would be queued.\<close>

definition deliverable :: "p2p_service \<Rightarrow> nat \<Rightarrow> session_id \<Rightarrow> bool" where
  "deliverable st n sid \<longleftrightarrow>
     map_of (sd_relation (sv_dispatcher st)) sid \<noteq> None \<and> sr_getP2PSession sid (sv_reactors st ! 0) \<noteq> None \<and>
     (case lock_session sid st of None \<Rightarrow> False | Some s \<Rightarrow> \<not> ps_isWaitingDisconnect s) \<and> n \<le> 16384"

definition queue_tasks :: "(session_id \<times> u8 list) list \<Rightarrow> p2p_service \<Rightarrow> p2p_service" where
  "queue_tasks ts st = set_reactor 0 ((sv_reactors st ! 0)\<lparr>sr_sendTasks := sr_sendTasks (sv_reactors st ! 0) @ ts\<rparr>) st"

lemma queue_tasks_Nil: "queue_tasks [] st = st"
proof -
  have "(sv_reactors st ! 0)\<lparr>sr_sendTasks := sr_sendTasks (sv_reactors st ! 0)\<rparr> = sv_reactors st ! 0" by simp
  then show ?thesis by (simp add: queue_tasks_def set_reactor_def)
qed

lemma queue_tasks_append:
  "sv_reactors st \<noteq> [] \<Longrightarrow> queue_tasks us (queue_tasks ts st) = queue_tasks (ts @ us) st"
  by (simp add: queue_tasks_def set_reactor_def)

lemma queue_tasks_frame [simp]:
  "sv_reactors (queue_tasks ts st) = [] \<longleftrightarrow> sv_reactors st = []"
  "deliverable (queue_tasks ts st) n sid = deliverable st n sid"
  "sv_hostsInfo (queue_tasks ts st) = sv_hostsInfo st"
  by (cases "sv_reactors st"; simp add: queue_tasks_def set_reactor_def deliverable_def sr_getP2PSession_def
      lock_session_def cong: option.case_cong)+

lemma svc_ok_queue_tasks:
  "svc_ok st \<Longrightarrow> (\<And>sid. sid \<in> set (map fst ts) \<Longrightarrow> lock_session sid st \<noteq> None) \<Longrightarrow> svc_ok (queue_tasks ts st)"
  unfolding queue_tasks_def using svc_okD(5) [of st]
  by (intro svc_ok_set_reactor) (auto simp: reactor_ok_def held_def lock_session_def)

lemma sendData_exact:
  assumes "svc_ok st"
  shows "svc_sendData sid data st =
    Inr (if deliverable st (length data) sid then (0, queue_tasks [(sid, data)] st) else (-1, st))"
proof (cases "map_of (sd_relation (sv_dispatcher st)) sid")
  case None
  then show ?thesis by (simp add: svc_sendData_def getSlaveReactorIndexBySessionId_def deliverable_def)
next
  case (Some i)
  then have i: "i = 0" using svc_okD(1) [OF assms] by (auto simp: dispatcher_ok_def)
  have same: "set_reactor 0 (sv_reactors st ! 0) st = st" by (simp add: set_reactor_def)
  have u: "unat c_p2pSessionWriteBufferSize = 16384" by (simp add: c_p2pSessionWriteBufferSize_def)
  have w: "map_of (sr_sessions (sv_reactors st ! 0)) sid = Some w \<Longrightarrow> w = sid" for w
    using svc_okD(5) [OF assms] by (auto simp: reactor_ok_def)
  show ?thesis
    using Some i svc_okD(4) [OF assms] w
    by (auto simp: svc_sendData_def getSlaveReactorIndexBySessionId_def deliverable_def same sr_sendData_def
        sr_getP2PSession_def lock_session_def queue_tasks_def u split: option.split)
qed

lemma send_each_exact:
  "svc_ok st \<Longrightarrow> send_each hosts buffer st =
     Inr (queue_tasks (map (\<lambda>(n, sid). (sid, buffer)) (filter (\<lambda>(n, sid). deliverable st (length buffer) sid) hosts)) st)"
proof (induction hosts arbitrary: st)
  case Nil
  then show ?case by (simp add: queue_tasks_Nil)
next
  case (Cons h hosts)
  obtain n sid where h: "h = (n, sid)" by (cases h)
  show ?case
  proof (cases "deliverable st (length buffer) sid")
    case True
    have "svc_ok (queue_tasks [(sid, buffer)] st)"
      by (rule svc_ok_queue_tasks [OF Cons.prems]) (use True in \<open>auto simp: deliverable_def split: option.splits\<close>)
    from Cons.IH [OF this] True show ?thesis
      using svc_okD(3) [OF Cons.prems] by (simp add: h sendData_exact [OF Cons.prems] queue_tasks_append)
  next
    case False
    then show ?thesis using Cons by (simp add: h sendData_exact)
  qed
qed




section \<open>Closing a session\<close>

text \<open>What the destroy handler leaves of a live session.\<close>

lemma destroyHandler_shape:
  assumes ok: "svc_ok st" and s: "lock_session (di_session info) st = Some s"
    and run: "destroyHandler epoll_ok info st = Inr st'"
  shows "sv_hostsInfo st' = sv_hostsInfo (disconnectClient (ps_peerHost s) (ps_nodeId s) (di_flag info) (ps_sessionId s) st)"
    and "map_of (sd_relation (sv_dispatcher st')) = (map_of (sd_relation (sv_dispatcher st)))(ps_sessionId s := None)"
    and "sv_alive st' = (if di_isFromAliveChecker info then sv_alive st
           else snd (alive_removeSession (ps_sessionId s) (sv_alive st)))"
    and "sv_reactors st' = (sv_reactors st)[0 := snd (sr_removeClient epoll_ok (ps_sessionId s) (sv_reactors st ! 0))]"
    and "lock_session (ps_sessionId s) st' = (if list_ex (held (ps_sessionId s)) (sv_reactors st')
           then Some (s\<lparr>ps_isWaitingDisconnect := True\<rparr>) else None)"
    and "sv_nodeId st' = sv_nodeId st"
proof -
  note idx = session_keeps [OF ok s]
  have ne: "slaveReactor 0 (st\<lparr>sv_heap := h, sv_alive := a\<rparr>) = Some (sv_reactors st ! 0)"
    "slaveReactor 0 (st\<lparr>sv_heap := h\<rparr>) = Some (sv_reactors st ! 0)" for h a
    using svc_okD(4) [OF ok] by (simp_all add: slaveReactor_def split: if_splits)
  have rel: "map_of (sd_relation (snd (removeSessionIdSlaveReactorRelation x d))) = (map_of (sd_relation d))(x := None)" for x d
    by (auto simp: removeSessionIdSlaveReactorRelation_def alist_simps)
  have host: "sv_hostsInfo (disconnectClient h n f x st1) = sv_hostsInfo (disconnectClient h n f x st2)"
    if "sv_hostsInfo st1 = sv_hostsInfo st2" "sv_nodeId st1 = sv_nodeId st2" for h n f x st1 st2
    using that by (simp add: disconnectClient_def Let_def)
  define st3 where "st3 = set_reactor 0 (snd (sr_removeClient epoll_ok (ps_sessionId s) (sv_reactors st ! 0)))
      (if di_isFromAliveChecker info then set_session (s\<lparr>ps_isWaitingDisconnect := True\<rparr>) st
       else (set_session (s\<lparr>ps_isWaitingDisconnect := True\<rparr>) st)\<lparr>sv_alive := snd (alive_removeSession (ps_sessionId s) (sv_alive st))\<rparr>)"
  define st4 where "st4 = disconnectClient (ps_peerHost s) (ps_nodeId s) (di_flag info) (ps_sessionId s) st3"
  have st': "st' = release (ps_sessionId s)
      (st4\<lparr>sv_dispatcher := snd (removeSessionIdSlaveReactorRelation (ps_sessionId s) (sv_dispatcher st4))\<rparr>)"
    using run s by (simp add: destroyHandler_def Let_def idx(1) set_session_def ne st3_def st4_def split: if_splits)
  have fr: "sv_hostsInfo st3 = sv_hostsInfo st" "sv_nodeId st3 = sv_nodeId st" "sv_dispatcher st3 = sv_dispatcher st"
    "sv_reactors st3 = (sv_reactors st)[0 := snd (sr_removeClient epoll_ok (ps_sessionId s) (sv_reactors st ! 0))]"
    "map_of (sv_heap st3) = (map_of (sv_heap st))(ps_sessionId s \<mapsto> s\<lparr>ps_isWaitingDisconnect := True\<rparr>)"
    "sv_alive st3 = (if di_isFromAliveChecker info then sv_alive st
           else snd (alive_removeSession (ps_sessionId s) (sv_alive st)))"
    by (simp_all add: st3_def set_reactor_def set_session_def alist_simps)
  show "sv_hostsInfo st' = sv_hostsInfo (disconnectClient (ps_peerHost s) (ps_nodeId s) (di_flag info) (ps_sessionId s) st)"
    unfolding st' st4_def using host [OF fr(1,2)] by simp
  have "sv_nodeId (disconnectClient h n f x st1) = sv_nodeId st1" for h n f x st1
    by (simp add: disconnectClient_def Let_def)
  then show "sv_nodeId st' = sv_nodeId st" unfolding st' by (simp add: release_def st4_def fr)
  show "map_of (sd_relation (sv_dispatcher st')) = (map_of (sd_relation (sv_dispatcher st)))(ps_sessionId s := None)"
    unfolding st' by (simp add: rel st4_def fr)
  show "sv_alive st' = (if di_isFromAliveChecker info then sv_alive st
           else snd (alive_removeSession (ps_sessionId s) (sv_alive st)))"
    unfolding st' by (simp add: st4_def fr)
  show "sv_reactors st' = (sv_reactors st)[0 := snd (sr_removeClient epoll_ok (ps_sessionId s) (sv_reactors st ! 0))]"
    unfolding st' by (simp add: st4_def fr)
  show "lock_session (ps_sessionId s) st' = (if list_ex (held (ps_sessionId s)) (sv_reactors st')
           then Some (s\<lparr>ps_isWaitingDisconnect := True\<rparr>) else None)"
    unfolding st' by (simp add: release_def lock_session_def st4_def fr alist_simps)
qed


definition ex_order :: destroy_info where
  "ex_order = \<lparr>di_sessionId = 1, di_session = 1, di_flag = 0, di_isFromAliveChecker = False\<rparr>"

lemma ex_reachable: "p2p_run ex_pb 0 es ex_service = Some st \<Longrightarrow> p2p_reachable ex_pb 0 st"
  by (erule p2p_run_reachable) (simp add: ex_service_def p2p_reachable_new)



text \<open>A second client info on a session leaves a stale binding.  When the session bound to node \<open>n\<close>
  has since spoken for another node, closing it does not unbind \<open>n\<close>: sending to \<open>n\<close> fails from then on,
  and every new connection of \<open>n\<close> is answered with the duplicate code \<open>-3\<close>, which makes \<open>n\<close> hang up.\<close>

theorem stale_binding:
  assumes "p2p_reachable pb junk st" and "pb_small pb"
    and "getSessionId n (sv_hostsInfo st) = Some sid" and "lock_session sid st = Some s" and "ps_nodeId s \<noteq> n"
    and "di_session info = sid" and "n \<noteq> sv_nodeId st"
  shows "\<exists>st'. destroyHandler ok info st = Inr st' \<and> svc_getP2PSession sid st' = Inr None \<and>
    getSessionId n (sv_hostsInfo st') = Some sid \<and>
    distance_sender n data st' = Inr (-1, st') \<and>
    client_info_result n sid2 st' = (-3, st')"
proof -
  note inv = p2p_reachable_ok [OF assms(1,2)]
  have l: "lock_session (di_session info) st = Some s" using assms(4,6) by simp
  obtain st' where st': "destroyHandler ok info st = Inr st'"
    using destroyHandler_result [OF inv l, of ok] by blast
  note sh = destroyHandler_shape [OF inv l st']
  have id: "ps_sessionId s = sid" using session_keeps [OF inv assms(4)] by simp
  have b: "getSessionId n (sv_hostsInfo st') = Some sid"
    using assms(3,5) by (auto simp: sh(1) disconnectClient_def Let_def removeHostIdInfo_get)
  have "map_of (sd_relation (sv_dispatcher st')) sid = None" by (simp add: sh(2) id)
  moreover have "addHostIdInfo n sid2 (sv_hostsInfo st') = (-1, sv_hostsInfo st')" by (rule nodes.put_dup [OF b])
  ultimately show ?thesis
    using st' b assms(7) by (simp add: svc_getP2PSession_def distance_sender_def svc_sendData_def
        getSlaveReactorIndexBySessionId_def client_info_result_def sh(6))
qed


definition ex_two_infos :: "p2p_event list" where
  "ex_two_infos = ex_info_packets @ [Arrived 1 (ex_info ''C''), ServiceTurn, ServiceTurn]"

theorem stale_binding_witness:
  "\<exists>st st'. p2p_run ex_pb 0 ex_two_infos ex_service = Some st \<and>
     destroyHandler True ex_order st = Inr st' \<and> bound st' ''A'' = Some 1 \<and>
     distance_sender ''A'' [1] st' = Inr (-1, st')"
proof -
  have "case p2p_run ex_pb 0 ex_two_infos ex_service of
      Some st \<Rightarrow> (case lock_session 1 st of Some s \<Rightarrow> ps_nodeId s \<noteq> ''A'' | None \<Rightarrow> False) \<and>
        bound st ''A'' = Some 1 \<and> ''A'' \<noteq> sv_nodeId st
    | None \<Rightarrow> False"
    by code_simp
  then obtain st s where st: "p2p_run ex_pb 0 ex_two_infos ex_service = Some st"
    "lock_session 1 st = Some s" "ps_nodeId s \<noteq> ''A''" "bound st ''A'' = Some 1" "''A'' \<noteq> sv_nodeId st"
    by (auto split: option.splits)
  from stale_binding [OF ex_reachable [OF st(1)] pb_small_ex st(4,2,3) _ st(5), of ex_order True "[1]"] st(1)
  show ?thesis by (auto simp: ex_order_def)
qed

end
