(* ===== verification/Network.thy ===== *)
theory Network
  imports P2P
begin

text \<open>
  Bytes from the wire to the handlers: the reactor's data handler, the decoder's packet callback and the
  turns of the packet processors put together, and what two services do to each other with it.
\<close>

section \<open>Receiving\<close>

text \<open>
  The callbacks \<^verbatim>\<open>P2PService::init\<close> registers: received bytes go to the decoder, and every packet it
  cuts off goes to one of the two processors.
\<close>

definition receive_data :: "protobuf \<Rightarrow> nat \<Rightarrow> session_id \<Rightarrow> u8 list \<Rightarrow> p2p_service \<Rightarrow>
    (int \<times> p2p_service) run option" where
  "receive_data pb fuel sid data st =
     map_option (\<lambda>r. and_then r (\<lambda>(ret, ps, s).
         Inr (ret, fold (route_packet sid) ps (case s of None \<Rightarrow> st | Some s \<Rightarrow> set_session s st))))
       (addSessionData pb fuel True (lock_session sid st) data)"

lemma rb_push_start: "rb_push rb data = Inr (r, rb') \<Longrightarrow> m_startOffset rb' = m_startOffset rb"
  by (auto simp: rb_push_def and_then_Inr rb_writeData_def rb_increaseUsedSpace_def Let_def split: if_splits prod.splits)

lemma empty_start:
  assumes "wf_rb rb" and "rb_content rb = []"
  shows "m_startOffset rb = 0"
proof -
  have "length (rb_content rb) = 0" using assms(2) by simp
  then have "unat (m_startOffset rb) = unat (m_endOffset rb)"
    using wf_rbD(4,5) [OF assms(1)] by (simp add: length_rb_content split: if_splits)
  then show ?thesis using wf_rbD(7) [OF assms(1)] by (simp add: word_unat_eq_iff)
qed

text \<open>A packet that arrives whole in an empty buffer is delivered, and leaves the buffer empty.\<close>

lemma whole_packet:
  assumes wf: "wf_rb (ps_readBuffer s)" and empty: "rb_content (ps_readBuffer s) = []"
    and w: "\<not> ps_isWaitingDisconnect s"
    and fits: "14 + length body \<le> rb_capacity (ps_readBuffer s)" and fuel: "14 + length body < fuel"
    and ok: "named_type t" "module_normal m" "body \<noteq> [] \<Longrightarrow> createPayload pb t body \<noteq> None"
  obtains rb where "addSessionData pb fuel True (Some s) (wire t m body) =
      Some (Inr (0, [(packet_head t m (length body), if body = [] then None else createPayload pb t body)],
        Some (s\<lparr>ps_readBuffer := rb\<rparr>)))"
    and "wf_rb rb" and "rb_content rb = []"
proof -
  have small: "length body < 2 ^ 32"
    using fits wf_rbD(2,3) [OF wf] by (simp add: rb_capacity_def)
  have lw: "length (wire t m body) = 14 + length body" by (simp add: wire_def)
  obtain rb1 where p: "rb_push (ps_readBuffer s) (wire t m body) = Inr (0, rb1)" "wf_rb rb1"
    and c: "rb_content rb1 = wire t m body" "rb_capacity rb1 = rb_capacity (ps_readBuffer s)"
    by (rule rb_push_append [OF wf, of "wire t m body"]) (use fits lw empty in auto)
  have parse: "parse_packets pb (wire t m body) =
      ([(packet_head t m (length body), if body = [] then None else createPayload pb t body)], [])"
    using parse_wires [of "[(t, m, body)]" pb] ok small by simp
  have np: "\<exists>q. next_packet pb (wire t m body) = Some (q, 14 + length body)"
    using next_packet_wire [OF ok(1,2) small, of pb "[]"] ok(3) by (cases "body = []") auto
  have "header_positions pb (wire t m body) = [0]"
    using np lw by (subst header_positions.simps) (auto simp: header_positions.simps [of pb "[]"])
  moreover have "m_startOffset rb1 = 0"
    using rb_push_start [OF p(1)] empty_start [OF wf empty] by simp
  moreover have "14 \<le> length (m_buffer rb1)"
    using c(2) fits by (simp add: rb_capacity_def)
  ultimately have "\<not> split_in_run pb rb1" by (simp add: split_in_run_def c header_split_def)
  moreover have "length (rb_content rb1) < fuel" using lw fuel c by simp
  ultimately obtain rb2 where "decode_loop pb fuel rb1 =
      Some (Inr ([(packet_head t m (length body), if body = [] then None else createPayload pb t body)], rb2))"
    "wf_rb rb2" "rb_content rb2 = []"
    using decode_loop_spec [OF p(2), of fuel pb] by (auto simp: c parse bad_magic_def)
  then show ?thesis using that p w by (simp add: addSessionData_def)
qed

text \<open>A session that is open and has no unfinished packet in its buffer.\<close>

definition clean_session :: "session_id \<Rightarrow> p2p_session \<Rightarrow> p2p_service \<Rightarrow> bool" where
  "clean_session sid s st \<longleftrightarrow> lock_session sid st = Some s \<and> ps_sessionId s = sid \<and> \<not> ps_isWaitingDisconnect s \<and>
     wf_rb (ps_readBuffer s) \<and> rb_capacity (ps_readBuffer s) = 16382 \<and> rb_content (ps_readBuffer s) = []"

lemma receive_whole:
  assumes "clean_session sid s st" and "14 + length body \<le> 16382" and "16382 < fuel"
    and "named_type t" and "module_normal m" and "body \<noteq> [] \<Longrightarrow> createPayload pb t body \<noteq> None"
  obtains rb where "receive_data pb fuel sid (wire t m body) st = Some (Inr (0, route_packet sid
      (packet_head t m (length body), if body = [] then None else createPayload pb t body)
      (set_session (s\<lparr>ps_readBuffer := rb\<rparr>) st)))"
    and "wf_rb rb" and "rb_content rb = []"
proof -
  have s: "lock_session sid st = Some s" "wf_rb (ps_readBuffer s)" "rb_content (ps_readBuffer s) = []"
    "\<not> ps_isWaitingDisconnect s" "rb_capacity (ps_readBuffer s) = 16382"
    using assms(1) by (simp_all add: clean_session_def)
  obtain rb where "addSessionData pb fuel True (Some s) (wire t m body) =
      Some (Inr (0, [(packet_head t m (length body), if body = [] then None else createPayload pb t body)],
        Some (s\<lparr>ps_readBuffer := rb\<rparr>)))" and rb: "wf_rb rb" "rb_content rb = []"
    by (rule whole_packet [OF s(2,3,4), of body fuel t m pb]) (use assms s in auto)
  then show ?thesis using that [OF _ rb] s by (simp add: receive_data_def)
qed

section \<open>Module messages\<close>

lemma module_message_through:
  assumes "clean_session sid s st" and "sv_moduleQueue st = []"
    and "map_of (sv_moduleHandlers st) m = Some handler" and "module_normal m"
    and "encode_module m data = Inr bytes" and "length bytes \<le> 16382" and "16382 < fuel"
    and "length data < 2 ^ 32"
  shows "\<exists>st1. receive_data pb fuel sid bytes st = Some (Inr (0, st1)) \<and>
    module_turn st1 = (if data = [] then Inl NullDeref
      else Inr (st1\<lparr>sv_moduleQueue := [], sv_delivered := sv_delivered st @ [(m, ps_nodeId s, data)]\<rparr>))"
proof -
  have b: "bytes = wire PT_ModuleMessage m data"
    using assms(5) encode_module_bytes [OF assms(8), of m] by (simp add: wire_def)
  then have "14 + length data \<le> 16382" using assms(6) by (simp add: wire_def)
  then obtain rb where r: "receive_data pb fuel sid bytes st = Some (Inr (0, route_packet sid
      (packet_head PT_ModuleMessage m (length data),
        if data = [] then None else createPayload pb PT_ModuleMessage data)
      (set_session (s\<lparr>ps_readBuffer := rb\<rparr>) st)))"
    unfolding b using receive_whole [OF assms(1) _ assms(7) _ assms(4), of data PT_ModuleMessage pb]
    by (auto simp: named_type_def)
  have "ps_sessionId s = sid" using assms(1) by (simp add: clean_session_def)
  then show ?thesis
    using r assms(2,3)
    by (auto simp: route_packet_def module_turn_def onModuleMessage_def set_session_def lock_session_def
        alist_simps Let_def named_type_def)
qed

text \<open>
  A module message gets through, or kills its receiver.  The packet \<^verbatim>\<open>PacketEncodeHelper\<close> makes of a
  message for module \<open>m\<close>, received on an open session of a service that has a handler for \<open>m\<close>, makes the
  module processor call that handler once, with the node id of the session and exactly the bytes sent,
  when there are any; the packet of an empty message makes the receiver dereference a null pointer.
\<close>

theorem module_message_end_to_end:
  assumes "clean_session sid s st" and "sv_moduleQueue st = []"
    and "map_of (sv_moduleHandlers st) m = Some handler" and "module_normal m"
    and "encode_module m data = Inr bytes" and "length bytes \<le> 16382" and "16382 < fuel"
    and "length data < 2 ^ 32"
  shows "\<exists>st1. receive_data pb fuel sid bytes st = Some (Inr (0, st1)) \<and>
    module_turn st1 = (if data = [] then Inl NullDeref
      else Inr (st1\<lparr>sv_moduleQueue := [], sv_delivered := sv_delivered st @ [(m, ps_nodeId s, data)]\<rparr>))"
  by (rule module_message_through [OF assms])

definition ex_peer_session :: p2p_session where
  "ex_peer_session = (P2PSession_new (0, 0) 5 1 (rb_new c_p2pSessionReadBufferSize) (rb_new c_p2pSessionWriteBufferSize))
     \<lparr>ps_nodeId := ''peer''\<rparr>"

definition ex_receiver :: p2p_service where
  "ex_receiver = registerModulePacketHandler M_raft (\<lambda>n bytes. 0)
     (set_session ex_peer_session (P2PService_new 2 ''me'' (HostEndPointInfo ''h'' 1) HostsInfoManager_new))"

lemma ex_clean: "clean_session (ps_sessionId ex_peer_session) ex_peer_session ex_receiver"
proof -
  have "unat c_p2pSessionReadBufferSize = 16384" by (simp add: c_p2pSessionReadBufferSize_def)
  then show ?thesis
    by (simp add: clean_session_def ex_peer_session_def ex_receiver_def registerModulePacketHandler_def
        set_session_def lock_session_def P2PSession_new_def wf_rb_new content_rb_new capacity_rb_new alist_simps
        P2PService_new_def)
qed

lemma module_message_end_to_end_witness:
  "(\<exists>st1. receive_data ex_pb 20000 (ps_sessionId ex_peer_session) (header_bytes (packet_head PT_ModuleMessage M_raft 0))
      ex_receiver = Some (Inr (0, st1)) \<and> module_turn st1 = Inl NullDeref) \<and>
   (\<exists>st1. receive_data ex_pb 20000 (ps_sessionId ex_peer_session)
      (header_bytes (packet_head PT_ModuleMessage M_raft (length [7 :: u8, 8])) @ [7, 8]) ex_receiver = Some (Inr (0, st1)) \<and>
      module_turn st1 = Inr (st1\<lparr>sv_moduleQueue := [], sv_delivered := [(M_raft, ''peer'', [7, 8])]\<rparr>))"
proof -
  have q: "sv_moduleQueue ex_receiver = []" "map_of (sv_moduleHandlers ex_receiver) M_raft = Some (\<lambda>n bytes. 0)"
    "sv_delivered ex_receiver = []" "ps_nodeId ex_peer_session = ''peer''"
    by (simp_all add: ex_receiver_def registerModulePacketHandler_def set_session_def P2PService_new_def
        ex_peer_session_def)
  have m: "module_normal M_raft" by (simp add: module_normal_def module_of_def)
  note th = module_message_end_to_end [OF ex_clean q(1,2) m, where fuel = 20000 and pb = ex_pb]
  show ?thesis
    using th [of "[]"] th [of "[7, 8]"] q by (simp add: encode_module_bytes)
qed

section \<open>The handshake\<close>

text \<open>The request a node sends on a connection it has made, and the reply it gets.\<close>

definition handshake_reply :: "u16 \<Rightarrow> client_info \<Rightarrow> p2p_service \<Rightarrow> client_info_reply" where
  "handshake_reply junk m st =
     \<lparr>cir_seq = 0, cir_peerHost = hep_host (HostEndPointInfo_of junk (ci_peerHost m)),
      cir_handshakeUuid = ci_handshakeUuid m, cir_nodeId = sv_nodeId st, cir_result = 0\<rparr>"

text \<open>A protobuf message that is parsed back and fits the buffers.\<close>

definition wire_ok :: "'m pb_codec \<Rightarrow> 'm \<Rightarrow> bool" where
  "wire_ok c m \<longleftrightarrow> pb_parse c (pb_bytes c m) = (True, m) \<and> pb_bytes c m \<noteq> [] \<and> length (pb_bytes c m) \<le> 16368"

lemma accept_request:
  assumes "svc_ok st" and "clean_session sid s st" and "16382 < fuel"
    and "sv_serviceQueue st = []" and "deliverable st 16382 sid"
    and "wire_ok (pb_clientInfo pb) m" and "wire_ok (pb_clientInfoReply pb) (handshake_reply junk m st)"
    and "ci_nodeId m \<noteq> sv_nodeId st" and "getSessionId (ci_nodeId m) (sv_hostsInfo st) = None"
  shows "\<exists>st1 st2. receive_data pb fuel sid (wire PT_ClientInfo M_unknown (pb_bytes (pb_clientInfo pb) m)) st =
      Some (Inr (0, st1)) \<and> service_turn pb junk st1 = Inr st2 \<and>
    getSessionId (ci_nodeId m) (sv_hostsInfo st2) = Some sid \<and> sv_destroyer st2 = sv_destroyer st \<and>
    sr_sendTasks (sv_reactors st2 ! 0) = sr_sendTasks (sv_reactors st ! 0) @
      [(sid, wire PT_ClientInfoReply M_unknown (pb_bytes (pb_clientInfoReply pb) (handshake_reply junk m st)))]"
proof -
  let ?body = "pb_bytes (pb_clientInfo pb) m" and ?reply = "pb_bytes (pb_clientInfoReply pb) (handshake_reply junk m st)"
  have body: "?body \<noteq> []" "14 + length ?body \<le> 16382" "pb_parse (pb_clientInfo pb) ?body = (True, m)"
    and reply: "14 + length ?reply \<le> 16382"
    using assms(6,7) by (simp_all add: wire_ok_def)
  obtain rb where r: "receive_data pb fuel sid (wire PT_ClientInfo M_unknown ?body) st = Some (Inr (0, route_packet sid
      (packet_head PT_ClientInfo M_unknown (length ?body), Some (Pl_ClientInfo m))
      (set_session (s\<lparr>ps_readBuffer := rb\<rparr>) st)))"
    using receive_whole [OF assms(2) body(2) assms(3), of PT_ClientInfo M_unknown pb] body
    by (auto simp: named_type_def module_normal_def module_of_def)
  have s: "ps_sessionId s = sid" "lock_session sid st = Some s" "ps_slaveReactorIndex s = 0"
    using assms(2) svc_okD(2) [OF assms(1)] by (auto simp: clean_session_def lock_session_def heap_ok_def)
  let ?s1 = "s\<lparr>ps_readBuffer := rb, ps_nodeId := ci_nodeId m\<rparr>"
  define st2 where "st2 = (set_session ?s1 (set_session (s\<lparr>ps_readBuffer := rb\<rparr>) st))
    \<lparr>sv_serviceQueue := [], sv_hostsInfo := snd (addHostIdInfo (ci_nodeId m) sid (sv_hostsInfo st))\<rparr>"
  have ok: "svc_ok st2"
    using svc_ok_set_session [OF svc_ok_set_session [OF assms(1)], of "s\<lparr>ps_readBuffer := rb\<rparr>" ?s1] s
    by (simp add: st2_def)
  have d: "deliverable st2 (14 + length ?reply) sid"
    using assms(5) s reply
    by (auto simp: deliverable_def st2_def set_session_def lock_session_def alist_simps)
  have add: "fst (addHostIdInfo (ci_nodeId m) sid (sv_hostsInfo st)) = 0"
    using assms(9) by (simp add: addHostIdInfo_def getSessionId_def)
  have bound: "getSessionId (ci_nodeId m) (snd (addHostIdInfo (ci_nodeId m) sid (sv_hostsInfo st))) = Some sid"
    using assms(9) by (simp add: addHostIdInfo_bound)
  let ?bytes = "wire PT_ClientInfoReply M_unknown ?reply"
  have enc: "encode_packet pb (Pl_ClientInfoReply (handshake_reply junk m st)) = Inr ?bytes"
    using reply by (simp add: encode_packet_bytes wire_def)
  have send: "svc_sendData sid ?bytes st2 = Inr (0, queue_tasks [(sid, ?bytes)] st2)"
    using sendData_exact [OF ok, of sid ?bytes] d by (simp add: wire_def)
  have turn: "service_turn pb junk (route_packet sid
      (packet_head PT_ClientInfo M_unknown (length ?body), Some (Pl_ClientInfo m))
      (set_session (s\<lparr>ps_readBuffer := rb\<rparr>) st)) = Inr (queue_tasks [(sid, ?bytes)] st2)"
  proof -
    let ?st0 = "(set_session (s\<lparr>ps_readBuffer := rb\<rparr>) st)\<lparr>sv_serviceQueue := []\<rparr>"
    have lock: "lock_session sid ?st0 = Some (s\<lparr>ps_readBuffer := rb\<rparr>)"
      using s by (simp add: lock_session_def set_session_def alist_simps)
    have res: "client_info_result (ci_nodeId m) sid (set_session ?s1 ?st0) = (0, st2)"
      using assms(8) add by (simp add: client_info_result_def st2_def set_session_def split_beta)
    have "sv_nodeId st2 = sv_nodeId st" by (simp add: st2_def set_session_def)
    then have "onClientInfo pb junk sid (Some (Pl_ClientInfo m)) ?st0 = Inr (0, queue_tasks [(sid, ?bytes)] st2)"
      using lock res enc send by (simp add: onClientInfo_def handshake_reply_def Let_def)
    then show ?thesis
      using assms(4) by (simp add: service_turn_def route_packet_def service_handler_def named_type_def set_session_def)
  qed
  have "sr_sendTasks (sv_reactors (queue_tasks [(sid, ?bytes)] st2) ! 0) =
      sr_sendTasks (sv_reactors st ! 0) @ [(sid, ?bytes)]"
    using svc_okD(3) [OF assms(1)] by (cases "sv_reactors st") (simp_all add: queue_tasks_def set_reactor_def st2_def set_session_def)
  moreover have "sv_destroyer (queue_tasks [(sid, ?bytes)] st2) = sv_destroyer st"
    by (simp add: queue_tasks_def set_reactor_def st2_def set_session_def)
  ultimately show ?thesis using r turn bound by (auto simp: st2_def)
qed

text \<open>The initiator's end: the host it dialled becomes the host of the node that answered.\<close>

lemma accept_reply:
  assumes "clean_session sid s st" and "16382 < fuel" and "sv_serviceQueue st = []"
    and "wire_ok (pb_clientInfoReply pb) m" and "cir_result m = 0"
    and "getSessionId (cir_nodeId m) (sv_hostsInfo st) = None"
    and "map_of (m_hosts (sv_hostsInfo st)) (ps_peerHost s) \<noteq> None"
    and "map_of (sv_connecting st) (ps_peerHost s) \<noteq> None"
  shows "\<exists>st1 st2. receive_data pb fuel sid (wire PT_ClientInfoReply M_unknown (pb_bytes (pb_clientInfoReply pb) m)) st =
      Some (Inr (0, st1)) \<and> service_turn pb junk st1 = Inr st2 \<and>
    getSessionId (cir_nodeId m) (sv_hostsInfo st2) = Some sid \<and> map_of (sv_connecting st2) (ps_peerHost s) = None \<and>
    sv_destroyer st2 = sv_destroyer st"
proof -
  let ?body = "pb_bytes (pb_clientInfoReply pb) m"
  have body: "?body \<noteq> []" "14 + length ?body \<le> 16382" "pb_parse (pb_clientInfoReply pb) ?body = (True, m)"
    using assms(4) by (simp_all add: wire_ok_def)
  obtain rb where r: "receive_data pb fuel sid (wire PT_ClientInfoReply M_unknown ?body) st =
      Some (Inr (0, route_packet sid
        (packet_head PT_ClientInfoReply M_unknown (length ?body), Some (Pl_ClientInfoReply m))
        (set_session (s\<lparr>ps_readBuffer := rb\<rparr>) st)))"
    using receive_whole [OF assms(1) body(2) assms(2), of PT_ClientInfoReply M_unknown pb] body
    by (auto simp: named_type_def module_normal_def module_of_def)
  have s: "ps_sessionId s = sid" using assms(1) by (simp add: clean_session_def)
  let ?st0 = "(set_session (s\<lparr>ps_readBuffer := rb\<rparr>) st)\<lparr>sv_serviceQueue := []\<rparr>"
  let ?st1 = "set_session (s\<lparr>ps_readBuffer := rb, ps_nodeId := cir_nodeId m\<rparr>) ?st0"
  have lock: "lock_session sid ?st0 = Some (s\<lparr>ps_readBuffer := rb\<rparr>)"
    using s by (simp add: lock_session_def set_session_def alist_simps)
  obtain st2 where acc: "reply_accepted sid (ps_peerHost s) (cir_nodeId m) ?st1 = (0, st2)"
    and b: "getSessionId (cir_nodeId m) (sv_hostsInfo st2) = Some sid"
    and c: "map_of (sv_connecting st2) (ps_peerHost s) = None" and q: "sv_destroyer st2 = sv_destroyer st"
    using assms(6,7,8)
    by (auto simp: reply_accepted_def set_session_def setHostId_def setHostConnected_def addHostIdInfo_def
        getSessionId_def alist_simps Let_def)
  have "service_turn pb junk (route_packet sid
        (packet_head PT_ClientInfoReply M_unknown (length ?body), Some (Pl_ClientInfoReply m))
        (set_session (s\<lparr>ps_readBuffer := rb\<rparr>) st)) = Inr st2"
    using lock acc assms(3,5)
    by (simp add: service_turn_def route_packet_def service_handler_def named_type_def onClientInfoReply_def
        set_session_def Let_def)
  then show ?thesis using r b c q by blast
qed

text \<open>
  C2: The handshake connects both ends.  A node \<open>a\<close> that has dialled \<open>b\<close> introduces itself; \<open>b\<close>, which
  knows no session of \<open>a\<close>, takes the bytes off the wire, binds \<open>a\<close> to its session and queues one reply; \<open>a\<close>
  takes that reply off the wire, binds \<open>b\<close> to its own session and forgets the pending connection.  Each
  side needs one turn of its service processor, and neither orders the session to be closed.
\<close>

theorem handshake_connects:
  assumes "svc_ok b" and "clean_session sb sessB b" and "clean_session sa sessA a" and "16382 < fuel"
    and "sv_serviceQueue a = []" and "sv_serviceQueue b = []" and "deliverable b 16382 sb"
    and "ci_nodeId m = sv_nodeId a" and "sv_nodeId a \<noteq> sv_nodeId b"
    and "encode_packet pb (Pl_ClientInfo m) = Inr request"
    and "wire_ok (pb_clientInfo pb) m" and "wire_ok (pb_clientInfoReply pb) (handshake_reply junk m b)"
    and "getSessionId (sv_nodeId a) (sv_hostsInfo b) = None" and "getSessionId (sv_nodeId b) (sv_hostsInfo a) = None"
    and "map_of (m_hosts (sv_hostsInfo a)) (ps_peerHost sessA) \<noteq> None"
    and "map_of (sv_connecting a) (ps_peerHost sessA) \<noteq> None"
  shows "\<exists>b1 b2 reply a1 a2.
    receive_data pb fuel sb request b = Some (Inr (0, b1)) \<and> service_turn pb junk b1 = Inr b2 \<and>
    getSessionId (sv_nodeId a) (sv_hostsInfo b2) = Some sb \<and> sv_destroyer b2 = sv_destroyer b \<and>
    sr_sendTasks (sv_reactors b2 ! 0) = sr_sendTasks (sv_reactors b ! 0) @ [(sb, reply)] \<and>
    receive_data pb fuel sa reply a = Some (Inr (0, a1)) \<and> service_turn pb junk a1 = Inr a2 \<and>
    getSessionId (sv_nodeId b) (sv_hostsInfo a2) = Some sa \<and>
    map_of (sv_connecting a2) (ps_peerHost sessA) = None \<and> sv_destroyer a2 = sv_destroyer a"
proof -
  have "request = wire PT_ClientInfo M_unknown (pb_bytes (pb_clientInfo pb) m)"
    using assms(10,11) by (simp add: encode_packet_bytes wire_def wire_ok_def)
  then show ?thesis
    using accept_request [OF assms(1,2,4,6,7,11,12)] accept_reply [OF assms(3,4,5,12)] assms(8,9,13-16)
    by (fastforce simp: handshake_reply_def)
qed

text \<open>Two nodes, one of which has dialled the other.\<close>

definition ex_request :: client_info where
  "ex_request = \<lparr>ci_seq = 0, ci_localHost = [], ci_peerHost = [], ci_handshakeUuid = [], ci_nodeId = ''a''\<rparr>"

definition ex_end_session :: p2p_session where
  "ex_end_session = (P2PSession_new (0, 0) 5 1 (rb_new c_p2pSessionReadBufferSize) (rb_new c_p2pSessionWriteBufferSize))
     \<lparr>ps_peerHost := HostEndPointInfo ''h'' 1\<rparr>"

definition ex_end :: "node_id \<Rightarrow> p2p_service" where
  "ex_end n = (P2PService_new 2 n (HostEndPointInfo ''x'' 2)
       \<lparr>m_hosts = [(HostEndPointInfo ''h'' 1, [], 0)], m_nodeIdInfos = []\<rparr>)
     \<lparr>sv_heap := [(1, ex_end_session)], sv_dispatcher := \<lparr>sd_sessionSize = [1, 0], sd_relation = [(1, 0)]\<rparr>,
      sv_reactors := [\<lparr>sr_sessions = [(1, 1)], sr_sendTasks = []\<rparr>, SlaveReactor_new],
      sv_connecting := [(HostEndPointInfo ''h'' 1, 7, -1)]\<rparr>"

definition ex_end_pb :: protobuf where
  "ex_end_pb = ex_pb\<lparr>pb_clientInfo := \<lparr>pb_bytes = \<lambda>m. 1 # map of_char (ci_nodeId m), pb_parse = \<lambda>bs. (True, ex_request)\<rparr>,
     pb_clientInfoReply := \<lparr>pb_bytes = \<lambda>m. 2 # map of_char (cir_nodeId m),
       pb_parse = \<lambda>bs. (True, handshake_reply 0 ex_request (ex_end ''b''))\<rparr>\<rparr>"

lemma ex_end_ok: "svc_ok (ex_end n)" "clean_session 1 ex_end_session (ex_end n)" "deliverable (ex_end n) 16382 1"
proof -
  have "unat c_p2pSessionReadBufferSize = 16384" by (simp add: c_p2pSessionReadBufferSize_def)
  then show "clean_session 1 ex_end_session (ex_end n)"
    by (simp add: clean_session_def ex_end_session_def ex_end_def lock_session_def P2PSession_new_def wf_rb_new
        content_rb_new capacity_rb_new)
  show "svc_ok (ex_end n)"
    by (auto simp: svc_ok_def ex_end_def dispatcher_ok_def heap_ok_def reactor_ok_def held_def SlaveReactor_new_def
        ex_end_session_def P2PSession_new_def)
  show "deliverable (ex_end n) 16382 1"
    by (simp add: deliverable_def ex_end_def sr_getP2PSession_def lock_session_def ex_end_session_def P2PSession_new_def)
qed

lemma handshake_connects_witness:
  "\<exists>b1 b2 reply a1 a2.
    receive_data ex_end_pb 20000 1 (header_bytes (packet_head PT_ClientInfo M_unknown (length [1 :: u8, 97])) @ [1, 97]) (ex_end ''b'') =
      Some (Inr (0, b1)) \<and> service_turn ex_end_pb 0 b1 = Inr b2 \<and> getSessionId ''a'' (sv_hostsInfo b2) = Some 1 \<and>
    sr_sendTasks (sv_reactors b2 ! 0) = [(1, reply)] \<and>
    receive_data ex_end_pb 20000 1 reply (ex_end ''a'') = Some (Inr (0, a1)) \<and>
    service_turn ex_end_pb 0 a1 = Inr a2 \<and> getSessionId ''b'' (sv_hostsInfo a2) = Some 1"
proof -
  have e: "encode_packet ex_end_pb (Pl_ClientInfo ex_request) =
      Inr (header_bytes (packet_head PT_ClientInfo M_unknown (length [1 :: u8, 97])) @ [1, 97])"
  proof -
    have "payload_bytes ex_end_pb (Pl_ClientInfo ex_request) = [1, 97]" by (simp add: ex_end_pb_def ex_request_def)
    then show ?thesis using encode_packet_bytes [of ex_end_pb "Pl_ClientInfo ex_request"] by simp
  qed
  have r: "wire_ok (pb_clientInfo ex_end_pb) ex_request"
    "wire_ok (pb_clientInfoReply ex_end_pb) (handshake_reply 0 ex_request (ex_end ''b''))"
    by (simp_all add: wire_ok_def ex_end_pb_def ex_request_def handshake_reply_def ex_end_def P2PService_new_def)
  have n: "sv_nodeId (ex_end k) = k" "sv_serviceQueue (ex_end k) = []" "getSessionId j (sv_hostsInfo (ex_end k)) = None"
    "map_of (m_hosts (sv_hostsInfo (ex_end k))) (ps_peerHost ex_end_session) \<noteq> None"
    "map_of (sv_connecting (ex_end k)) (ps_peerHost ex_end_session) \<noteq> None"
    "sr_sendTasks (sv_reactors (ex_end k) ! 0) = []" for j k
    by (simp_all add: ex_end_def P2PService_new_def getSessionId_def ex_end_session_def)
  show ?thesis
    using handshake_connects [OF ex_end_ok(1,2) ex_end_ok(2), of 20000 "''a''" "''b''" ex_request ex_end_pb _ 0]
      ex_end_ok(3) e r n by (simp add: ex_request_def) blast
qed

end
