(* ===== verification/Rpc.thy ===== *)
theory Rpc
  imports Network
begin

text \<open>
  The raw-string messages of \<^verbatim>\<open>csm-packetprocess\<close>, the HTTP server of \<^verbatim>\<open>csm-rpc\<close> that broadcasts them and
  the handler that receives them.
\<close>

section \<open>Raw strings\<close>

text \<open>
  \<^verbatim>\<open>PacketRawString\<close>; the protobuf message is its content, and its codec a parameter.
  \<^verbatim>\<open>SerializeToArray\<close> writes nothing when the array is too small.
\<close>

definition raw_packetLength :: "string pb_codec \<Rightarrow> string \<Rightarrow> nat" where
  "raw_packetLength raw content = length (pb_bytes raw content)"

definition raw_encode :: "string pb_codec \<Rightarrow> string \<Rightarrow> u8 list \<Rightarrow> u8 list" where
  "raw_encode raw content buffer =
     (let bytes = pb_bytes raw content
      in if length bytes \<le> length buffer then bytes @ drop (length bytes) buffer else buffer)"

definition raw_decode :: "string pb_codec \<Rightarrow> u8 list \<Rightarrow> string" where
  "raw_decode raw data = snd (pb_parse raw data)"

text \<open>The handler of \<^verbatim>\<open>POST /boardcastRawString\<close>.\<close>

definition boardcastRawString :: "string pb_codec \<Rightarrow> string \<Rightarrow> p2p_service \<Rightarrow> (int \<times> p2p_service) run" where
  "boardcastRawString raw body st =
     boardcastModuleMessage M_rpc (raw_encode raw body (replicate (raw_packetLength raw body) 0)) st"

text \<open>
  The handler of the module \<^verbatim>\<open>rpc\<close>: \<open>receiveNum\<close> is the global counter, and the second result tells whether a
  line is printed.
\<close>

definition rpc_handler :: "string pb_codec \<Rightarrow> u8 list \<Rightarrow> nat \<Rightarrow> bool \<times> nat" where
  "rpc_handler raw data receiveNum =
     (if raw_decode raw data = ''hello world''
      then (let n = receiveNum + 1 in if n mod 5000 = 0 then (True, 0) else (False, n))
      else (False, receiveNum))"

fun rpc_handle_all :: "string pb_codec \<Rightarrow> u8 list list \<Rightarrow> nat \<Rightarrow> nat \<times> nat" where
  "rpc_handle_all raw [] n = (0, n)"
| "rpc_handle_all raw (data # rest) n =
     (let (line, n1) = rpc_handler raw data n;
          (lines, n2) = rpc_handle_all raw rest n1
      in ((if line then 1 else 0) + lines, n2))"

lemma rpc_counter:
  "n < 5000 \<Longrightarrow> rpc_handle_all raw msgs n =
     ((n + length (filter (\<lambda>d. raw_decode raw d = ''hello world'') msgs)) div 5000,
      (n + length (filter (\<lambda>d. raw_decode raw d = ''hello world'') msgs)) mod 5000)"
proof (induction msgs arbitrary: n)
  case (Cons d msgs)
  show ?case
  proof (cases "raw_decode raw d = ''hello world'' \<and> n = 4999")
    case True
    then show ?thesis using Cons.IH [of 0] by (simp add: rpc_handler_def Let_def)
  next
    case False
    moreover have "n \<noteq> 4999 \<Longrightarrow> \<not> 5000 dvd Suc n" using Cons.prems by (auto dest: dvd_imp_le)
    ultimately show ?thesis
      using Cons.IH [of "n + 1"] Cons.IH [of n] Cons.prems by (auto simp: rpc_handler_def Let_def)
  qed
qed simp

lemma raw_encode_exact: "raw_encode raw content (replicate (raw_packetLength raw content) 0) = pb_bytes raw content"
  by (simp add: raw_encode_def raw_packetLength_def)

text \<open>
  What the code relies on of protobuf: a parsed message is the message serialised, and a message with the
  default value of its only field serialises to nothing.
\<close>

definition raw_documented :: "string pb_codec \<Rightarrow> string \<Rightarrow> bool" where
  "raw_documented raw s \<longleftrightarrow> pb_parse raw (pb_bytes raw s) = (True, s) \<and> (pb_bytes raw s = [] \<longleftrightarrow> s = [])"


definition ex_raw :: "string pb_codec" where
  "ex_raw = \<lparr>pb_bytes = map of_char, pb_parse = \<lambda>bs. (True, map (\<lambda>b. char_of (unat b)) bs)\<rparr>"

definition ex_rpc_receiver :: p2p_service where
  "ex_rpc_receiver = registerModulePacketHandler M_rpc (\<lambda>n bytes. 0) ex_receiver"


end
