(* ===== verification/RingTests.thy ===== *)
theory RingTests
  imports Rpc
begin

text \<open>
  \<^verbatim>\<open>unittest/RingBufferTest.cpp\<close>: the program's tests of the ring buffer, which fill and drain a buffer of
  32 KiB with packets holding the string hello.  A test returns the lines of the expectations that
  fail; loops that end on a condition have fuel, and \<open>None\<close> is running out of it.
\<close>

section \<open>The tests\<close>

definition c_bufferSize :: u64 where
  "c_bufferSize = 32 * 1024"

definition failing :: "(nat \<times> bool) list \<Rightarrow> nat list" where
  "failing es = map fst (filter (\<lambda>e. \<not> snd e) es)"

definition hello_header :: "string pb_codec \<Rightarrow> packet_header" where
  "hello_header raw =
     setPayloadLength (of_nat (raw_packetLength raw ''hello'')) (setType PT_ModuleMessage PacketHeader_new)"

definition rawStringBuffer :: "string pb_codec \<Rightarrow> u8 list run" where
  "rawStringBuffer raw =
     and_then (header_encode (hello_header raw)
       (replicate (unat headerLength + raw_packetLength raw ''hello'') 0) headerLength) (\<lambda>(_, buffer).
     Inr (take (unat headerLength) buffer @ raw_encode raw ''hello'' (drop (unat headerLength) buffer)))"

text \<open>
  Taking the next packet off the buffer, in the body of four loops.  The expectations are on the lines
  \<open>l1\<close>, \<open>l2\<close> and \<open>l3\<close>; without \<open>l2\<close> the magic number is asserted.  \<open>None\<close> is the loop's break.
\<close>

definition read_packet :: "packet_header \<Rightarrow> nat \<times> nat option \<times> nat \<Rightarrow> ringbuffer \<Rightarrow>
    (nat list \<times> (u8 list \<times> ringbuffer) option) run" where
  "read_packet h0 lines rb =
     (case lines of (l1, l2, l3) \<Rightarrow>
      case rb_getBufferForRead rb headerLength of (ret, p) \<Rightarrow>
      and_then
        (case p of
           Some off \<Rightarrow> header_decode (m_buffer rb) (unat off) headerLength h0
         | None \<Rightarrow>
             if ret = -2 then
               and_then (rb_readData rb headerLength 0 (replicate (unat headerLength) 0)) (\<lambda>(_, bs).
               header_decode bs 0 headerLength h0)
             else Inl NullDeref) (\<lambda>(_, h).
      if l2 = None \<and> \<not> isMagicMatch h then Inl AssertFailed
      else
        (let es = failing ((l1, ret \<noteq> -1) # (case l2 of None \<Rightarrow> [] | Some l \<Rightarrow> [(l, isMagicMatch h)]));
             payloadLength = (ucast (m_payloadLength h) :: u64)
         in if rb_dataLength rb - headerLength < payloadLength then Inr (es, None)
            else and_then (rb_readData rb payloadLength headerLength (replicate (unat payloadLength) 0))
              (\<lambda>(ret2, payload).
              Inr (es @ failing [(l3, ret2 \<noteq> -1)],
                Some (payload, snd (rb_decreaseUsedSpace rb (headerLength + payloadLength))))))))"

text \<open>The loops that take packets until fewer than \<open>least\<close> bytes are left.\<close>

fun drain :: "packet_header \<Rightarrow> nat \<times> nat option \<times> nat \<Rightarrow> u64 \<Rightarrow> nat \<Rightarrow> ringbuffer \<Rightarrow>
    (nat list \<times> nat \<times> ringbuffer) option run" where
  "drain h0 lines least 0 rb = Inr None"
| "drain h0 lines least (Suc fuel) rb =
     (if rb_dataLength rb < least then Inr (Some ([], 0, rb))
      else and_then (read_packet h0 lines rb) (\<lambda>(es, r).
        case r of
          None \<Rightarrow> Inr (Some (es, 0, rb))
        | Some (payload, rb1) \<Rightarrow>
            and_then (drain h0 lines least fuel rb1) (\<lambda>res.
            Inr (map_option (\<lambda>(es1, n, rb2). (es @ es1, Suc n, rb2)) res))))"

text \<open>The loops that take a number of packets and look at their content (on line \<open>l4\<close>).\<close>

fun read_packets :: "string pb_codec \<Rightarrow> packet_header \<Rightarrow> nat \<times> nat option \<times> nat \<Rightarrow> nat \<Rightarrow> u64 \<Rightarrow>
    nat \<Rightarrow> ringbuffer \<Rightarrow> (nat list \<times> ringbuffer) run" where
  "read_packets raw h0 lines l4 least 0 rb = Inr ([], rb)"
| "read_packets raw h0 lines l4 least (Suc n) rb =
     (if rb_dataLength rb < least then Inr ([], rb)
      else and_then (read_packet h0 lines rb) (\<lambda>(es, r).
        case r of
          None \<Rightarrow> Inr (es, rb)
        | Some (payload, rb1) \<Rightarrow>
            and_then (read_packets raw h0 lines l4 least n rb1) (\<lambda>(es1, rb2).
            Inr (es @ failing [(l4, raw_decode raw payload = ''hello'')] @ es1, rb2))))"

text \<open>The loop that fills the buffer through its write window; \<open>lastLen\<close> is \<^verbatim>\<open>lastPacketCopyLength\<close>.\<close>

fun fill :: "u8 list \<Rightarrow> nat \<Rightarrow> nat \<Rightarrow> ringbuffer \<Rightarrow> (nat list \<times> nat \<times> ringbuffer) option run" where
  "fill packet 0 lastLen rb = Inr None"
| "fill packet (Suc fuel) lastLen rb =
     (if rb_space rb = 0 then Inr (Some ([], lastLen, rb))
      else (case rb_getBufferAndLengthForWrite rb of
        (ret, None) \<Rightarrow> Inl NullDeref
      | (ret, Some (off, len)) \<Rightarrow>
          (let whole = (of_nat (length packet) \<le> len);
               n = (if whole then length packet else unat len)
           in and_then (mem_read packet 0 n) (\<lambda>bytes.
              and_then (mem_write (m_buffer rb) (unat off) bytes) (\<lambda>buffer.
              let (ret2, rb1) = rb_increaseUsedSpace (rb\<lparr>m_buffer := buffer\<rparr>) (of_nat n)
              in and_then (fill packet fuel (if whole then lastLen else n) rb1) (\<lambda>res.
                 Inr (map_option (\<lambda>(es, l, rb2).
                   (failing [(105, ret \<noteq> -1), (if whole then 111 else 117, ret2 \<noteq> -1)] @ es, l, rb2)) res)))))))"

text \<open>The loops that add whole packets, through the window without looking at its length, and by copying.\<close>

fun put_window :: "u8 list \<Rightarrow> nat \<Rightarrow> ringbuffer \<Rightarrow> (nat list \<times> ringbuffer) run" where
  "put_window packet 0 rb = Inr ([], rb)"
| "put_window packet (Suc n) rb =
     (case rb_getBufferAndLengthForWrite rb of
        (ret, None) \<Rightarrow> Inl NullDeref
      | (ret, Some (off, len)) \<Rightarrow>
          and_then (mem_write (m_buffer rb) (unat off) packet) (\<lambda>buffer.
          let (ret2, rb1) = rb_increaseUsedSpace (rb\<lparr>m_buffer := buffer\<rparr>) (of_nat (length packet))
          in and_then (put_window packet n rb1) (\<lambda>(es, rb2).
             Inr (failing [(186, ret \<noteq> -1), (190, ret2 \<noteq> -1)] @ es, rb2))))"

fun put_data :: "u8 list \<Rightarrow> nat \<times> nat \<Rightarrow> nat \<Rightarrow> ringbuffer \<Rightarrow> (nat list \<times> ringbuffer) run" where
  "put_data packet lines 0 rb = Inr ([], rb)"
| "put_data packet lines (Suc n) rb =
     and_then (rb_writeData rb packet (of_nat (length packet))) (\<lambda>(ret, rb1).
     let (ret2, rb2) = rb_increaseUsedSpace rb1 (of_nat (length packet))
     in and_then (put_data packet lines n rb2) (\<lambda>(es, rb3).
        Inr (failing [(fst lines, ret \<noteq> -1), (snd lines, ret2 \<noteq> -1)] @ es, rb3)))"

definition test_one_packet :: "string pb_codec \<Rightarrow> nat list run" where
  "test_one_packet raw =
     (let rb = rb_new c_bufferSize in
      and_then (rawStringBuffer raw) (\<lambda>packet.
      case rb_getBufferAndLengthForWrite rb of
        (ret, None) \<Rightarrow> Inl NullDeref
      | (ret, Some (off, len)) \<Rightarrow>
          and_then (mem_write (m_buffer rb) (unat off) packet) (\<lambda>buffer.
          let (ret2, rb1) = rb_increaseUsedSpace (rb\<lparr>m_buffer := buffer\<rparr>) (of_nat (length packet))
          in case rb_getBufferForRead rb1 headerLength of
               (ret3, None) \<Rightarrow> Inl NullDeref
             | (ret3, Some start) \<Rightarrow>
                 and_then (header_decode (m_buffer rb1) (unat start) headerLength (hello_header raw)) (\<lambda>(_, h).
                 let payloadLength = (ucast (m_payloadLength h) :: u64)
                 in and_then (rb_readData rb1 payloadLength headerLength (replicate (unat payloadLength) 0))
                   (\<lambda>(ret4, payload).
                   let rb2 = snd (rb_decreaseUsedSpace rb1 (headerLength + payloadLength))
                   in Inr (failing
                     [(40, rb_space rb > of_nat (length packet)), (45, ret \<noteq> -1), (49, ret2 \<noteq> -1),
                      (51, rb_dataLength rb1 = of_nat (length packet)), (54, ret3 \<noteq> -1), (57, isMagicMatch h),
                      (62, ret4 \<noteq> -1), (65, rb_dataLength rb2 = 0),
                      (68, raw_decode raw payload = ''hello'')]))))))"

text \<open>\<^verbatim>\<open>fullBufferTest\<close>; the second half starts where the packet that did not fit is completed.\<close>

definition test_full_refill :: "nat \<Rightarrow> packet_header \<Rightarrow> u8 list \<Rightarrow> nat \<Rightarrow> ringbuffer \<Rightarrow> nat list option run" where
  "test_full_refill fuel h packet lastLen rb =
     and_then (if lastLen \<noteq> 0
       then and_then (mem_read packet lastLen (length packet - lastLen)) (\<lambda>rest.
         and_then (rb_writeData rb rest (of_nat (length packet - lastLen))) (\<lambda>(ret, rb1).
         Inr (failing [(172, ret \<noteq> -1)], 1, snd (rb_increaseUsedSpace rb1 (of_nat (length packet - lastLen))))))
       else Inr ([], 0, rb)) (\<lambda>(es1, packetSum, rb1).
     and_then (put_window packet 50 rb1) (\<lambda>(es2, rb2).
     and_then (drain h (211, Some 214, 227) 1 fuel rb2) (\<lambda>res.
     Inr (map_option (\<lambda>(es3, packetNum, rb3).
       es1 @ failing [(178, rb_dataLength rb1 = of_nat (length packet))] @ es2 @
       failing [(195, rb_dataLength rb2 = of_nat ((packetSum + 50) * length packet))] @ es3 @
       failing [(234, packetNum = packetSum + 50), (235, rb_dataLength rb3 = 0),
         (236, rb_space rb3 = c_bufferSize - 2)]) res))))"

definition test_full :: "nat \<Rightarrow> string pb_codec \<Rightarrow> nat list option run" where
  "test_full fuel raw =
     and_then (rawStringBuffer raw) (\<lambda>packet.
     and_then (fill packet fuel 0 (rb_new c_bufferSize)) (\<lambda>filled.
     case filled of None \<Rightarrow> Inr None
     | Some (es1, lastLen, rb1) \<Rightarrow>
         and_then (drain (hello_header raw) (144, Some 147, 160) headerLength fuel rb1) (\<lambda>drained.
         case drained of None \<Rightarrow> Inr None
         | Some (es2, _, rb2) \<Rightarrow>
             and_then (test_full_refill fuel (hello_header raw) packet lastLen rb2) (\<lambda>refilled.
             Inr (map_option (\<lambda>es3.
               es1 @ failing [(123, rb_space rb1 = 0)] @ es2 @
               failing [(165, rb_dataLength rb2 = of_nat lastLen)] @ es3) refilled)))))"

definition test_write_data :: "string pb_codec \<Rightarrow> nat list run" where
  "test_write_data raw =
     and_then (rawStringBuffer raw) (\<lambda>packet.
     let packetSize = unat (c_bufferSize div of_nat (length packet)) in
     and_then (put_data packet (269, 272) packetSize (rb_new c_bufferSize)) (\<lambda>(es1, rb1).
     and_then (read_packets raw (hello_header raw) (294, Some 297, 310) 316 headerLength (packetSize - 1) rb1)
       (\<lambda>(es2, rb2).
     and_then (put_data packet (323, 326) 50 rb2) (\<lambda>(es3, rb3).
     and_then (read_packets raw (hello_header raw) (355, None, 371) 377 0 51 rb3) (\<lambda>(es4, rb4).
     Inr (es1 @ es2 @ es3 @
       failing ((329, rb_dataLength rb3 = of_nat (51 * length packet)) #
         concat (map (\<lambda>i. map (\<lambda>j.
           (337, m_buffer rb3 ! unat ((m_startOffset rb3 + of_nat i * of_nat (length packet) + of_nat j) mod c_bufferSize)
             = packet ! j)) [0..<length packet]) [0..<51])) @
       es4 @ failing [(380, rb_dataLength rb4 = 0), (381, rb_space rb4 = c_bufferSize - 2)]))))))"


section \<open>The buffer during a test\<close>

text \<open>A buffer of the tests that starts at \<open>S\<close> and holds \<open>c\<close>.\<close>

definition holds :: "nat \<Rightarrow> u8 list \<Rightarrow> ringbuffer \<Rightarrow> bool" where
  "holds S c rb \<longleftrightarrow> wf_rb rb \<and> length (m_buffer rb) = 32768 \<and> unat (m_startOffset rb) = S \<and> rb_content rb = c"

lemma holdsD:
  assumes "holds S c rb"
  shows "wf_rb rb" "length (m_buffer rb) = 32768" "unat (m_startOffset rb) = S" "rb_content rb = c"
    "unat (m_size rb) = 32768" "S < 32768" "rb_capacity rb = 32766" "length c \<le> 32766"
    "unat (rb_dataLength rb) = length c" "unat (rb_space rb) = 32766 - length c"
    "unat (m_endOffset rb) = (S + length c) mod 32768"
proof -
  show wf: "wf_rb rb" and len: "length (m_buffer rb) = 32768" and st: "unat (m_startOffset rb) = S"
    and c: "rb_content rb = c"
    using assms by (auto simp: holds_def)
  show "unat (m_size rb) = 32768" using wf_rbD(1) [OF wf] len by simp
  show lt: "S < 32768" using wf_rbD(4) [OF wf] len st by simp
  show cap: "rb_capacity rb = 32766" using len by (simp add: rb_capacity_def)
  show "length c \<le> 32766" using rb.content_fits [OF wf] c cap by simp
  show "unat (rb_dataLength rb) = length c" using rb_dataLength_unat [OF wf] c by simp
  show "unat (rb_space rb) = 32766 - length c" using rb_space_unat [OF wf] c cap by simp
  have "unat (m_endOffset rb) < 32768" using wf_rbD(5) [OF wf] len by simp
  then show "unat (m_endOffset rb) = (S + length c) mod 32768"
    using length_rb_content [of rb] st len lt c by (auto simp: le_mod_geq split: if_splits)
qed

lemma holds_new: "holds 0 [] (rb_new c_bufferSize)"
  by (simp add: holds_def wf_rb_new content_rb_new c_bufferSize_def) (simp add: rb_new_def)

text \<open>Adding bytes: by \<^verbatim>\<open>writeData\<close>, or through the window where they fit behind the end offset.\<close>

lemma holds_write:
  assumes h: "holds S c rb" and fits: "length c + length d \<le> 32766"
  shows "\<exists>rb1 rb2. rb_writeData rb d (of_nat (length d)) = Inr (0, rb1) \<and>
    rb_increaseUsedSpace rb1 (of_nat (length d)) = (0, rb2) \<and> holds S (c @ d) rb2 \<and>
    rb1 = rb\<lparr>m_buffer := ring_store ((S + length c) mod 32768) d (m_buffer rb)\<rparr>"
proof -
  note hd = holdsD [OF h]
  have d: "length d \<le> rb_capacity rb - length (rb_content rb)" using fits hd by simp
  have u: "unat (of_nat (length d) :: u64) = length d"
    using fits by (simp add: unat_of_nat take_bit_nat_eq_self)
  define rb1 where "rb1 = rb\<lparr>m_buffer := ring_store (unat (m_endOffset rb)) d (m_buffer rb)\<rparr>"
  have w: "rb_writeData rb d (of_nat (length d)) = Inr (0, rb1)"
    unfolding rb1_def by (rule rb_writeData_store [OF hd(1) u d])
  obtain rb2 where p: "rb_push rb d = Inr (0, rb2)" "wf_rb rb2" "rb_content rb2 = c @ d" "rb_capacity rb2 = 32766"
    using rb.push_fits [OF hd(1) d] hd by auto
  obtain r where inc: "rb_increaseUsedSpace rb1 (of_nat (length d)) = (r, rb2)" and r: "r \<noteq> -1"
    using p(1) w by (auto simp: rb_push_def Let_def split: if_splits prod.splits)
  have r0: "r = 0" using inc r by (auto simp: rb_increaseUsedSpace_def split: if_splits)
  have "unat (m_startOffset rb2) = S" using rb_push_start [OF p(1)] hd by simp
  then have "holds S (c @ d) rb2" using p wf_rbD(2) [OF p(2)] by (simp add: holds_def rb_capacity_def)
  with w inc r0 show ?thesis using hd by (auto simp: rb1_def)
qed

lemma holds_window:
  assumes h: "holds S c rb" and fits: "length c + length d \<le> 32766"
    and flat: "(S + length c) mod 32768 + length d \<le> 32768"
  shows "\<exists>buffer rb2. mem_write (m_buffer rb) (unat (m_endOffset rb)) d = Inr buffer \<and>
    rb_increaseUsedSpace (rb\<lparr>m_buffer := buffer\<rparr>) (of_nat (length d)) = (0, rb2) \<and> holds S (c @ d) rb2"
proof -
  let ?E = "(S + length c) mod 32768"
  note hd = holdsD [OF h]
  obtain rb1 rb2 where w: "rb_increaseUsedSpace rb1 (of_nat (length d)) = (0, rb2)" "holds S (c @ d) rb2"
    "rb1 = rb\<lparr>m_buffer := ring_store ?E d (m_buffer rb)\<rparr>"
    using holds_write [OF h fits] by blast
  have "length d \<le> length (m_buffer rb) - ?E" using flat hd(2) by simp
  then have "mem_write (m_buffer rb) (unat (m_endOffset rb)) d = Inr (ring_store ?E d (m_buffer rb))"
    using flat hd(2,11) by (simp add: ring_store_def)
  with w show ?thesis by blast
qed

text \<open>The window for writing, when it is not empty.\<close>

lemma holds_window_length:
  assumes h: "holds S c rb" and room: "length c < 32766" and S: "S = 0 \<or> 32768 \<le> S + length c"
  shows "\<exists>n. rb_getBufferAndLengthForWrite rb = (0, Some (m_endOffset rb, n)) \<and> unat n = 32766 - length c"
proof -
  note hd = holdsD [OF h]
  have sp: "rb_space rb \<noteq> 0" using hd(10) room by (metis diff_is_0_eq not_le unat_0)
  show ?thesis
  proof (cases "S = 0")
    case True
    then have s0: "m_startOffset rb = 0" using hd(3) by (simp add: unat_eq_0)
    have "unat (m_size rb - c_reservedSpace - m_endOffset rb) = 32766 - length c"
      using hd(5,11) True room by (simp add: rb_unat)
    with s0 sp show ?thesis by (simp add: rb_getBufferAndLengthForWrite_def c_reservedSpace_def)
  next
    case False
    with S hd(6,8) have E: "unat (m_endOffset rb) = S + length c - 32768" using hd(11) by (simp add: le_mod_geq)
    have "unat (m_startOffset rb - m_endOffset rb - c_reservedSpace) = 32766 - length c"
      using hd(3) E room S False by (simp add: rb_unat)
    moreover have "\<not> m_startOffset rb \<le> m_endOffset rb" using hd(3) E room S False by (simp add: word_le_nat_alt)
    ultimately show ?thesis using sp by (simp add: rb_getBufferAndLengthForWrite_def)
  qed
qed

text \<open>Taking bytes off the front.\<close>

lemma holds_decrease:
  assumes h: "holds S (d @ c) rb" and n: "unat n = length d"
  shows "holds (if c = [] then 0 else (S + length d) mod 32768) c (snd (rb_decreaseUsedSpace rb n))"
proof -
  note hd = holdsD [OF h]
  obtain rb1 where r: "rb_decreaseUsedSpace rb n = (0, rb1)" "wf_rb rb1" "rb_content rb1 = c" "rb_capacity rb1 = 32766"
    using rb.pop_ok [OF hd(1), of n] hd(4,7) n by auto
  have "unat (m_startOffset rb1) = (if c = [] then 0 else (S + length d) mod 32768)"
  proof (cases "c = []")
    case True
    then show ?thesis using empty_start [OF r(2)] r(3) by simp
  next
    case False
    then show ?thesis using rb_decrease_start(1) [OF hd(1), of n] hd r(1) n by simp
  qed
  with r show ?thesis using wf_rbD(2) [OF r(2)] by (simp add: holds_def rb_capacity_def)
qed

lemma ring_content_nth:
  assumes "S < length buf" "E < length buf" "k < length (ring_content S E buf)"
  shows "ring_content S E buf ! k = buf ! ((S + k) mod length buf)"
proof (cases "S + k < length buf")
  case True
  with assms show ?thesis by (auto simp: ring_content_def nth_append)
next
  case False
  with assms have wrap: "\<not> S \<le> E" by (auto simp: ring_content_def)
  with assms have "k < E + (length buf - S)" by (simp add: ring_content_def)
  with assms False wrap have "(S + k) mod length buf = S + k - length buf" by (simp add: le_mod_geq)
  with False wrap assms show ?thesis by (auto simp: ring_content_def nth_append add.commute)
qed

lemma holds_nth:
  assumes h: "holds S c rb" and k: "k < length c"
  shows "m_buffer rb ! ((S + k) mod 32768) = c ! k"
  using ring_content_nth [of S "m_buffer rb" "unat (m_endOffset rb)" k] holdsD [OF h] wf_rbD(5) [of rb] k
  by (auto simp: rb_content_def)


section \<open>Packets\<close>

definition hello_packet :: "string pb_codec \<Rightarrow> u8 list" where
  "hello_packet raw = header_bytes (hello_header raw) @ pb_bytes raw ''hello''"

text \<open>
  What the tests rely on of protobuf: a string field of five bytes takes seven bytes (its tag, its length
  and the string), and is parsed back.
\<close>

definition raw_hello :: "string pb_codec \<Rightarrow> bool" where
  "raw_hello raw \<longleftrightarrow> raw_documented raw ''hello'' \<and> length (pb_bytes raw ''hello'') = 7"

lemma raw_helloD:
  assumes "raw_hello raw"
  shows "length (pb_bytes raw ''hello'') = 7" "length (hello_packet raw) = 21"
    "raw_decode raw (pb_bytes raw ''hello'') = ''hello''" "rawStringBuffer raw = Inr (hello_packet raw)"
    "m_payloadLength (hello_header raw) = 7" "isMagicMatch (hello_header raw)"
    "header_parse (header_bytes (hello_header raw)) = hello_header raw"
proof -
  show l: "length (pb_bytes raw ''hello'') = 7" "raw_decode raw (pb_bytes raw ''hello'') = ''hello''"
    using assms by (auto simp: raw_hello_def raw_documented_def raw_decode_def)
  then show "length (hello_packet raw) = 21" by (simp add: hello_packet_def)
  have z: "raw_packetLength raw ''hello'' = 7" using l by (simp add: raw_packetLength_def)
  then show "rawStringBuffer raw = Inr (hello_packet raw)"
    using raw_encode_exact [of raw "''hello''"]
    by (simp add: rawStringBuffer_def header_encode_spec hello_packet_def)
  show "m_payloadLength (hello_header raw) = 7" "isMagicMatch (hello_header raw)"
    by (simp_all add: hello_header_def z setPayloadLength_def setType_def PacketHeader_new_def isMagicMatch_def)
  show "header_parse (header_bytes (hello_header raw)) = hello_header raw"
    using header_parse_bytes [of "hello_header raw" "[]"]
    by (simp add: hello_header_def setPayloadLength_def setType_def PacketHeader_new_def module_normal_def module_of_def)
qed

lemma holds_header:
  assumes h: "holds S (header_bytes h1 @ c) rb" and h1: "header_parse (header_bytes h1) = h1"
  shows "(case rb_getBufferForRead rb headerLength of (ret, p) \<Rightarrow> ret \<noteq> -1 \<and>
    (case p of
       Some off \<Rightarrow> header_decode (m_buffer rb) (unat off) headerLength h0 = Inr (0, h1)
     | None \<Rightarrow> ret = -2 \<and> rb_readData rb headerLength 0 (replicate (unat headerLength) 0) = Inr (0, header_bytes h1) \<and>
         header_decode (header_bytes h1) 0 headerLength h0 = Inr (0, h1)))"
proof -
  note hs = holdsD [OF h]
  have t: "take 14 (rb_content rb) = header_bytes h1" using hs(4) by simp
  have u: "unat headerLength \<le> length (rb_content rb)" using hs(4) by simp
  show ?thesis
  proof (cases "unat (m_startOffset rb) < unat (m_endOffset rb) \<or>
      unat (m_startOffset rb) + unat headerLength \<le> length (m_buffer rb)")
    case True
    from rb_getBufferForRead_cases(2) [OF hs(1) u this]
    have g: "rb_getBufferForRead rb headerLength = (0, Some (m_startOffset rb))"
      and m: "mem_read (m_buffer rb) (unat (m_startOffset rb)) 14 = Inr (header_bytes h1)"
      using t by simp_all
    have fit: "unat (m_startOffset rb) + 14 \<le> length (m_buffer rb)"
      using m by (simp add: mem_read_def split: if_splits)
    have "take 14 (drop (unat (m_startOffset rb)) (m_buffer rb)) = header_bytes h1"
      using m fit by simp
    then have "header_parse (drop (unat (m_startOffset rb)) (m_buffer rb)) = h1"
      using header_parse_take [of 14 "drop (unat (m_startOffset rb)) (m_buffer rb)"] h1 by simp
    with g header_decode_spec [OF fit, of h0] show ?thesis by simp
  next
    case False
    then have "rb_getBufferForRead rb headerLength = (-2, None)"
      using rb_getBufferForRead_cases(3) [OF hs(1) u] by simp
    moreover have "rb_readData rb headerLength 0 (replicate 14 0) = Inr (0, header_bytes h1)"
      using rb.peek_ok [OF hs(1), of 0 headerLength "replicate 14 0"] u t by simp
    ultimately show ?thesis using header_decode_spec [of 0 "header_bytes h1" h0] h1 by simp
  qed
qed

lemma holds_read:
  assumes raw: "raw_hello raw" and h: "holds S (hello_packet raw @ c) rb"
  shows "\<exists>rb1. read_packet h0 (l1, l2, l3) rb = Inr ([], Some (pb_bytes raw ''hello'', rb1)) \<and>
    holds (if c = [] then 0 else (S + 21) mod 32768) c rb1"
proof -
  note rw = raw_helloD [OF raw] and hs = holdsD [OF h]
  let ?hd = "hello_header raw" and ?p = "pb_bytes raw ''hello''"
  define rb1 where "rb1 = snd (rb_decreaseUsedSpace rb (headerLength + 7))"
  have after: "holds (if c = [] then 0 else (S + 21) mod 32768) c rb1"
    using holds_decrease [OF h, of "headerLength + 7"] rw(2) by (simp add: rb1_def headerLength_eq split: if_splits)
  have len: "length (rb_content rb) = 21 + length c" using hs(4) rw(2) by simp
  have enough: "\<not> rb_dataLength rb - headerLength < 7"
    using hs(9) rw(2) by (simp add: word_less_nat_alt rb_unat)
  have pay: "rb_readData rb 7 headerLength (replicate 7 0) = Inr (0, ?p)"
    using rb.peek_ok [OF hs(1), of headerLength 7 "replicate 7 0"] len hs(4) rw(1)
    by (simp add: hello_packet_def)
  have "holds S (header_bytes ?hd @ ?p @ c) rb" using h by (simp add: hello_packet_def)
  from holds_header [OF this rw(7), of h0]
  have "read_packet h0 (l1, l2, l3) rb = Inr ([], Some (?p, rb1))"
    using enough pay rw(5,6)
    by (auto simp: read_packet_def failing_def rb1_def Let_def split: option.splits prod.splits)
  with after show ?thesis by blast
qed


section \<open>The loops\<close>

abbreviation hellos :: "string pb_codec \<Rightarrow> nat \<Rightarrow> u8 list" where
  "hellos raw n \<equiv> concat (replicate n (hello_packet raw))"

lemma length_hellos: "raw_hello raw \<Longrightarrow> length (hellos raw n) = 21 * n"
  by (induction n) (simp_all add: raw_helloD)

lemma hellos_snoc: "hellos raw n @ hello_packet raw = hellos raw (Suc n)"
  by (induction n) simp_all

text \<open>Where the buffer starts after \<open>n\<close> packets have been taken and \<open>c\<close> is left.\<close>

definition advanced :: "nat \<Rightarrow> nat \<Rightarrow> 'a list \<Rightarrow> nat \<Rightarrow> bool" where
  "advanced S n c S' \<longleftrightarrow> c = [] \<or> S' = (S + 21 * n) mod 32768"

lemma advanced_Suc:
  assumes "advanced (if rest = [] then 0 else (S + 21) mod 32768) n c S'" and "c \<noteq> [] \<Longrightarrow> rest \<noteq> []"
  shows "advanced S (Suc n) c S'"
  using assms by (cases "c = []") (auto simp: advanced_def mod_simps algebra_simps)

lemma read_packets_hellos:
  assumes raw: "raw_hello raw" and least: "unat least \<le> 21"
  shows "holds S (hellos raw n @ c) rb \<Longrightarrow>
    \<exists>S' rb1. read_packets raw h0 (l1, l2, l3) l4 least n rb = Inr ([], rb1) \<and> holds S' c rb1 \<and> advanced S n c S'"
proof (induction n arbitrary: S rb)
  case 0
  then show ?case using holdsD(6) [OF 0] by (auto simp: advanced_def)
next
  case (Suc n)
  let ?rest = "hellos raw n @ c"
  have h: "holds S (hello_packet raw @ ?rest) rb" using Suc.prems by simp
  obtain rb1 where r: "read_packet h0 (l1, l2, l3) rb = Inr ([], Some (pb_bytes raw ''hello'', rb1))"
    and h1: "holds (if ?rest = [] then 0 else (S + 21) mod 32768) ?rest rb1"
    using holds_read [OF raw h] by blast
  obtain S' rb2 where i: "read_packets raw h0 (l1, l2, l3) l4 least n rb1 = Inr ([], rb2)" "holds S' c rb2"
    "advanced (if ?rest = [] then 0 else (S + 21) mod 32768) n c S'"
    using Suc.IH [OF h1] by blast
  have "advanced S (Suc n) c S'" using i(3) by (rule advanced_Suc) simp
  moreover have "\<not> rb_dataLength rb < least"
    using holdsD(9) [OF h] raw_helloD(2) [OF raw] least by (simp add: word_less_nat_alt)
  ultimately show ?case using r i raw_helloD(3) [OF raw] by (auto simp: failing_def)
qed

lemma drain_hellos:
  assumes raw: "raw_hello raw" and least: "unat least \<le> 21" "length c < unat least"
  shows "holds S (hellos raw n @ c) rb \<Longrightarrow>
    \<exists>S' rb1. drain h0 (l1, l2, l3) least (Suc n + k) rb = Inr (Some ([], n, rb1)) \<and> holds S' c rb1 \<and> advanced S n c S'"
proof (induction n arbitrary: S rb)
  case 0
  moreover have "rb_dataLength rb < least" using holdsD(9) [OF 0] least by (simp add: word_less_nat_alt)
  ultimately show ?case using holdsD(6) [OF 0] by (auto simp: advanced_def)
next
  case (Suc n)
  let ?rest = "hellos raw n @ c"
  have h: "holds S (hello_packet raw @ ?rest) rb" using Suc.prems by simp
  obtain rb1 where r: "read_packet h0 (l1, l2, l3) rb = Inr ([], Some (pb_bytes raw ''hello'', rb1))"
    and h1: "holds (if ?rest = [] then 0 else (S + 21) mod 32768) ?rest rb1"
    using holds_read [OF raw h] by blast
  obtain S' rb2 where i: "drain h0 (l1, l2, l3) least (Suc n + k) rb1 = Inr (Some ([], n, rb2))" "holds S' c rb2"
    "advanced (if ?rest = [] then 0 else (S + 21) mod 32768) n c S'"
    using Suc.IH [OF h1] by blast
  have "advanced S (Suc n) c S'" using i(3) by (rule advanced_Suc) simp
  moreover have "\<not> rb_dataLength rb < least"
    using holdsD(9) [OF h] raw_helloD(2) [OF raw] least by (simp add: word_less_nat_alt)
  ultimately show ?case using r i by auto
qed

lemma put_data_hellos:
  assumes raw: "raw_hello raw"
  shows "holds S c rb \<Longrightarrow> length c + 21 * n \<le> 32766 \<Longrightarrow>
    \<exists>rb1. put_data (hello_packet raw) ls n rb = Inr ([], rb1) \<and> holds S (c @ hellos raw n) rb1"
proof (induction n arbitrary: c rb)
  case 0
  then show ?case by simp
next
  case (Suc n)
  note len = raw_helloD(2) [OF raw]
  obtain rb1 rb2 where w: "rb_writeData rb (hello_packet raw) (of_nat (length (hello_packet raw))) = Inr (0, rb1)"
    "rb_increaseUsedSpace rb1 (of_nat (length (hello_packet raw))) = (0, rb2)" "holds S (c @ hello_packet raw) rb2"
    using holds_write [OF Suc.prems(1), of "hello_packet raw"] Suc.prems(2) len by auto
  from Suc.IH [OF w(3)] Suc.prems(2) len obtain rb3 where
    "put_data (hello_packet raw) ls n rb2 = Inr ([], rb3)" "holds S (c @ hellos raw (Suc n)) rb3"
    by auto
  with w show ?case by (auto simp: failing_def)
qed

lemma put_window_hellos:
  assumes raw: "raw_hello raw"
  shows "holds S c rb \<Longrightarrow> length c + 21 * n \<le> 32766 \<Longrightarrow> 32768 \<le> S + length c \<Longrightarrow>
    \<exists>rb1. put_window (hello_packet raw) n rb = Inr ([], rb1) \<and> holds S (c @ hellos raw n) rb1"
proof (induction n arbitrary: c rb)
  case 0
  then show ?case by simp
next
  case (Suc n)
  note len = raw_helloD(2) [OF raw] and hs = holdsD [OF Suc.prems(1)]
  have "(S + length c) mod 32768 = S + length c - 32768" using Suc.prems hs(6) by (simp add: le_mod_geq)
  then have flat: "(S + length c) mod 32768 + length (hello_packet raw) \<le> 32768"
    using Suc.prems(2) hs(6) len by simp
  obtain buffer rb2 where w: "mem_write (m_buffer rb) (unat (m_endOffset rb)) (hello_packet raw) = Inr buffer"
    "rb_increaseUsedSpace (rb\<lparr>m_buffer := buffer\<rparr>) (of_nat (length (hello_packet raw))) = (0, rb2)"
    "holds S (c @ hello_packet raw) rb2"
    using holds_window [OF Suc.prems(1) _ flat] Suc.prems(2) len by auto
  obtain len2 where g: "rb_getBufferAndLengthForWrite rb = (0, Some (m_endOffset rb, len2))"
    using holds_window_length [OF Suc.prems(1)] Suc.prems(2,3) by auto
  from Suc.IH [OF w(3)] Suc.prems(2,3) len obtain rb3 where
    "put_window (hello_packet raw) n rb2 = Inr ([], rb3)" "holds S (c @ hellos raw (Suc n)) rb3"
    by auto
  with w g show ?case by (auto simp: failing_def)
qed


lemma fill_last:
  assumes raw: "raw_hello raw" and h: "holds 0 (hellos raw 1560) rb"
  shows "\<exists>rb1. fill (hello_packet raw) (Suc (Suc k)) 0 rb = Inr (Some ([], 6, rb1)) \<and>
    holds 0 (hellos raw 1560 @ take 6 (hello_packet raw)) rb1"
proof -
  note len = raw_helloD(2) [OF raw] and hs = holdsD [OF h]
  let ?d = "take 6 (hello_packet raw)"
  have l: "length (hellos raw 1560) = 32760" using length_hellos [OF raw, of 1560] by simp
  obtain window where g: "rb_getBufferAndLengthForWrite rb = (0, Some (m_endOffset rb, window))" "unat window = 6"
    using holds_window_length [OF h] l by auto
  obtain buffer rb1 where w: "mem_write (m_buffer rb) (unat (m_endOffset rb)) ?d = Inr buffer"
    "rb_increaseUsedSpace (rb\<lparr>m_buffer := buffer\<rparr>) 6 = (0, rb1)" "holds 0 (hellos raw 1560 @ ?d) rb1"
    using holds_window [OF h, of ?d] l len by auto
  have "rb_space rb \<noteq> 0" using hs(10) l by auto
  moreover have "unat (rb_space rb1) = 0" using holdsD(10) [OF w(3)] l len by simp
  then have "rb_space rb1 = 0" by (simp add: unat_eq_0)
  moreover have "\<not> of_nat (length (hello_packet raw)) \<le> window" using g(2) len by (simp add: word_le_nat_alt)
  ultimately show ?thesis using g w len by (auto simp: failing_def Let_def)
qed

lemma fill_hellos:
  assumes raw: "raw_hello raw"
  shows "holds 0 (hellos raw j) rb \<Longrightarrow> j + m = 1560 \<Longrightarrow>
    \<exists>rb1. fill (hello_packet raw) (m + Suc (Suc k)) 0 rb = Inr (Some ([], 6, rb1)) \<and>
      holds 0 (hellos raw 1560 @ take 6 (hello_packet raw)) rb1"
proof (induction m arbitrary: j rb)
  case 0
  then show ?case using fill_last [OF raw, of rb k] by simp
next
  case (Suc m)
  note len = raw_helloD(2) [OF raw] and hs = holdsD [OF Suc.prems(1)]
  have l: "length (hellos raw j) = 21 * j" by (rule length_hellos [OF raw])
  obtain window where g: "rb_getBufferAndLengthForWrite rb = (0, Some (m_endOffset rb, window))"
    "unat window = 32766 - 21 * j"
    using holds_window_length [OF Suc.prems(1)] l Suc.prems(2) by auto
  obtain buffer rb1 where w: "mem_write (m_buffer rb) (unat (m_endOffset rb)) (hello_packet raw) = Inr buffer"
    "rb_increaseUsedSpace (rb\<lparr>m_buffer := buffer\<rparr>) 21 = (0, rb1)"
    "holds 0 (hellos raw j @ hello_packet raw) rb1"
    using holds_window [OF Suc.prems(1), of "hello_packet raw"] l len Suc.prems(2) by auto
  have "rb_space rb \<noteq> 0" using hs(10) l Suc.prems(2) by auto
  moreover have "of_nat (length (hello_packet raw)) \<le> window"
    using g(2) len Suc.prems(2) by (simp add: word_le_nat_alt)
  moreover obtain rb2 where "fill (hello_packet raw) (m + Suc (Suc k)) 0 rb1 = Inr (Some ([], 6, rb2))"
    "holds 0 (hellos raw 1560 @ take 6 (hello_packet raw)) rb2"
    using Suc.IH [of "Suc j" rb1] w(3) Suc.prems(2) hellos_snoc [of j raw] by auto
  ultimately show ?case using g w len by (auto simp: failing_def Let_def)
qed

section \<open>The outcome\<close>

lemma one_packet_passes:
  assumes raw: "raw_hello raw"
  shows "test_one_packet raw = Inr []"
proof -
  note rw = raw_helloD [OF raw]
  let ?p = "hello_packet raw" and ?rb = "rb_new c_bufferSize"
  obtain window where g: "rb_getBufferAndLengthForWrite ?rb = (0, Some (m_endOffset ?rb, window))"
    using holds_window_length [OF holds_new] by auto
  obtain buffer rb1 where w: "mem_write (m_buffer ?rb) (unat (m_endOffset ?rb)) ?p = Inr buffer"
    "rb_increaseUsedSpace (?rb\<lparr>m_buffer := buffer\<rparr>) 21 = (0, rb1)" "holds 0 ?p rb1"
    using holds_window [OF holds_new, of ?p] rw(2) by auto
  note h1 = holdsD [OF w(3)]
  have e: "unat (m_startOffset rb1) < unat (m_endOffset rb1)" using h1(3,11) rw(2) by simp
  have u: "unat headerLength \<le> length (rb_content rb1)" using h1(4) rw(2) by simp
  have r: "rb_getBufferForRead rb1 headerLength = (0, Some (m_startOffset rb1))"
    using rb_getBufferForRead_cases(2) [OF h1(1) u] e by simp
  with holds_header [of 0 "hello_header raw" "pb_bytes raw ''hello''" rb1 "hello_header raw"] w(3) rw(7)
  have d: "header_decode (m_buffer rb1) (unat (m_startOffset rb1)) headerLength (hello_header raw) =
      Inr (0, hello_header raw)"
    by (simp add: hello_packet_def)
  have pay: "rb_readData rb1 7 headerLength (replicate 7 0) = Inr (0, pb_bytes raw ''hello'')"
    using rb.peek_ok [OF h1(1), of headerLength 7 "replicate 7 0"] h1(4) rw(1,2) by (simp add: hello_packet_def)
  have "unat (rb_dataLength (snd (rb_decreaseUsedSpace rb1 21))) = 0"
    using holdsD(9) [OF holds_decrease [of 0 ?p "[]" rb1 21]] w(3) rw(2) by simp
  then have z: "rb_dataLength (snd (rb_decreaseUsedSpace rb1 21)) = 0" by (simp add: unat_eq_0)
  have l: "rb_dataLength rb1 = 21" using h1(9) rw(2) by (simp add: word_unat_eq_iff)
  have sp: "21 < rb_space ?rb" using holdsD(10) [OF holds_new] by (simp add: word_less_nat_alt)
  show ?thesis
    using g w(1,2) r d pay z l sp rw(2-6)
    by (simp add: test_one_packet_def failing_def headerLength_eq Let_def)
qed


lemma hellos_51: "hello_packet raw @ hellos raw 50 = hellos raw 51"
  using replicate_Suc [of 50 "hello_packet raw"] by simp

lemma refill_passes:
  assumes raw: "raw_hello raw" and h: "holds 32760 (take 6 (hello_packet raw)) rb"
  shows "test_full_refill (52 + k) h0 (hello_packet raw) 6 rb = Inr (Some [])"
proof -
  note rw = raw_helloD [OF raw]
  let ?p = "hello_packet raw"
  obtain rb1 rb2 where w: "rb_writeData rb (drop 6 ?p) 15 = Inr (0, rb1)"
    "rb_increaseUsedSpace rb1 15 = (0, rb2)" "holds 32760 ?p rb2"
    using holds_write [OF h, of "drop 6 ?p"] rw(2) by auto
  obtain rb3 where p: "put_window ?p 50 rb2 = Inr ([], rb3)" "holds 32760 (hellos raw 51) rb3"
    using put_window_hellos [OF raw w(3), of 50] rw(2) hellos_51 [of raw] by auto
  obtain S' rb4 where d: "drain h0 (211, Some 214, 227) 1 (52 + k) rb3 = Inr (Some ([], 51, rb4))" "holds S' [] rb4"
    using drain_hellos [OF raw, of 1 "[]" 32760 51 rb3 h0 211 "Some 214" 227 k] p(2) by auto
  have "rb_dataLength rb2 = 21" using holdsD(9) [OF w(3)] rw(2) by (simp add: word_unat_eq_iff)
  moreover have "rb_dataLength rb3 = of_nat (51 * length ?p)"
    using holdsD(9) [OF p(2)] length_hellos [OF raw, of 51] rw(2) by (simp add: word_unat_eq_iff)
  moreover have "rb_dataLength rb4 = 0" "rb_space rb4 = c_bufferSize - 2"
    using holdsD(9,10) [OF d(2)] by (simp_all add: word_unat_eq_iff c_bufferSize_def)
  moreover have "mem_read ?p 6 15 = Inr (drop 6 ?p)" using rw(2) by simp
  ultimately show ?thesis using w(1,2) p(1) d(1) rw(2) by (simp add: test_full_refill_def failing_def)
qed

lemma full_passes:
  assumes raw: "raw_hello raw"
  shows "test_full (1562 + k) raw = Inr (Some [])"
proof -
  note rw = raw_helloD [OF raw]
  let ?p = "hello_packet raw" and ?h = "hello_header raw"
  obtain rb1 where f: "fill ?p (1562 + k) 0 (rb_new c_bufferSize) = Inr (Some ([], 6, rb1))"
    and h1: "holds 0 (hellos raw 1560 @ take 6 ?p) rb1"
    using fill_hellos [OF raw, of 0 "rb_new c_bufferSize" 1560 k] holds_new by auto
  obtain S' rb2 where d: "drain ?h (144, Some 147, 160) headerLength (1562 + k) rb1 = Inr (Some ([], 1560, rb2))"
    "holds S' (take 6 ?p) rb2" "advanced 0 1560 (take 6 ?p) S'"
    using drain_hellos [OF raw, of headerLength "take 6 ?p" 0 1560 rb1 ?h 144 "Some 147" 160 "k + 1"] h1 rw(2) by auto
  have "take 6 ?p \<noteq> []" using rw(2) by auto
  then have "S' = 32760" using d(3) by (simp add: advanced_def)
  then have "test_full_refill (1562 + k) ?h ?p 6 rb2 = Inr (Some [])"
    using refill_passes [OF raw, of rb2 "1510 + k" ?h] d(2) by simp
  moreover have "rb_space rb1 = 0" "rb_dataLength rb2 = 6"
    using holdsD(10) [OF h1] holdsD(9) [OF d(2)] length_hellos [OF raw, of 1560] rw(2)
    by (simp_all add: word_unat_eq_iff)
  ultimately show ?thesis using f d(1) rw(4) by (simp add: test_full_def failing_def)
qed

lemma hellos_nth:
  assumes "raw_hello raw" and "j < 21"
  shows "i < n \<Longrightarrow> hellos raw n ! (21 * i + j) = hello_packet raw ! j"
proof (induction n arbitrary: i)
  case (Suc n)
  show ?case
  proof (cases i)
    case 0
    then show ?thesis using assms by (simp add: nth_append raw_helloD)
  next
    case (Suc i')
    then have "21 * i + j = length (hello_packet raw) + (21 * i' + j)" using assms by (simp add: raw_helloD)
    then show ?thesis using Suc.IH [of i'] Suc.prems Suc by (simp only: replicate_Suc concat.simps nth_append_length_plus)
  qed
qed simp

lemma write_data_passes:
  assumes raw: "raw_hello raw"
  shows "test_write_data raw = Inr []"
proof -
  note rw = raw_helloD [OF raw]
  let ?p = "hello_packet raw" and ?h = "hello_header raw"
  have size: "unat (c_bufferSize div of_nat (length ?p)) = 1560" using rw(2) by (simp add: c_bufferSize_def)
  obtain rb1 where p1: "put_data ?p (269, 272) 1560 (rb_new c_bufferSize) = Inr ([], rb1)" "holds 0 (hellos raw 1559 @ ?p) rb1"
    using put_data_hellos [OF raw holds_new, of 1560 "(269, 272)"] hellos_snoc [of 1559 raw] by auto
  obtain S' rb2 where r1: "read_packets raw ?h (294, Some 297, 310) 316 headerLength 1559 rb1 = Inr ([], rb2)"
    "holds S' ?p rb2" "advanced 0 1559 ?p S'"
    using read_packets_hellos [OF raw, of headerLength 0 1559 ?p rb1 ?h 294 "Some 297" 310 316] p1(2) by auto
  have "?p \<noteq> []" using rw(2) by auto
  then have S': "S' = 32739" using r1(3) by (simp add: advanced_def)
  obtain rb3 where p2: "put_data ?p (323, 326) 50 rb2 = Inr ([], rb3)" "holds 32739 (hellos raw 51) rb3"
    using put_data_hellos [OF raw r1(2), of 50 "(323, 326)"] rw(2) S' hellos_51 [of raw] by auto
  obtain S2 rb4 where r2: "read_packets raw ?h (355, None, 371) 377 0 51 rb3 = Inr ([], rb4)" "holds S2 [] rb4"
    using read_packets_hellos [OF raw, of 0 32739 51 "[]" rb3 ?h 355 None 371 377] p2(2) by auto
  have bytes: "m_buffer rb3 ! unat ((m_startOffset rb3 + of_nat i * of_nat (length ?p) + of_nat j) mod c_bufferSize) = ?p ! j"
    if "i < 51" "j < 21" for i j
  proof -
    have "unat (m_startOffset rb3 + of_nat i * of_nat (length ?p) + of_nat j) = 32739 + (21 * i + j)"
      using holdsD(3) [OF p2(2)] that rw(2) by (simp add: unat_word_ariths unat_of_nat take_bit_nat_eq_self)
    then show ?thesis
      using holds_nth [OF p2(2), of "21 * i + j"] hellos_nth [OF raw that(2,1)] length_hellos [OF raw, of 51] that
      by (simp add: unat_mod c_bufferSize_def)
  qed
  have "rb_dataLength rb3 = of_nat (51 * length ?p)"
    using holdsD(9) [OF p2(2)] length_hellos [OF raw, of 51] rw(2) by (simp add: word_unat_eq_iff)
  moreover have "rb_dataLength rb4 = 0" "rb_space rb4 = c_bufferSize - 2"
    using holdsD(9,10) [OF r2(2)] by (simp_all add: word_unat_eq_iff c_bufferSize_def)
  moreover have "failing (concat (map (\<lambda>i. map (\<lambda>j. (337, m_buffer rb3 ! unat ((m_startOffset rb3 +
      of_nat i * of_nat (length ?p) + of_nat j) mod c_bufferSize) = ?p ! j)) [0..<length ?p]) [0..<51])) = []"
    using bytes rw(2) by (auto simp: failing_def filter_empty_conv simp del: upt_Suc)
  ultimately show ?thesis
    using size p1(1) r1(1) p2(1) r2(1) rw(4)
    by (simp add: test_write_data_def Let_def) (simp add: failing_def)
qed



text \<open>The documented encoding of a short string: tag, length, bytes.\<close>

definition short_string :: "string pb_codec" where
  "short_string = \<lparr>pb_bytes = (\<lambda>s. if s = [] then [] else 10 # of_nat (length s) # map of_char s),
     pb_parse = (\<lambda>bs. (True, map (\<lambda>b. char_of (unat b)) (drop 2 bs)))\<rparr>"


end
