(* ===== verification/DistanceVector.thy ===== *)
theory DistanceVector
  imports Prelude
begin

text \<open>
  \<^verbatim>\<open>csm-service/routing_algorithm/distance_vector/DistanceVector\<close>: the routing table of one node.
  \<open>m_dvInfos\<close> maps a target to its next hop and distance, \<open>m_neighboursDVInfo\<close> caches the last
  vector each neighbour sent.  The two \<^verbatim>\<open>unordered_map\<close>s are association lists, iterated in list
  order; the iteration order of the local \<^verbatim>\<open>unordered_set\<close> of targets is the parameter \<open>ord\<close>,
  any function that permutes a list (\<open>iteration_order\<close>).
\<close>

section \<open>State and operations\<close>

type_synonym distance = u32

definition c_unreachableDistance :: distance where
  "c_unreachableDistance = 750"

record node_info =
  nextHop :: node_id
  ni_distance :: distance

type_synonym dv_table = "(node_id, node_info) umap"
type_synonym dv_cache = "(node_id, distance) umap"

record distance_vector =
  m_selfNodeId :: node_id
  m_dvInfos :: dv_table
  m_neighboursDVInfo :: "(node_id, dv_cache) umap"

definition iteration_order :: "(node_id list \<Rightarrow> node_id list) \<Rightarrow> bool" where
  "iteration_order ord \<longleftrightarrow> (\<forall>xs. distinct xs \<longrightarrow> distinct (ord xs) \<and> set (ord xs) = set xs)"

definition NodeInfo_default :: node_info where
  "NodeInfo_default = \<lparr>nextHop = c_invalidNodeId, ni_distance = c_unreachableDistance\<rparr>"

text \<open>
  The constructor moves its parameter \<^verbatim>\<open>nodeId\<close> into \<^verbatim>\<open>m_selfNodeId\<close> and then uses the
  parameter again; \<open>moved\<close> is what the standard library leaves in a moved-from string.
\<close>

fun dv_add_nodes :: "node_id list \<Rightarrow> distance_vector \<Rightarrow> distance_vector" where
  "dv_add_nodes [] dv = dv"
| "dv_add_nodes (n # ns) dv =
     dv_add_nodes ns (dv\<lparr>m_dvInfos := emplace n NodeInfo_default (m_dvInfos dv),
       m_neighboursDVInfo := AList.update n [] (m_neighboursDVInfo dv)\<rparr>)"

definition dv_new :: "node_id \<Rightarrow> node_id \<Rightarrow> node_id list \<Rightarrow> distance_vector" where
  "dv_new moved nodeId nodeIds =
     dv_add_nodes nodeIds \<lparr>m_selfNodeId = nodeId,
       m_dvInfos = AList.update moved \<lparr>nextHop = moved, ni_distance = 0\<rparr> [],
       m_neighboursDVInfo = []\<rparr>"

definition neighbours :: "distance_vector \<Rightarrow> node_id list" where
  "neighbours dv = keys (m_neighboursDVInfo dv)"

definition addDistance :: "distance \<Rightarrow> distance \<Rightarrow> distance" where
  "addDistance a b =
     (if a \<ge> c_unreachableDistance \<or> b \<ge> c_unreachableDistance then c_unreachableDistance
      else (let result = a + b
            in if result > c_unreachableDistance then c_unreachableDistance else result))"

text \<open>The distance to \<open>target\<close> through one neighbour; \<open>None\<close> where the loop body continues.\<close>

definition neighbour_candidate ::
  "dv_table \<Rightarrow> node_id \<Rightarrow> node_id \<Rightarrow> dv_cache \<Rightarrow> distance option" where
  "neighbour_candidate infos target nb nbdv =
     (case map_of infos nb of
        None \<Rightarrow> None
      | Some info \<Rightarrow>
          if ni_distance info \<ge> c_unreachableDistance then None
          else if nb = target then Some (ni_distance info)
          else (case map_of nbdv target of
                  None \<Rightarrow> None
                | Some d \<Rightarrow> Some (addDistance (ni_distance info) d)))"

text \<open>The inner loop over the neighbours; the accumulator is (\<^verbatim>\<open>bestNextHop\<close>, \<^verbatim>\<open>bestDistance\<close>).\<close>

fun select_route :: "dv_table \<Rightarrow> node_id \<Rightarrow> (node_id, dv_cache) umap \<Rightarrow>
    node_id \<times> distance \<Rightarrow> node_id \<times> distance" where
  "select_route infos target [] best = best"
| "select_route infos target ((nb, nbdv) # nbs) best =
     select_route infos target nbs
       (case neighbour_candidate infos target nb nbdv of
          None \<Rightarrow> best
        | Some d \<Rightarrow>
            if snd best > d \<or> (snd best = d \<and> nb < fst best)
            then (if d \<ge> c_unreachableDistance then c_invalidNodeId else nb, d)
            else best)"

text \<open>Storing the selected route of one target, with the change flag.\<close>

definition store_route ::
  "node_id \<Rightarrow> node_id \<times> distance \<Rightarrow> bool \<times> dv_table \<Rightarrow> bool \<times> dv_table" where
  "store_route target best st =
     (case map_of (snd st) target of
        None \<Rightarrow> (True, emplace target \<lparr>nextHop = fst best, ni_distance = snd best\<rparr> (snd st))
      | Some info \<Rightarrow>
          (fst st \<or> nextHop info \<noteq> fst best \<or> ni_distance info \<noteq> snd best,
           AList.update target (info\<lparr>nextHop := fst best, ni_distance := snd best\<rparr>) (snd st)))"

fun recompute_targets ::
  "(node_id, dv_cache) umap \<Rightarrow> node_id list \<Rightarrow> bool \<times> dv_table \<Rightarrow> bool \<times> dv_table" where
  "recompute_targets nbs [] st = st"
| "recompute_targets nbs (t # ts) st =
     recompute_targets nbs ts
       (store_route t (select_route (snd st) t nbs (c_invalidNodeId, c_unreachableDistance)) st)"

definition target_nodes :: "distance_vector \<Rightarrow> node_id list" where
  "target_nodes dv =
     remdups (keys (m_dvInfos dv) @ concat (map (\<lambda>(n, d). n # keys d) (m_neighboursDVInfo dv)))"

definition recomputeRoutes ::
  "(node_id list \<Rightarrow> node_id list) \<Rightarrow> distance_vector \<Rightarrow> bool \<times> distance_vector" where
  "recomputeRoutes ord dv =
     (let (isUpdated, infos) =
        recompute_targets (m_neighboursDVInfo dv) (ord (target_nodes dv)) (False, m_dvInfos dv)
      in (isUpdated, dv\<lparr>m_dvInfos := infos\<rparr>))"

definition updateNeighbourDistance ::
  "(node_id list \<Rightarrow> node_id list) \<Rightarrow> node_id \<Rightarrow> distance \<Rightarrow> distance_vector \<Rightarrow> bool \<times> distance_vector" where
  "updateNeighbourDistance ord peer distance dv =
     (if peer = m_selfNodeId dv \<or> peer = c_invalidNodeId then (False, dv)
      else (case map_of (m_dvInfos dv) peer of
        None \<Rightarrow> (False, dv)
      | Some info \<Rightarrow>
          (let isDirectChanged = (nextHop info \<noteq> peer \<or> ni_distance info \<noteq> distance);
               dv1 = (if isDirectChanged then
                        (if distance \<ge> c_unreachableDistance then
                           dv\<lparr>m_dvInfos := AList.update peer
                                (info\<lparr>nextHop := c_invalidNodeId, ni_distance := distance\<rparr>) (m_dvInfos dv),
                              m_neighboursDVInfo := AList.update peer [] (m_neighboursDVInfo dv)\<rparr>
                         else
                           dv\<lparr>m_dvInfos := AList.update peer
                                (info\<lparr>nextHop := peer, ni_distance := distance\<rparr>) (m_dvInfos dv)\<rparr>)
                      else dv);
               (isRecomputed, dv2) = recomputeRoutes ord dv1
           in (isDirectChanged \<or> isRecomputed, dv2))))"

text \<open>The loop refreshing one neighbour's cache: own id skipped, the smaller of duplicates kept.\<close>

fun refresh_cache :: "node_id \<Rightarrow> (node_id \<times> distance) list \<Rightarrow> dv_cache \<Rightarrow> dv_cache" where
  "refresh_cache self [] cache = cache"
| "refresh_cache self ((n, d) # ps) cache =
     refresh_cache self ps
       (if n = self then cache
        else (case map_of cache n of
                Some d' \<Rightarrow> if d < d' then AList.update n d cache else cache
              | None \<Rightarrow> emplace n d cache))"

definition updateDvInfos ::
  "(node_id list \<Rightarrow> node_id list) \<Rightarrow> node_id \<Rightarrow> (node_id \<times> distance) list \<Rightarrow>
   distance_vector \<Rightarrow> bool \<times> distance_vector" where
  "updateDvInfos ord peer peerDvInfos dv =
     (if peer = m_selfNodeId dv \<or> peer = c_invalidNodeId then (False, dv)
      else (case map_of (m_neighboursDVInfo dv) peer of
        None \<Rightarrow> (False, dv)
      | Some _ \<Rightarrow>
          (if map_of (m_dvInfos dv) peer = None then (False, dv)
           else recomputeRoutes ord
                  (dv\<lparr>m_neighboursDVInfo :=
                        AList.update peer (refresh_cache (m_selfNodeId dv) peerDvInfos [])
                          (m_neighboursDVInfo dv)\<rparr>))))"

definition dvInfo :: "distance_vector \<Rightarrow> node_id \<Rightarrow> (node_id \<times> distance) list" where
  "dvInfo dv peer =
     (if peer = m_selfNodeId dv then []
      else map (\<lambda>(n, info).
                  if nextHop info = peer then (n, c_unreachableDistance) else (n, ni_distance info))
             (filter (\<lambda>(n, info). n \<noteq> peer) (m_dvInfos dv)))"

definition dvInfos :: "distance_vector \<Rightarrow> (node_id \<times> distance \<times> node_id) list" where
  "dvInfos dv = map (\<lambda>(n, info). (n, ni_distance info, nextHop info)) (m_dvInfos dv)"

definition dv_distance :: "distance_vector \<Rightarrow> node_id \<Rightarrow> (distance \<times> node_id) option" where
  "dv_distance dv target =
     (case map_of (m_dvInfos dv) target of
        None \<Rightarrow> None
      | Some info \<Rightarrow> Some (ni_distance info, nextHop info))"

section \<open>Lemmas\<close>

subsection \<open>Distances\<close>

lemma unreachable_unat [simp]: "unat c_unreachableDistance = 750"
  by (simp add: c_unreachableDistance_def)

lemma addDistance_unat: "unat (addDistance a b) = min (unat a + unat b) 750"
proof (cases "unat a \<ge> 750 \<or> unat b \<ge> 750")
  case True
  then show ?thesis by (auto simp: addDistance_def word_le_nat_alt)
next
  case False
  then have "unat (a + b) = unat a + unat b"
    using unat_add_lem [of a b] by simp
  with False show ?thesis by (simp add: addDistance_def word_le_nat_alt word_less_nat_alt Let_def)
qed

lemma addDistance_le: "addDistance a b \<le> c_unreachableDistance"
  by (simp add: word_le_nat_alt addDistance_unat)

lemma addDistance_unreachable [simp]: "addDistance a c_unreachableDistance = c_unreachableDistance"
  by (simp add: addDistance_def)

subsection \<open>Route selection\<close>

text \<open>
  The usable candidates for a target: the neighbours through which it is reachable, with the
  distance.  A route is best when it is a usable candidate that no other beats, the smaller id
  winning a tie, or the unreachable route when there is no usable candidate.
\<close>

definition usable ::
  "dv_table \<Rightarrow> (node_id, dv_cache) umap \<Rightarrow> node_id \<Rightarrow> node_id \<Rightarrow> distance \<Rightarrow> bool" where
  "usable infos nbs target nb d \<longleftrightarrow>
     (\<exists>nbdv. (nb, nbdv) \<in> set nbs \<and> neighbour_candidate infos target nb nbdv = Some d) \<and>
     d < c_unreachableDistance"

definition least_route :: "(node_id \<Rightarrow> distance \<Rightarrow> bool) \<Rightarrow> node_id \<times> distance \<Rightarrow> bool" where
  "least_route U r \<longleftrightarrow>
     (if \<exists>n d. U n d
      then U (fst r) (snd r) \<and> (\<forall>n d. U n d \<longrightarrow> snd r < d \<or> (snd r = d \<and> fst r \<le> n))
      else r = (c_invalidNodeId, c_unreachableDistance))"

definition best_route ::
  "dv_table \<Rightarrow> (node_id, dv_cache) umap \<Rightarrow> node_id \<Rightarrow> node_id \<times> distance \<Rightarrow> bool" where
  "best_route infos nbs target = least_route (usable infos nbs target)"

lemma least_route_unique: "least_route U r \<Longrightarrow> least_route U r' \<Longrightarrow> r = r'"
  unfolding least_route_def
  by (auto split: if_splits simp: prod_eq_iff) (metis order.asym order.antisym)+

lemma least_route_dominated:
  assumes "least_route U' r" and "\<And>n d. U' n d \<Longrightarrow> U n d"
    and dom: "\<And>n d. U n d \<Longrightarrow> \<exists>n' d'. U' n' d' \<and> (d' < d \<or> (d' = d \<and> n' \<le> n))"
  shows "least_route U r"
proof (cases "\<exists>n d. U n d")
  case True
  with dom have "\<exists>n d. U' n d" by blast
  with assms(1) have r: "U' (fst r) (snd r)"
    and least: "\<And>n d. U' n d \<Longrightarrow> snd r < d \<or> (snd r = d \<and> fst r \<le> n)"
    by (auto simp: least_route_def)
  have "snd r < d \<or> (snd r = d \<and> fst r \<le> n)" if "U n d" for n d
  proof -
    from dom [OF that] obtain n' d' where "U' n' d'" and le: "d' < d \<or> (d' = d \<and> n' \<le> n)"
      by blast
    from least [OF this(1)] le show ?thesis by (elim disjE conjE) (auto intro: less_trans order_trans)
  qed
  with True r assms(2) show ?thesis by (auto simp: least_route_def)
next
  case False
  with assms(2) have "\<not> (\<exists>n d. U' n d)" by blast
  with assms(1) False show ?thesis by (simp add: least_route_def)
qed

text \<open>The loop with an accumulator: the accumulator competes with the usable candidates.\<close>

definition acc_ok :: "node_id \<times> distance \<Rightarrow> bool" where
  "acc_ok r \<longleftrightarrow> snd r < c_unreachableDistance \<or> r = (c_invalidNodeId, c_unreachableDistance)"

definition acc_usable :: "node_id \<times> distance \<Rightarrow> node_id \<Rightarrow> distance \<Rightarrow> bool" where
  "acc_usable r n d \<longleftrightarrow> n = fst r \<and> d = snd r \<and> d < c_unreachableDistance"

lemma usable_Nil [simp]: "\<not> usable infos [] target n d"
  by (simp add: usable_def)

lemma usable_Cons:
  "usable infos ((nb, nbdv) # nbs) target n d \<longleftrightarrow>
     (n = nb \<and> neighbour_candidate infos target nb nbdv = Some d \<and> d < c_unreachableDistance) \<or>
     usable infos nbs target n d"
  by (auto simp: usable_def)

lemma select_route_acc:
  assumes "acc_ok best"
  shows "least_route (\<lambda>n d. usable infos nbs target n d \<or> acc_usable best n d)
    (select_route infos target nbs best)"
  using assms
proof (induction nbs arbitrary: best)
  case Nil
  then show ?case by (auto simp: acc_usable_def acc_ok_def least_route_def)
next
  case (Cons p nbs)
  obtain nb nbdv where p: "p = (nb, nbdv)" by (cases p)
  define c where "c = neighbour_candidate infos target nb nbdv"
  define best' where "best' = (case c of None \<Rightarrow> best | Some d \<Rightarrow>
     if snd best > d \<or> (snd best = d \<and> nb < fst best)
     then (if d \<ge> c_unreachableDistance then c_invalidNodeId else nb, d) else best)"
  have ok': "acc_ok best'"
    using Cons.prems by (auto simp: best'_def acc_ok_def split: option.splits)
  have keep: "acc_usable best' n d \<Longrightarrow>
      acc_usable best n d \<or> (n = nb \<and> c = Some d \<and> d < c_unreachableDistance)" for n d
    by (auto simp: best'_def acc_usable_def split: option.splits if_splits)
  have dom: "\<exists>n' d'. acc_usable best' n' d' \<and> (d' < d \<or> (d' = d \<and> n' \<le> n))"
    if "acc_usable best n d \<or> (n = nb \<and> c = Some d \<and> d < c_unreachableDistance)" for n d
  proof (cases c)
    case None
    with that show ?thesis by (auto simp: best'_def)
  next
    case (Some e)
    with that Cons.prems show ?thesis
      by (auto simp: best'_def acc_usable_def acc_ok_def not_less split: if_splits)
  qed
  have "select_route infos target (p # nbs) best = select_route infos target nbs best'"
    by (simp add: p best'_def c_def)
  moreover have "least_route (\<lambda>n d. usable infos (p # nbs) target n d \<or> acc_usable best n d)
      (select_route infos target nbs best')"
  proof (rule least_route_dominated [OF Cons.IH [OF ok']])
    fix n d assume "usable infos nbs target n d \<or> acc_usable best' n d"
    with keep show "usable infos (p # nbs) target n d \<or> acc_usable best n d"
      unfolding p usable_Cons c_def by blast
  next
    fix n d assume "usable infos (p # nbs) target n d \<or> acc_usable best n d"
    then consider "usable infos nbs target n d"
      | "acc_usable best n d \<or> (n = nb \<and> c = Some d \<and> d < c_unreachableDistance)"
      unfolding p usable_Cons c_def by blast
    then show "\<exists>n' d'. (usable infos nbs target n' d' \<or> acc_usable best' n' d') \<and>
        (d' < d \<or> (d' = d \<and> n' \<le> n))"
      by cases (use dom in blast)+
  qed
  ultimately show ?case by simp
qed

lemma select_route_best:
  "best_route infos nbs target
     (select_route infos target nbs (c_invalidNodeId, c_unreachableDistance))"
  using select_route_acc [of "(c_invalidNodeId, c_unreachableDistance)" infos nbs target]
  by (simp add: acc_ok_def acc_usable_def best_route_def cong: conj_cong)

lemma select_route_perm:
  assumes "set nbs = set nbs'"
  shows "select_route infos target nbs (c_invalidNodeId, c_unreachableDistance) =
    select_route infos target nbs' (c_invalidNodeId, c_unreachableDistance)"
proof -
  have "usable infos nbs target = usable infos nbs' target"
    using assms by (simp add: usable_def fun_eq_iff)
  then show ?thesis
    using select_route_best [of infos nbs target] select_route_best [of infos nbs' target]
    by (auto simp: best_route_def dest: least_route_unique)
qed


subsection \<open>Recomputing the table\<close>

text \<open>An entry is well-formed when it is reachable through a neighbour or marked unreachable.\<close>

definition route_wf :: "(node_id, dv_cache) umap \<Rightarrow> node_info \<Rightarrow> bool" where
  "route_wf nbs info \<longleftrightarrow>
     (ni_distance info < c_unreachableDistance \<and> nextHop info \<in> set (keys nbs)) \<or>
     (nextHop info = c_invalidNodeId \<and> ni_distance info = c_unreachableDistance)"

abbreviation entry_wf :: "(node_id, dv_cache) umap \<Rightarrow> dv_table \<Rightarrow> node_id \<Rightarrow> bool" where
  "entry_wf nbs infos t \<equiv> \<exists>info. map_of infos t = Some info \<and> route_wf nbs info"

lemma best_route_wf:
  assumes "best_route infos nbs t r"
  shows "route_wf nbs \<lparr>nextHop = fst r, ni_distance = snd r\<rparr>"
proof (cases "\<exists>n d. usable infos nbs t n d")
  case True
  with assms have "usable infos nbs t (fst r) (snd r)"
    by (simp add: best_route_def least_route_def)
  then show ?thesis by (force simp: usable_def route_wf_def)
next
  case False
  with assms show ?thesis by (simp add: best_route_def least_route_def route_wf_def)
qed

definition new_info :: "dv_table \<Rightarrow> (node_id, dv_cache) umap \<Rightarrow> node_id \<Rightarrow> node_info" where
  "new_info infos nbs t =
     (let r = select_route infos t nbs (c_invalidNodeId, c_unreachableDistance)
      in \<lparr>nextHop = fst r, ni_distance = snd r\<rparr>)"

lemma new_info_wf: "route_wf nbs (new_info infos nbs t)"
  using best_route_wf [OF select_route_best] by (simp add: new_info_def Let_def)

lemma new_info_best:
  "best_route infos nbs t (nextHop (new_info infos nbs t), ni_distance (new_info infos nbs t))"
  using select_route_best by (simp add: new_info_def Let_def)

lemma emplace_new: "map_of m k = None \<Longrightarrow> emplace k v m = AList.update k v m"
proof -
  have "map_of m k = None \<Longrightarrow> AList.update k v m = m @ [(k, v)]"
    by (induction m) (auto split: if_splits)
  then show "map_of m k = None \<Longrightarrow> emplace k v m = AList.update k v m"
    by (simp add: emplace_def)
qed

lemma store_route_new:
  "store_route t (select_route infos t nbs (c_invalidNodeId, c_unreachableDistance)) (flag, infos) =
     (flag \<or> map_of infos t \<noteq> Some (new_info infos nbs t), AList.update t (new_info infos nbs t) infos)"
  (is "store_route t ?r _ = _")
proof (cases "map_of infos t")
  case None
  then have "emplace t x infos = AList.update t x infos" for x
    by (rule emplace_new)
  with None show ?thesis by (simp add: store_route_def new_info_def Let_def)
next
  case (Some info)
  then show ?thesis
    by (cases info) (auto simp: store_route_def new_info_def Let_def)
qed

declare recompute_targets.simps(2) [simp del]

lemma recompute_targets_Cons:
  "recompute_targets nbs (t # ts) (flag, infos) =
     recompute_targets nbs ts
       (flag \<or> map_of infos t \<noteq> Some (new_info infos nbs t), AList.update t (new_info infos nbs t) infos)"
  by (simp add: recompute_targets.simps(2) store_route_new)

lemma recompute_targets_keys:
  "recompute_targets nbs ts (flag, infos) = (flag', infos') \<Longrightarrow>
   set (keys infos') = set (keys infos) \<union> set ts \<and> (wf_umap infos \<longrightarrow> wf_umap infos')"
proof (induction ts arbitrary: flag infos)
  case (Cons t ts)
  from Cons.IH [OF Cons.prems [unfolded recompute_targets_Cons]]
  show ?case by (simp add: set_keys map_of_update del: set_map)
qed simp

lemma recompute_targets_other:
  "recompute_targets nbs ts (flag, infos) = (flag', infos') \<Longrightarrow> t \<notin> set ts \<Longrightarrow>
   map_of infos' t = map_of infos t"
proof (induction ts arbitrary: flag infos)
  case (Cons u ts)
  from Cons.IH [OF Cons.prems(1) [unfolded recompute_targets_Cons]] Cons.prems(2)
  show ?case by (simp add: map_of_update)
qed simp

lemma recompute_targets_wf:
  "recompute_targets nbs ts (flag, infos) = (flag', infos') \<Longrightarrow>
   t \<in> set ts \<or> entry_wf nbs infos t \<Longrightarrow> entry_wf nbs infos' t"
proof (induction ts arbitrary: flag infos)
  case (Cons u ts)
  have "t \<in> set ts \<or> entry_wf nbs (AList.update u (new_info infos nbs u) infos) t"
    using Cons.prems(2) new_info_wf by (auto simp: map_of_update)
  then show ?case by (rule Cons.IH [OF Cons.prems(1) [unfolded recompute_targets_Cons]])
qed simp

lemma recompute_targets_flag:
  "recompute_targets nbs ts (True, infos) = (flag', infos') \<Longrightarrow> flag'"
proof (induction ts arbitrary: infos)
  case (Cons u ts)
  from Cons.prems have "recompute_targets nbs ts
      (True, AList.update u (new_info infos nbs u) infos) = (flag', infos')"
    by (simp add: recompute_targets_Cons)
  then show ?case by (rule Cons.IH)
qed simp

lemma recompute_targets_unchanged:
  "recompute_targets nbs ts (False, infos) = (False, infos') \<Longrightarrow>
   infos' = infos \<and> (\<forall>t \<in> set ts. map_of infos t = Some (new_info infos nbs t))"
proof (induction ts)
  case (Cons u ts)
  have same: "map_of infos u = Some (new_info infos nbs u)"
    using Cons.prems recompute_targets_flag by (fastforce simp: recompute_targets_Cons)
  then have "AList.update u (new_info infos nbs u) infos = infos" by (rule update_triv)
  with Cons same show ?case by (simp add: recompute_targets_Cons)
qed simp

lemma recompute_targets_changed:
  "recompute_targets nbs ts (flag, infos) = (True, infos') \<Longrightarrow> distinct ts \<Longrightarrow>
   flag \<or> (\<exists>t \<in> set ts. map_of infos' t \<noteq> map_of infos t)"
proof (induction ts arbitrary: flag infos)
  case (Cons u ts)
  let ?infos1 = "AList.update u (new_info infos nbs u) infos"
  have rec: "recompute_targets nbs ts
      (flag \<or> map_of infos u \<noteq> Some (new_info infos nbs u), ?infos1) = (True, infos')"
    using Cons.prems(1) by (simp add: recompute_targets_Cons)
  have u: "map_of infos' u = Some (new_info infos nbs u)"
    using recompute_targets_other [OF rec, of u] Cons.prems(2) by (simp add: map_of_update)
  have ts: "t \<noteq> u" if "t \<in> set ts" for t using that Cons.prems(2) by auto
  from Cons.IH [OF rec] Cons.prems(2) consider "flag" | "map_of infos u \<noteq> Some (new_info infos nbs u)"
    | t where "t \<in> set ts" "map_of infos' t \<noteq> map_of ?infos1 t" by auto
  then show ?case
    by cases (use u ts in \<open>auto simp: map_of_update\<close>)
qed simp

lemma recompute_targets_entry:
  "recompute_targets nbs ts (flag, infos) = (flag', infos') \<Longrightarrow> t \<in> set ts \<Longrightarrow>
   \<exists>infos1. map_of infos' t = Some (new_info infos1 nbs t)"
proof (induction ts arbitrary: flag infos)
  case (Cons u ts)
  note rec = Cons.prems(1) [unfolded recompute_targets_Cons]
  show ?case
  proof (cases "t \<in> set ts")
    case True
    then show ?thesis by (rule Cons.IH [OF rec])
  next
    case False
    with Cons.prems(2) recompute_targets_other [OF rec False] show ?thesis
      by (auto simp: map_of_update)
  qed
qed simp

text \<open>What \<open>recomputeRoutes\<close> changes and what it leaves.\<close>

lemma target_nodes_sup:
  "dom (map_of (m_dvInfos dv)) \<subseteq> set (target_nodes dv)"
  "set (neighbours dv) \<subseteq> set (target_nodes dv)"
  unfolding set_keys [symmetric] target_nodes_def neighbours_def by force+

lemma distinct_target_nodes: "distinct (target_nodes dv)"
  by (simp add: target_nodes_def)

lemma ord_targets:
  assumes "iteration_order ord"
  shows "set (ord (target_nodes dv)) = set (target_nodes dv)" "distinct (ord (target_nodes dv))"
  using assms distinct_target_nodes by (auto simp: iteration_order_def)

lemma recomputeRoutesE:
  assumes "recomputeRoutes ord dv = (changed, dv')" "iteration_order ord"
  obtains infos' where
    "recompute_targets (m_neighboursDVInfo dv) (ord (target_nodes dv)) (False, m_dvInfos dv) = (changed, infos')"
    "dv' = dv\<lparr>m_dvInfos := infos'\<rparr>"
    "dom (map_of infos') = set (target_nodes dv)"
    "wf_umap (m_dvInfos dv) \<Longrightarrow> wf_umap infos'"
proof -
  obtain infos' where rec:
    "recompute_targets (m_neighboursDVInfo dv) (ord (target_nodes dv)) (False, m_dvInfos dv) = (changed, infos')"
    and dv': "dv' = dv\<lparr>m_dvInfos := infos'\<rparr>"
    using assms(1) by (auto simp: recomputeRoutes_def split: prod.splits)
  have "set (keys (m_dvInfos dv)) \<subseteq> set (target_nodes dv)"
    by (auto simp: target_nodes_def)
  with recompute_targets_keys [OF rec] ord_targets(1) [OF assms(2), of dv]
  have "set (keys infos') = set (target_nodes dv)" "wf_umap (m_dvInfos dv) \<longrightarrow> wf_umap infos'" by auto
  with rec dv' that show ?thesis by (auto simp: set_keys simp del: set_map)
qed

lemma recomputeRoutes_frame:
  "m_selfNodeId (snd (recomputeRoutes ord dv)) = m_selfNodeId dv"
  "m_neighboursDVInfo (snd (recomputeRoutes ord dv)) = m_neighboursDVInfo dv"
  by (simp_all add: recomputeRoutes_def split: prod.splits)

lemma recomputeRoutes_entry:
  assumes "iteration_order ord" "map_of (m_dvInfos (snd (recomputeRoutes ord dv))) t = Some info"
  shows "\<exists>infos1. info = new_info infos1 (m_neighboursDVInfo dv) t"
proof -
  obtain changed dv' where r: "recomputeRoutes ord dv = (changed, dv')" by fastforce
  obtain infos' where rec: "recompute_targets (m_neighboursDVInfo dv) (ord (target_nodes dv))
      (False, m_dvInfos dv) = (changed, infos')" and dv': "dv' = dv\<lparr>m_dvInfos := infos'\<rparr>"
    and dom: "dom (map_of infos') = set (target_nodes dv)"
    using r assms(1) by (rule recomputeRoutesE)
  from assms(2) r dv' have t: "map_of infos' t = Some info" by simp
  with dom have "t \<in> set (ord (target_nodes dv))" using ord_targets(1) [OF assms(1)] by auto
  from recompute_targets_entry [OF rec this] t show ?thesis by auto
qed

text \<open>An update by a vector is a recomputation, or it is rejected and changes nothing.\<close>

lemma updateDvInfos_accepted:
  assumes "peer \<noteq> m_selfNodeId dv" "peer \<noteq> c_invalidNodeId"
    "peer \<in> set (neighbours dv)" "peer \<in> dom (map_of (m_dvInfos dv))"
  shows "updateDvInfos ord peer infos dv = recomputeRoutes ord
    (dv\<lparr>m_neighboursDVInfo :=
          AList.update peer (refresh_cache (m_selfNodeId dv) infos []) (m_neighboursDVInfo dv)\<rparr>)"
  using assms by (auto simp: updateDvInfos_def neighbours_def set_keys simp del: set_map split: option.splits)

lemma updateDvInfos_rejected:
  assumes "peer = m_selfNodeId dv \<or> peer = c_invalidNodeId \<or>
    peer \<notin> set (neighbours dv) \<or> peer \<notin> dom (map_of (m_dvInfos dv))"
  shows "updateDvInfos ord peer infos dv = (False, dv)"
  using assms by (auto simp: updateDvInfos_def neighbours_def set_keys simp del: set_map split: option.splits)

subsection \<open>The neighbour cache\<close>

lemma refresh_cache_wf: "wf_umap cache \<Longrightarrow> wf_umap (refresh_cache self ps cache)"
  by (induction self ps cache rule: refresh_cache.induct) (auto split: option.splits)

definition min_opt :: "distance option \<Rightarrow> distance \<Rightarrow> distance option" where
  "min_opt a d = Some (case a of None \<Rightarrow> d | Some d' \<Rightarrow> min d d')"

lemma refresh_cache_lookup:
  "map_of (refresh_cache self ps cache) t =
     (if t = self then map_of cache t
      else fold (\<lambda>(n, d) a. if n = t then min_opt a d else a) ps (map_of cache t))"
  by (induction self ps cache rule: refresh_cache.induct)
    (auto simp: map_of_update map_of_emplace min_opt_def min_def not_less split: option.splits
      intro!: arg_cong2 [where f = "fold _"] )

lemma fold_min_Some:
  "fold (\<lambda>(n, d) a. if n = t then min_opt a d else a) ps (Some b) =
     Some (Min (insert b (set (map snd (filter (\<lambda>(n, d). n = t) ps)))))"
proof (induction ps arbitrary: b)
  case (Cons p ps)
  obtain n d where p: "p = (n, d)" by (cases p)
  show ?case
  proof (cases "n = t")
    case True
    have "Min (insert (min d b) S) = Min (insert b (insert d S))" if "finite S" for S :: "distance set"
      using that by (cases "S = {}") (simp_all add: min.commute min.left_commute min.assoc)
    then show ?thesis using True by (simp add: p Cons.IH min_opt_def)
  next
    case False
    then show ?thesis by (simp add: p Cons.IH)
  qed
qed simp

lemma fold_min_None:
  "fold (\<lambda>(n, d) a. if n = t then min_opt a d else a) ps None =
     (if t \<in> set (map fst ps) then Some (Min {d. (t, d) \<in> set ps}) else None)"
proof (induction ps)
  case (Cons p ps)
  obtain n d where p: "p = (n, d)" by (cases p)
  show ?case
  proof (cases "n = t")
    case True
    have "insert d (set (map snd (filter (\<lambda>(n, d). n = t) ps))) = {e. (t, e) \<in> set (p # ps)}"
      using True by (force simp: p)
    then show ?thesis using True by (simp add: p min_opt_def fold_min_Some)
  next
    case False
    then show ?thesis using Cons.IH by (simp add: p)
  qed
qed simp

lemma refresh_cache_spec:
  "map_of (refresh_cache self ps []) t =
     (if t \<noteq> self \<and> t \<in> set (map fst ps) then Some (Min {d. (t, d) \<in> set ps}) else None)"
  by (simp add: refresh_cache_lookup fold_min_None del: set_map)

subsection \<open>Reachable tables\<close>

text \<open>
  The states a \<^verbatim>\<open>DistanceVector\<close> reaches from its constructor through its two updates, with any
  iteration order at each step.
\<close>

inductive dv_reachable :: "node_id \<Rightarrow> node_id \<Rightarrow> node_id list \<Rightarrow> distance_vector \<Rightarrow> bool"
  for moved self nodes where
  dv_start: "dv_reachable moved self nodes (dv_new moved self nodes)"
| dv_link: "dv_reachable moved self nodes dv \<Longrightarrow> iteration_order ord \<Longrightarrow>
    dv_reachable moved self nodes (snd (updateNeighbourDistance ord peer d dv))"
| dv_vector: "dv_reachable moved self nodes dv \<Longrightarrow> iteration_order ord \<Longrightarrow>
    dv_reachable moved self nodes (snd (updateDvInfos ord peer ps dv))"

definition caches_wf :: "node_id \<Rightarrow> (node_id, dv_cache) umap \<Rightarrow> bool" where
  "caches_wf self nbs \<longleftrightarrow>
     (\<forall>nb c. map_of nbs nb = Some c \<longrightarrow> wf_umap c \<and> map_of c self = None)"

definition dv_inv :: "node_id \<Rightarrow> node_id \<Rightarrow> node_id list \<Rightarrow> distance_vector \<Rightarrow> bool" where
  "dv_inv moved self nodes dv \<longleftrightarrow>
     m_selfNodeId dv = self \<and> wf_umap (m_dvInfos dv) \<and> wf_umap (m_neighboursDVInfo dv) \<and>
     set nodes \<subseteq> set (neighbours dv) \<and> set (neighbours dv) \<subseteq> dom (map_of (m_dvInfos dv)) \<and>
     caches_wf self (m_neighboursDVInfo dv) \<and>
     (\<forall>t info. t \<noteq> moved \<longrightarrow> map_of (m_dvInfos dv) t = Some info \<longrightarrow>
        route_wf (m_neighboursDVInfo dv) info)"

lemma caches_wf_update:
  "caches_wf self nbs \<Longrightarrow> wf_umap c \<Longrightarrow> map_of c self = None \<Longrightarrow>
   caches_wf self (AList.update nb c nbs)"
  by (auto simp: caches_wf_def map_of_update)

lemma route_wf_keys: "set (keys nbs) = set (keys nbs') \<Longrightarrow> route_wf nbs info \<Longrightarrow> route_wf nbs' info"
  by (simp add: route_wf_def)

text \<open>The constructor's loop.\<close>

lemma dv_add_nodes_spec:
  "wf_umap (m_dvInfos dv) \<Longrightarrow> wf_umap (m_neighboursDVInfo dv) \<Longrightarrow>
   caches_wf self (m_neighboursDVInfo dv) \<Longrightarrow>
   (\<forall>t info. t \<noteq> moved \<longrightarrow> map_of (m_dvInfos dv) t = Some info \<longrightarrow> info = NodeInfo_default) \<Longrightarrow>
   (let dv' = dv_add_nodes ns dv in
     m_selfNodeId dv' = m_selfNodeId dv \<and> wf_umap (m_dvInfos dv') \<and> wf_umap (m_neighboursDVInfo dv') \<and>
     caches_wf self (m_neighboursDVInfo dv') \<and>
     dom (map_of (m_neighboursDVInfo dv')) = dom (map_of (m_neighboursDVInfo dv)) \<union> set ns \<and>
     dom (map_of (m_dvInfos dv')) = dom (map_of (m_dvInfos dv)) \<union> set ns \<and>
     (\<forall>t info. t \<noteq> moved \<longrightarrow> map_of (m_dvInfos dv') t = Some info \<longrightarrow> info = NodeInfo_default))"
proof (induction ns arbitrary: dv)
  case (Cons n ns)
  let ?dv = "dv\<lparr>m_dvInfos := emplace n NodeInfo_default (m_dvInfos dv),
       m_neighboursDVInfo := AList.update n [] (m_neighboursDVInfo dv)\<rparr>"
  have "wf_umap (m_dvInfos ?dv)" "wf_umap (m_neighboursDVInfo ?dv)"
    using Cons.prems by simp_all
  moreover have "caches_wf self (m_neighboursDVInfo ?dv)"
    using Cons.prems by (simp add: caches_wf_update)
  moreover have "\<forall>t info. t \<noteq> moved \<longrightarrow> map_of (m_dvInfos ?dv) t = Some info \<longrightarrow> info = NodeInfo_default"
    using Cons.prems(4) by (auto simp: map_of_emplace)
  ultimately have "(let dv' = dv_add_nodes ns ?dv in
     m_selfNodeId dv' = m_selfNodeId ?dv \<and> wf_umap (m_dvInfos dv') \<and> wf_umap (m_neighboursDVInfo dv') \<and>
     caches_wf self (m_neighboursDVInfo dv') \<and>
     dom (map_of (m_neighboursDVInfo dv')) = dom (map_of (m_neighboursDVInfo ?dv)) \<union> set ns \<and>
     dom (map_of (m_dvInfos dv')) = dom (map_of (m_dvInfos ?dv)) \<union> set ns \<and>
     (\<forall>t info. t \<noteq> moved \<longrightarrow> map_of (m_dvInfos dv') t = Some info \<longrightarrow> info = NodeInfo_default))"
    by (rule Cons.IH)
  moreover have "dom (map_of (m_dvInfos ?dv)) = insert n (dom (map_of (m_dvInfos dv)))"
    by (auto simp: map_of_emplace)
  ultimately show ?case by (simp add: Let_def map_of_update)
qed simp

lemma NodeInfo_default_wf: "route_wf nbs NodeInfo_default"
  by (simp add: route_wf_def NodeInfo_default_def)

lemma dv_inv_new: "dv_inv moved self nodes (dv_new moved self nodes)"
proof -
  let ?dv0 = "\<lparr>m_selfNodeId = self,
       m_dvInfos = AList.update moved \<lparr>nextHop = moved, ni_distance = 0\<rparr> [],
       m_neighboursDVInfo = []\<rparr>"
  have "wf_umap (m_dvInfos ?dv0)" by (simp add: wf_umap_def)
  moreover have "caches_wf self (m_neighboursDVInfo ?dv0)" by (simp add: caches_wf_def)
  moreover have "\<forall>t info. t \<noteq> moved \<longrightarrow> map_of (m_dvInfos ?dv0) t = Some info \<longrightarrow> info = NodeInfo_default"
    by simp
  ultimately show ?thesis
    using dv_add_nodes_spec [of ?dv0 self moved nodes] NodeInfo_default_wf
    unfolding dv_inv_def dv_new_def neighbours_def set_keys Let_def by auto
qed

lemma dv_inv_recompute:
  assumes "iteration_order ord" "m_selfNodeId dv = self" "wf_umap (m_dvInfos dv)"
    "wf_umap (m_neighboursDVInfo dv)" "set nodes \<subseteq> set (neighbours dv)"
    "caches_wf self (m_neighboursDVInfo dv)"
  shows "dv_inv moved self nodes (snd (recomputeRoutes ord dv))"
proof -
  obtain changed dv' where r: "recomputeRoutes ord dv = (changed, dv')" by fastforce
  obtain infos' where dv': "dv' = dv\<lparr>m_dvInfos := infos'\<rparr>"
    and dom: "dom (map_of infos') = set (target_nodes dv)" and wf: "wf_umap infos'"
    using recomputeRoutesE [OF r assms(1)] assms(3) by metis
  have "route_wf (m_neighboursDVInfo dv) info" if "map_of infos' t = Some info" for t info
    using recomputeRoutes_entry [OF assms(1), of dv t info] that r dv' new_info_wf by auto
  then show ?thesis
    using assms(2-) r dv' wf dom target_nodes_sup [of dv] by (auto simp: dv_inv_def neighbours_def)
qed

lemma dv_inv_link:
  assumes inv: "dv_inv moved self nodes dv" and ord: "iteration_order ord"
  shows "dv_inv moved self nodes (snd (updateNeighbourDistance ord peer d dv))"
proof (cases "peer = m_selfNodeId dv \<or> peer = c_invalidNodeId \<or> map_of (m_dvInfos dv) peer = None")
  case True
  then show ?thesis using inv by (auto simp: updateNeighbourDistance_def split: option.splits)
next
  case False
  then obtain info where info: "map_of (m_dvInfos dv) peer = Some info" by auto
  let ?down = "dv\<lparr>m_dvInfos := AList.update peer
        (info\<lparr>nextHop := c_invalidNodeId, ni_distance := d\<rparr>) (m_dvInfos dv),
      m_neighboursDVInfo := AList.update peer [] (m_neighboursDVInfo dv)\<rparr>"
  let ?up = "dv\<lparr>m_dvInfos := AList.update peer
        (info\<lparr>nextHop := peer, ni_distance := d\<rparr>) (m_dvInfos dv)\<rparr>"
  have nodes: "set nodes \<subseteq> set (neighbours ?down)"
    using inv by (auto simp: dv_inv_def neighbours_def set_keys map_of_update simp del: set_map)
  have rec: "dv_inv moved self nodes (snd (recomputeRoutes ord dv1))" if "dv1 \<in> {dv, ?down, ?up}" for dv1
    using that inv nodes
    by (intro dv_inv_recompute ord) (auto simp: dv_inv_def neighbours_def caches_wf_update)
  have "snd (updateNeighbourDistance ord peer d dv) \<in>
      {snd (recomputeRoutes ord dv), snd (recomputeRoutes ord ?down), snd (recomputeRoutes ord ?up)}"
    using False info by (simp add: updateNeighbourDistance_def Let_def split_beta)
  with rec show ?thesis by auto
qed

lemma dv_inv_vector:
  assumes inv: "dv_inv moved self nodes dv" and ord: "iteration_order ord"
  shows "dv_inv moved self nodes (snd (updateDvInfos ord peer ps dv))"
proof (cases "peer = m_selfNodeId dv \<or> peer = c_invalidNodeId \<or>
    peer \<notin> set (neighbours dv) \<or> peer \<notin> dom (map_of (m_dvInfos dv))")
  case True
  then show ?thesis using inv updateDvInfos_rejected by simp
next
  case False
  let ?c = "refresh_cache (m_selfNodeId dv) ps []"
  have c: "wf_umap ?c" "map_of ?c (m_selfNodeId dv) = None"
    by (simp_all add: refresh_cache_wf refresh_cache_spec)
  have upd: "updateDvInfos ord peer ps dv =
      recomputeRoutes ord (dv\<lparr>m_neighboursDVInfo := AList.update peer ?c (m_neighboursDVInfo dv)\<rparr>)"
    using False by (intro updateDvInfos_accepted) auto
  show ?thesis
    unfolding upd
  proof (rule dv_inv_recompute [OF ord])
    show "set nodes \<subseteq> set (neighbours (dv\<lparr>m_neighboursDVInfo := AList.update peer ?c (m_neighboursDVInfo dv)\<rparr>))"
      using inv by (auto simp: dv_inv_def neighbours_def set_keys map_of_update simp del: set_map)
    show "caches_wf self (m_neighboursDVInfo
        (dv\<lparr>m_neighboursDVInfo := AList.update peer ?c (m_neighboursDVInfo dv)\<rparr>))"
      using inv c by (simp add: dv_inv_def caches_wf_update)
  qed (use inv in \<open>simp_all add: dv_inv_def\<close>)
qed

lemma dv_reachable_inv: "dv_reachable moved self nodes dv \<Longrightarrow> dv_inv moved self nodes dv"
  by (induction rule: dv_reachable.induct) (auto intro: dv_inv_new dv_inv_link dv_inv_vector)

section \<open>Properties\<close>

text \<open>C11: selecting a route.  The inner loop of \<open>recomputeRoutes\<close> returns the least usable
  distance through a neighbour, the smallest neighbour id among equals, and the invalid hop at
  distance 750 exactly when no neighbour reaches the target; two neighbour maps that differ only
  in their iteration order give the same route.\<close>

theorem dv_select_route_optimal:
  assumes "set nbs = set nbs'"
  shows "best_route infos nbs t
      (select_route infos t nbs (c_invalidNodeId, c_unreachableDistance)) \<and>
    select_route infos t nbs' (c_invalidNodeId, c_unreachableDistance) =
      select_route infos t nbs (c_invalidNodeId, c_unreachableDistance)"
  using select_route_best [of infos nbs t] select_route_perm [OF assms, of infos t]
  by (intro conjI) simp_all

definition ex_infos :: dv_table where
  "ex_infos = [(''B'', \<lparr>nextHop = ''B'', ni_distance = 10\<rparr>), (''C'', \<lparr>nextHop = ''C'', ni_distance = 1\<rparr>)]"

theorem dv_select_route_optimal_witness:
  "select_route ex_infos ''D'' [(''C'', [(''D'', 9)]), (''B'', [(''D'', 0)])]
     (c_invalidNodeId, c_unreachableDistance) = (''B'', 10)"
proof -
  have "select_route ex_infos ''D'' [(''C'', [(''D'', 9)]), (''B'', [(''D'', 0)])]
      (c_invalidNodeId, c_unreachableDistance) =
    select_route ex_infos ''D'' [(''B'', [(''D'', 0)]), (''C'', [(''D'', 9)])]
      (c_invalidNodeId, c_unreachableDistance)"
    using dv_select_route_optimal [of "[(''B'', [(''D'', 0)]), (''C'', [(''D'', 9)])]"
        "[(''C'', [(''D'', 9)]), (''B'', [(''D'', 0)])]" ex_infos "''D''"] by auto
  also have "\<dots> = (''B'', 10)" by code_simp
  finally show ?thesis .
qed

text \<open>C12: the change flag of \<open>recomputeRoutes\<close>, on which the service decides to broadcast, is
  exact: it is false exactly when no route changed, and then every known target, whether in the
  table or only in a neighbour's cache, already holds its best route, so the table is a fixed
  point of the distance-vector equations.\<close>

theorem dv_recompute_flag_exact:
  assumes "iteration_order ord" "wf_umap (m_dvInfos dv)"
    "recomputeRoutes ord dv = (changed, dv')"
  shows "(changed \<longleftrightarrow> map_of (m_dvInfos dv') \<noteq> map_of (m_dvInfos dv)) \<and>
    (\<not> changed \<longrightarrow> dv' = dv \<and> (\<forall>t \<in> set (target_nodes dv). \<exists>info.
       map_of (m_dvInfos dv) t = Some info \<and>
       best_route (m_dvInfos dv) (m_neighboursDVInfo dv) t (nextHop info, ni_distance info)))"
proof -
  obtain infos' where rec: "recompute_targets (m_neighboursDVInfo dv) (ord (target_nodes dv))
      (False, m_dvInfos dv) = (changed, infos')" and dv': "dv' = dv\<lparr>m_dvInfos := infos'\<rparr>"
    using assms(3,1) by (rule recomputeRoutesE)
  note ts = ord_targets [OF assms(1), of dv]
  show ?thesis
  proof (cases changed)
    case True
    with recompute_targets_changed [OF _ ts(2)] rec have "map_of infos' \<noteq> map_of (m_dvInfos dv)"
      by fastforce
    with True dv' show ?thesis by simp
  next
    case False
    with rec recompute_targets_unchanged ts(1) have "infos' = m_dvInfos dv"
      "\<forall>t \<in> set (target_nodes dv).
         map_of (m_dvInfos dv) t = Some (new_info (m_dvInfos dv) (m_neighboursDVInfo dv) t)"
      by metis+
    with False dv' new_info_best show ?thesis by auto
  qed
qed

definition ex_dv :: distance_vector where
  "ex_dv = \<lparr>m_selfNodeId = ''A'', m_dvInfos = ex_infos,
     m_neighboursDVInfo = [(''B'', []), (''C'', [(''B'', 2), (''D'', 4)])]\<rparr>"

lemma id_iteration_order: "iteration_order (\<lambda>xs. xs)"
  by (simp add: iteration_order_def)

lemma rev_iteration_order: "iteration_order rev"
  by (simp add: iteration_order_def)

theorem dv_recompute_flag_exact_witness:
  "map_of (m_dvInfos (snd (recomputeRoutes rev ex_dv))) \<noteq> map_of (m_dvInfos ex_dv)"
proof -
  have "recomputeRoutes rev ex_dv = (True, snd (recomputeRoutes rev ex_dv))" by code_simp
  moreover have "wf_umap (m_dvInfos ex_dv)" by code_simp
  ultimately show ?thesis using dv_recompute_flag_exact [OF rev_iteration_order] by blast
qed


definition ex_run :: distance_vector where
  "ex_run = snd (updateDvInfos rev ''C'' [(''D'', 7), (''A'', 1)]
     (snd (updateNeighbourDistance (\<lambda>xs. xs) ''C'' 5 (dv_new [] ''A'' [''B'', ''C'']))))"


lemma map_of_vector:
  "wf_umap m \<Longrightarrow> {d. (t, d) \<in> set (map (\<lambda>(n, info). if nextHop info = p
      then (n, c_unreachableDistance) else (n, ni_distance info)) (filter (\<lambda>(n, info). n \<noteq> p) m))} =
   (if t = p then {} else
     (case map_of m t of None \<Rightarrow> {}
      | Some info \<Rightarrow> {if nextHop info = p then c_unreachableDistance else ni_distance info}))"
proof -
  assume wf: "wf_umap m"
  have "(t, d) \<in> set (map (\<lambda>(n, info). if nextHop info = p then (n, c_unreachableDistance)
      else (n, ni_distance info)) (filter (\<lambda>(n, info). n \<noteq> p) m)) \<longleftrightarrow>
    t \<noteq> p \<and> (\<exists>info. (t, info) \<in> set m \<and>
      d = (if nextHop info = p then c_unreachableDistance else ni_distance info))" for d
    by (auto simp: image_iff split: if_splits)
  then show ?thesis by (auto simp: map_of_mem [OF wf] split: option.splits)
qed

lemma dvInfo_entries:
  assumes "wf_umap (m_dvInfos dv)" "p \<noteq> m_selfNodeId dv"
  shows "{d. (t, d) \<in> set (dvInfo dv p)} =
    (if t = p then {} else
     (case map_of (m_dvInfos dv) t of None \<Rightarrow> {}
      | Some info \<Rightarrow> {if nextHop info = p then c_unreachableDistance else ni_distance info}))"
  using map_of_vector [OF assms(1), of t p] assms(2) by (simp add: dvInfo_def)

lemma in_keys_iff: "t \<in> set (map fst ps) \<longleftrightarrow> {d. (t, d) \<in> set ps} \<noteq> {}"
  by force

text \<open>C28: split horizon with poisoned reverse, end to end.  When \<open>a\<close> reaches \<open>t\<close> through its
  neighbour \<open>b\<close> and sends \<open>b\<close> the vector \<open>dvInfo\<close> builds for it, then after \<open>b\<close>'s update no entry
  of \<open>b\<close> reaches \<open>t\<close> through \<open>a\<close>: the two-node routing loop cannot form.\<close>

theorem dv_poisoned_reverse:
  assumes "iteration_order ord" "wf_umap (m_dvInfos a)" "wf_umap (m_neighboursDVInfo b)"
    and "m_selfNodeId a \<noteq> m_selfNodeId b" "m_selfNodeId a \<noteq> c_invalidNodeId"
    and "m_selfNodeId a \<in> set (neighbours b)" "dv_distance b (m_selfNodeId a) \<noteq> None"
    and "t \<noteq> m_selfNodeId a" "dv_distance a t = Some (d, m_selfNodeId b)"
    and "updateDvInfos ord (m_selfNodeId a) (dvInfo a (m_selfNodeId b)) b = (changed, b')"
  shows "\<forall>d' hop. dv_distance b' t = Some (d', hop) \<longrightarrow> hop \<noteq> m_selfNodeId a"
proof (intro allI impI notI)
  fix d' hop
  assume hop: "dv_distance b' t = Some (d', hop)" and bad: "hop = m_selfNodeId a"
  let ?c = "refresh_cache (m_selfNodeId b) (dvInfo a (m_selfNodeId b)) []"
  let ?nbs = "AList.update (m_selfNodeId a) ?c (m_neighboursDVInfo b)"
  have upd: "updateDvInfos ord (m_selfNodeId a) (dvInfo a (m_selfNodeId b)) b =
      recomputeRoutes ord (b\<lparr>m_neighboursDVInfo := ?nbs\<rparr>)"
    using assms(4-7) by (intro updateDvInfos_accepted) (auto simp: dv_distance_def split: option.splits)
  from hop obtain info where info: "map_of (m_dvInfos b') t = Some info" "nextHop info = hop"
    by (auto simp: dv_distance_def split: option.splits)
  obtain infos1 where new: "info = new_info infos1 ?nbs t"
    using recomputeRoutes_entry [OF assms(1), of "b\<lparr>m_neighboursDVInfo := ?nbs\<rparr>" t info] info(1)
      assms(10) upd by auto
  have "usable infos1 ?nbs t hop (ni_distance info)"
    using new_info_best [of infos1 ?nbs t] info(2) bad assms(5)
    by (auto simp: new best_route_def least_route_def split: if_splits)
  then obtain c where c: "(m_selfNodeId a, c) \<in> set ?nbs"
    "neighbour_candidate infos1 t (m_selfNodeId a) c = Some (ni_distance info)"
    "ni_distance info < c_unreachableDistance"
    using bad by (auto simp: usable_def)
  have "wf_umap ?nbs" using assms(3) by simp
  then have "c = ?c" using c(1) by (simp add: map_of_mem map_of_update)
  moreover have "map_of ?c t \<in> {None, Some c_unreachableDistance}"
    using assms(9) dvInfo_entries [OF assms(2), of "m_selfNodeId b" t] assms(4)
    by (auto simp: refresh_cache_spec in_keys_iff dv_distance_def simp del: set_map split: option.splits)
  ultimately show False
    using c(2,3) assms(8) by (auto simp: neighbour_candidate_def split: option.splits if_splits)
qed

definition ex_a :: distance_vector where
  "ex_a = \<lparr>m_selfNodeId = ''A'', m_dvInfos = [(''B'', \<lparr>nextHop = ''B'', ni_distance = 1\<rparr>),
       (''T'', \<lparr>nextHop = ''B'', ni_distance = 3\<rparr>)],
     m_neighboursDVInfo = [(''B'', [(''T'', 2)])]\<rparr>"

definition ex_b :: distance_vector where
  "ex_b = \<lparr>m_selfNodeId = ''B'', m_dvInfos = [(''A'', \<lparr>nextHop = ''A'', ni_distance = 1\<rparr>),
       (''T'', \<lparr>nextHop = c_invalidNodeId, ni_distance = 750\<rparr>)],
     m_neighboursDVInfo = [(''A'', [])]\<rparr>"

theorem dv_poisoned_reverse_witness:
  "(case dv_distance (snd (updateDvInfos rev ''A'' (dvInfo ex_a ''B'') ex_b)) ''T'' of
      None \<Rightarrow> True | Some (d', hop) \<Rightarrow> hop \<noteq> ''A'') \<and>
   dv_distance (snd (updateDvInfos rev ''A'' [(''T'', 3)] ex_b)) ''T'' = Some (4, ''A'')"
proof
  have s: "m_selfNodeId ex_a = ''A''" "m_selfNodeId ex_b = ''B''"
    by (simp_all add: ex_a_def ex_b_def)
  have "wf_umap (m_dvInfos ex_a)" "wf_umap (m_neighboursDVInfo ex_b)"
    "dv_distance ex_a ''T'' = Some (3, ''B'')" "dv_distance ex_b ''A'' \<noteq> None"
    "''A'' \<in> set (neighbours ex_b)"
    by code_simp+
  then have "\<forall>d' hop. dv_distance (snd (updateDvInfos rev ''A'' (dvInfo ex_a ''B'') ex_b)) ''T'' =
      Some (d', hop) \<longrightarrow> hop \<noteq> ''A''"
    by (intro dv_poisoned_reverse [OF rev_iteration_order, of ex_a ex_b "''T''" 3
          "fst (updateDvInfos rev ''A'' (dvInfo ex_a ''B'') ex_b)", unfolded s]) simp_all
  then show "case dv_distance (snd (updateDvInfos rev ''A'' (dvInfo ex_a ''B'') ex_b)) ''T'' of
      None \<Rightarrow> True | Some (d', hop) \<Rightarrow> hop \<noteq> ''A''"
    by (simp split: option.splits)
  show "dv_distance (snd (updateDvInfos rev ''A'' [(''T'', 3)] ex_b)) ''T'' = Some (4, ''A'')"
    by code_simp
qed

text \<open>Accepting a vector.  A vector from the node itself, from an unknown peer or from a node
  that is not a neighbour changes nothing.  Otherwise the peer's cache becomes exactly the
  received distances: the node's own id is dropped, the smallest of duplicate entries is kept, and
  nothing of the old cache survives; the caches of the other neighbours are not touched.\<close>

theorem dv_vector_cache:
  "updateDvInfos ord peer ps dv =
     (if peer \<noteq> m_selfNodeId dv \<and> peer \<noteq> c_invalidNodeId \<and> peer \<in> set (neighbours dv) \<and>
         dv_distance dv peer \<noteq> None
      then recomputeRoutes ord (dv\<lparr>m_neighboursDVInfo :=
        AList.update peer (refresh_cache (m_selfNodeId dv) ps []) (m_neighboursDVInfo dv)\<rparr>)
      else (False, dv)) \<and>
   map_of (refresh_cache (m_selfNodeId dv) ps []) t =
     (if t \<noteq> m_selfNodeId dv \<and> t \<in> set (map fst ps) then Some (Min {d. (t, d) \<in> set ps}) else None) \<and>
   m_neighboursDVInfo (snd (recomputeRoutes ord dv)) = m_neighboursDVInfo dv"
proof -
  have "dv_distance dv peer \<noteq> None \<longleftrightarrow> peer \<in> dom (map_of (m_dvInfos dv))"
    by (auto simp: dv_distance_def split: option.splits)
  then show ?thesis
    using updateDvInfos_accepted [of peer dv ord ps] updateDvInfos_rejected [of peer dv ord ps]
      refresh_cache_spec [of "m_selfNodeId dv" ps t] recomputeRoutes_frame(2) [of ord dv]
    by (intro conjI) (simp_all split del: if_split split: if_split)
qed

text \<open>A measured link cost is overwritten by a learned route.  The table keeps the direct link
  cost and the best route in the same field, so once \<open>C\<close> (cost 1) advertises \<open>B\<close> at 2, the
  cost 10 measured on the link to \<open>B\<close> is replaced by 3.  When \<open>C\<close> then fails, \<open>B\<close> stays at
  distance 3 through itself although the link was never measured below 10.\<close>

theorem dv_link_cost_lost:
  "let dv0 = dv_new [] ''A'' [''B'', ''C''];
       dv1 = snd (updateNeighbourDistance (\<lambda>xs. xs) ''B'' 10 dv0);
       dv2 = snd (updateNeighbourDistance (\<lambda>xs. xs) ''C'' 1 dv1);
       dv3 = snd (updateDvInfos (\<lambda>xs. xs) ''C'' [(''B'', 2)] dv2);
       dv4 = snd (updateNeighbourDistance (\<lambda>xs. xs) ''C'' 750 dv3)
   in dv_distance dv1 ''B'' = Some (10, ''B'') \<and> dv_distance dv3 ''B'' = Some (3, ''C'') \<and>
      dv_distance dv4 ''B'' = Some (3, ''B'')"
  by code_simp

text \<open>The node's own entry.  The constructor uses its parameter after moving it, so with the
  moved-from string empty the entry for the node itself is filed under the empty id: the node does
  not find itself in its own table, and the first recomputation marks the misfiled entry
  unreachable.  Had the id survived the move, the recomputation would overwrite its distance 0 with
  750 as well, because no neighbour offers a route to it.\<close>

theorem dv_self_entry_misfiled:
  "dv_distance (dv_new [] ''A'' [''B'']) ''A'' = None \<and>
   dv_distance (dv_new [] ''A'' [''B'']) [] = Some (0, []) \<and>
   dv_distance (snd (updateNeighbourDistance (\<lambda>xs. xs) ''B'' 4 (dv_new [] ''A'' [''B'']))) [] =
     Some (750, c_invalidNodeId) \<and>
   dv_distance (snd (updateNeighbourDistance (\<lambda>xs. xs) ''B'' 4 (dv_new ''A'' ''A'' [''B'']))) ''A'' =
     Some (750, c_invalidNodeId)"
  by code_simp

end
