(* ===== verification/DvTests.thy ===== *)
theory DvTests
  imports DistanceVector
begin

text \<open>
  \<^verbatim>\<open>unittest/DistanceVectorTest.cpp\<close>: the program's own tests of the routing table.  A test is the list of
  its statements; a statement is a function on the objects and variables of the test.  An expectation
  that fails leaves its line number in \<open>ts_failed\<close> and the test goes on, as googletest has it.  The
  results of calls whose value the test drops are kept too; no expectation reads them.
\<close>

section \<open>Objects and statements\<close>

text \<open>
  \<open>ts_told\<close> is the vector that \<^verbatim>\<open>dvInfo\<close> returned last, \<open>ts_infos\<close> the table that \<^verbatim>\<open>dvInfos\<close> returned last.
  What the tests run against is a constructor and the iteration order of the set of targets.
\<close>

record test_state =
  ts_tables :: "node_id \<Rightarrow> distance_vector"
  ts_infos :: "(node_id \<times> distance \<times> node_id) list"
  ts_before :: "(node_id \<times> distance \<times> node_id) list"
  ts_told :: "(node_id \<times> distance) list"
  ts_result :: bool
  ts_failed :: "nat list"

record tested =
  td_new :: "node_id \<Rightarrow> node_id list \<Rightarrow> distance_vector"
  td_order :: "node_id list \<Rightarrow> node_id list"

type_synonym test_step = "tested \<Rightarrow> test_state \<Rightarrow> test_state"

fun run_steps :: "test_step list \<Rightarrow> test_step" where
  "run_steps [] td st = st"
| "run_steps (s # ss) td st = run_steps ss td (s td st)"

fun repeat_steps :: "nat \<Rightarrow> test_step list \<Rightarrow> test_step" where
  "repeat_steps 0 ss td st = st"
| "repeat_steps (Suc n) ss td st = repeat_steps n ss td (run_steps ss td st)"

definition start_test :: test_state where
  "start_test = \<lparr>ts_tables = (\<lambda>_. dv_add_nodes [] \<lparr>m_selfNodeId = [], m_dvInfos = [], m_neighboursDVInfo = []\<rparr>),
     ts_infos = [], ts_before = [], ts_told = [], ts_result = False, ts_failed = []\<rparr>"

definition failed_lines :: "tested \<Rightarrow> test_step list \<Rightarrow> nat list" where
  "failed_lines td ss = ts_failed (run_steps ss td start_test)"

definition construct :: "node_id \<Rightarrow> node_id list \<Rightarrow> test_step" where
  "construct n ns td st = st\<lparr>ts_tables := (ts_tables st)(n := td_new td n ns)\<rparr>"

definition link :: "node_id \<Rightarrow> node_id \<Rightarrow> distance \<Rightarrow> test_step" where
  "link n peer d td st =
     (let (r, dv) = updateNeighbourDistance (td_order td) peer d (ts_tables st n)
      in st\<lparr>ts_tables := (ts_tables st)(n := dv), ts_result := r\<rparr>)"

definition vector_of :: "node_id \<Rightarrow> node_id \<Rightarrow> (node_id \<times> distance) list \<Rightarrow> test_step" where
  "vector_of n peer infos td st =
     (let (r, dv) = updateDvInfos (td_order td) peer infos (ts_tables st n)
      in st\<lparr>ts_tables := (ts_tables st)(n := dv), ts_result := r\<rparr>)"

text \<open>\<open>vector n peer\<close> hands over what \<open>peer\<close> tells \<open>n\<close>; \<open>vector_told\<close> what was asked for before.\<close>

definition vector :: "node_id \<Rightarrow> node_id \<Rightarrow> test_step" where
  "vector n peer td st = vector_of n peer (dvInfo (ts_tables st peer) n) td st"

definition vector_told :: "node_id \<Rightarrow> node_id \<Rightarrow> test_step" where
  "vector_told n peer td st = vector_of n peer (ts_told st) td st"

definition tell :: "node_id \<Rightarrow> node_id \<Rightarrow> test_step" where
  "tell n peer td st = st\<lparr>ts_told := dvInfo (ts_tables st n) peer\<rparr>"

definition read_infos :: "node_id \<Rightarrow> test_step" where
  "read_infos n td st = st\<lparr>ts_infos := dvInfos (ts_tables st n)\<rparr>"

definition read_before :: "node_id \<Rightarrow> test_step" where
  "read_before n td st = st\<lparr>ts_before := dvInfos (ts_tables st n)\<rparr>"

section \<open>Expectations\<close>

definition expect :: "nat \<Rightarrow> bool \<Rightarrow> test_state \<Rightarrow> test_state" where
  "expect line b st = (if b then st else st\<lparr>ts_failed := ts_failed st @ [line]\<rparr>)"

text \<open>The search functions return the largest \<^verbatim>\<open>size_t\<close> when the node is not listed, here \<open>None\<close>.\<close>

fun nodeIndexInVectorTuple :: "(node_id \<times> distance \<times> node_id) list \<Rightarrow> node_id \<Rightarrow> nat option" where
  "nodeIndexInVectorTuple [] n = None"
| "nodeIndexInVectorTuple (t # ts) n =
     (if fst t = n then Some 0 else map_option Suc (nodeIndexInVectorTuple ts n))"

fun nodeIndexInVectorPair :: "(node_id \<times> distance) list \<Rightarrow> node_id \<Rightarrow> nat option" where
  "nodeIndexInVectorPair [] n = None"
| "nodeIndexInVectorPair (p # ps) n =
     (if fst p = n then Some 0 else map_option Suc (nodeIndexInVectorPair ps n))"

definition compareNodesElement :: "node_id list \<Rightarrow> node_id list \<Rightarrow> bool" where
  "compareNodesElement a b \<longleftrightarrow> sort a = sort b"

definition expectPairDistance :: "(node_id \<times> distance) list \<Rightarrow> node_id \<Rightarrow> distance \<Rightarrow> bool" where
  "expectPairDistance ps n d =
     (case nodeIndexInVectorPair ps n of None \<Rightarrow> False | Some i \<Rightarrow> snd (ps ! i) = d)"

definition expectTupleDistanceAndNextHop ::
  "(node_id \<times> distance \<times> node_id) list \<Rightarrow> node_id \<Rightarrow> distance \<Rightarrow> node_id \<Rightarrow> bool" where
  "expectTupleDistanceAndNextHop ts n d h =
     (case nodeIndexInVectorTuple ts n of
        None \<Rightarrow> False
      | Some i \<Rightarrow> if fst (snd (ts ! i)) \<noteq> d then False else if snd (snd (ts ! i)) \<noteq> h then False else True)"

definition expect_result :: "nat \<Rightarrow> bool \<Rightarrow> test_step" where
  "expect_result line b td st = expect line (ts_result st = b) st"

definition expect_neighbours :: "nat \<Rightarrow> node_id \<Rightarrow> node_id list \<Rightarrow> test_step" where
  "expect_neighbours line n ns td st =
     expect line (compareNodesElement ns (neighbours (ts_tables st n))) st"

definition expect_size :: "nat \<Rightarrow> nat \<Rightarrow> test_step" where
  "expect_size line k td st = expect line (length (ts_infos st) = k) st"

definition expect_told_size :: "nat \<Rightarrow> nat \<Rightarrow> test_step" where
  "expect_told_size line k td st = expect line (length (ts_told st) = k) st"

text \<open>
  Reading the entry at an index that was not found is undefined; here the expectation then fails.  In
  these tests every index that is read has been found.
\<close>

definition at_index :: "'a list \<Rightarrow> nat option \<Rightarrow> 'a option" where
  "at_index xs i = (case i of None \<Rightarrow> None | Some k \<Rightarrow> if k < length xs then Some (xs ! k) else None)"

definition expect_listed :: "nat \<Rightarrow> node_id \<Rightarrow> test_step" where
  "expect_listed line n td st = expect line (nodeIndexInVectorTuple (ts_infos st) n \<noteq> None) st"

definition expect_distance :: "nat \<Rightarrow> node_id \<Rightarrow> distance \<Rightarrow> test_step" where
  "expect_distance line n d td st =
     expect line (map_option (\<lambda>t. fst (snd t)) (at_index (ts_infos st) (nodeIndexInVectorTuple (ts_infos st) n)) = Some d) st"

definition expect_next_hop :: "nat \<Rightarrow> node_id \<Rightarrow> node_id \<Rightarrow> test_step" where
  "expect_next_hop line n h td st =
     expect line (map_option (\<lambda>t. snd (snd t)) (at_index (ts_infos st) (nodeIndexInVectorTuple (ts_infos st) n)) = Some h) st"

definition expect_told_listed :: "nat \<Rightarrow> node_id \<Rightarrow> test_step" where
  "expect_told_listed line n td st = expect line (nodeIndexInVectorPair (ts_told st) n \<noteq> None) st"

definition expect_told_distance :: "nat \<Rightarrow> node_id \<Rightarrow> distance \<Rightarrow> test_step" where
  "expect_told_distance line n d td st =
     expect line (map_option snd (at_index (ts_told st) (nodeIndexInVectorPair (ts_told st) n)) = Some d) st"

definition expect_told_first :: "nat \<Rightarrow> node_id \<Rightarrow> test_step" where
  "expect_told_first line n td st = expect line (map_option fst (at_index (ts_told st) (Some 0)) = Some n) st"

definition expect_told_first_distance :: "nat \<Rightarrow> distance \<Rightarrow> test_step" where
  "expect_told_first_distance line d td st =
     expect line (map_option snd (at_index (ts_told st) (Some 0)) = Some d) st"

definition check_route :: "node_id \<Rightarrow> distance \<Rightarrow> node_id \<Rightarrow> test_step" where
  "check_route n d h td st = st\<lparr>ts_result := expectTupleDistanceAndNextHop (ts_infos st) n d h\<rparr>"

definition check_before :: "node_id \<Rightarrow> distance \<Rightarrow> node_id \<Rightarrow> test_step" where
  "check_before n d h td st = st\<lparr>ts_result := expectTupleDistanceAndNextHop (ts_before st) n d h\<rparr>"

definition check_told :: "node_id \<Rightarrow> distance \<Rightarrow> test_step" where
  "check_told n d td st = st\<lparr>ts_result := expectPairDistance (ts_told st) n d\<rparr>"

definition expect_unchanged :: "nat \<Rightarrow> test_step" where
  "expect_unchanged line td st = expect line (ts_before st = ts_infos st) st"

definition expect_known :: "nat \<Rightarrow> node_id \<Rightarrow> node_id \<Rightarrow> test_step" where
  "expect_known line n target td st = expect line (dv_distance (ts_tables st n) target \<noteq> None) st"

definition expect_known_distance :: "nat \<Rightarrow> node_id \<Rightarrow> node_id \<Rightarrow> distance \<Rightarrow> test_step" where
  "expect_known_distance line n target d td st =
     expect line (map_option fst (dv_distance (ts_tables st n) target) = Some d) st"

definition expect_known_hop :: "nat \<Rightarrow> node_id \<Rightarrow> node_id \<Rightarrow> node_id \<Rightarrow> test_step" where
  "expect_known_hop line n target h td st =
     expect line (map_option snd (dv_distance (ts_tables st n) target) = Some h) st"

section \<open>The tests\<close>

definition test_main_ABC :: "test_step list" where
  "test_main_ABC =
     [construct ''A'' [''B'', ''C'', ''E''],
      expect_neighbours 93 ''A'' [''B'', ''C'', ''E''],
      link ''A'' ''B'' 1,
      expect_result 97 True,
      link ''A'' ''C'' 3,
      expect_result 99 True,
      link ''A'' ''E'' 2,
      expect_result 101 True,
      read_infos ''A'',
      expect_size 105 3,
      expect_listed 109 ''B'',
      expect_distance 110 ''B'' 1,
      expect_next_hop 111 ''B'' ''B'',
      expect_listed 114 ''C'',
      expect_distance 115 ''C'' 3,
      expect_next_hop 116 ''C'' ''C'',
      expect_listed 119 ''E'',
      expect_distance 120 ''E'' 2,
      expect_next_hop 121 ''E'' ''E'',
      construct ''B'' [''A'', ''C''],
      expect_neighbours 130 ''B'' [''A'', ''C''],
      link ''B'' ''A'' 1,
      expect_result 134 True,
      link ''B'' ''C'' 2,
      expect_result 136 True,
      read_infos ''B'',
      expect_size 140 2,
      expect_listed 144 ''A'',
      expect_distance 145 ''A'' 1,
      expect_next_hop 146 ''A'' ''A'',
      expect_listed 149 ''C'',
      expect_distance 150 ''C'' 2,
      expect_next_hop 151 ''C'' ''C'',
      construct ''C'' [''A'', ''B'', ''E''],
      expect_neighbours 160 ''C'' [''A'', ''B'', ''E''],
      link ''C'' ''A'' 3,
      expect_result 164 True,
      link ''C'' ''B'' 2,
      expect_result 166 True,
      link ''C'' ''E'' 4,
      expect_result 168 True,
      read_infos ''C'',
      expect_size 171 3,
      expect_listed 175 ''A'',
      expect_distance 176 ''A'' 3,
      expect_next_hop 177 ''A'' ''A'',
      expect_listed 180 ''B'',
      expect_distance 181 ''B'' 2,
      expect_next_hop 182 ''B'' ''B'',
      expect_listed 185 ''E'',
      expect_distance 186 ''E'' 4,
      expect_next_hop 187 ''E'' ''E'']"

definition test_main_DE :: "test_step list" where
  "test_main_DE =
     [construct ''D'' [''E''],
      expect_neighbours 196 ''D'' [''E''],
      link ''D'' ''E'' 1,
      expect_result 200 True,
      read_infos ''D'',
      expect_size 203 1,
      expect_listed 207 ''E'',
      expect_distance 208 ''E'' 1,
      expect_next_hop 209 ''E'' ''E'',
      construct ''E'' [''A'', ''C'', ''D''],
      expect_neighbours 218 ''E'' [''A'', ''C'', ''D''],
      link ''E'' ''A'' 2,
      expect_result 222 True,
      link ''E'' ''C'' 4,
      expect_result 224 True,
      link ''E'' ''D'' 1,
      expect_result 226 True,
      read_infos ''E'',
      expect_size 229 3,
      expect_listed 233 ''A'',
      expect_distance 234 ''A'' 2,
      expect_next_hop 235 ''A'' ''A'',
      expect_listed 238 ''C'',
      expect_distance 239 ''C'' 4,
      expect_next_hop 240 ''C'' ''C'',
      expect_listed 243 ''D'',
      expect_distance 244 ''D'' 1,
      expect_next_hop 245 ''D'' ''D'']"

definition test_main_told :: "test_step list" where
  "test_main_told =
     [tell ''B'' ''A'',
      expect_told_size 253 1,
      expect_told_first 254 ''C'',
      expect_told_first_distance 255 2,
      vector_told ''A'' ''B'',
      read_infos ''A'',
      expect_size 261 3,
      expect_listed 265 ''B'',
      expect_distance 266 ''B'' 1,
      expect_next_hop 267 ''B'' ''B'',
      expect_listed 270 ''C'',
      expect_distance 271 ''C'' 3,
      expect_next_hop 272 ''C'' ''B'',
      expect_listed 275 ''E'',
      expect_distance 276 ''E'' 2,
      expect_next_hop 277 ''E'' ''E'',
      tell ''C'' ''A'',
      expect_told_size 285 2,
      expect_told_listed 288 ''B'',
      expect_told_distance 289 ''B'' 2,
      expect_told_listed 292 ''E'',
      expect_told_distance 293 ''E'' 4,
      vector_told ''A'' ''C'',
      read_infos ''A'',
      expect_size 299 3,
      expect_listed 303 ''B'',
      expect_distance 304 ''B'' 1,
      expect_next_hop 305 ''B'' ''B'',
      expect_listed 308 ''C'',
      expect_distance 309 ''C'' 3,
      expect_next_hop 310 ''C'' ''B'',
      expect_listed 313 ''E'',
      expect_distance 314 ''E'' 2,
      expect_next_hop 315 ''E'' ''E'',
      tell ''E'' ''A'',
      expect_told_size 323 2,
      expect_told_listed 326 ''C'',
      expect_told_distance 327 ''C'' 4,
      expect_told_listed 330 ''D'',
      expect_told_distance 331 ''D'' 1,
      vector_told ''A'' ''E'',
      read_infos ''A'',
      expect_size 337 4,
      expect_listed 341 ''B'',
      expect_distance 342 ''B'' 1,
      expect_next_hop 343 ''B'' ''B'',
      expect_listed 346 ''C'',
      expect_distance 347 ''C'' 3,
      expect_next_hop 348 ''C'' ''B'',
      expect_listed 351 ''E'',
      expect_distance 352 ''E'' 2,
      expect_next_hop 353 ''E'' ''E'',
      expect_listed 356 ''D'',
      expect_distance 357 ''D'' 3,
      expect_next_hop 358 ''D'' ''E'']"

definition test_main_break :: "test_step list" where
  "test_main_break =
     [link ''E'' ''D'' c_unreachableDistance,
      read_infos ''E'',
      expect_size 369 3,
      expect_listed 373 ''A'',
      expect_distance 374 ''A'' 2,
      expect_next_hop 375 ''A'' ''A'',
      expect_listed 378 ''C'',
      expect_distance 379 ''C'' 4,
      expect_next_hop 380 ''C'' ''C'',
      expect_listed 383 ''D'',
      expect_distance 384 ''D'' c_unreachableDistance,
      expect_next_hop 385 ''D'' c_invalidNodeId,
      tell ''E'' ''A'',
      expect_told_size 391 2,
      expect_told_listed 394 ''C'',
      expect_told_distance 395 ''C'' 4,
      expect_told_listed 398 ''D'',
      expect_told_distance 399 ''D'' c_unreachableDistance,
      vector_told ''A'' ''E'',
      tell ''A'' ''E'',
      expect_told_size 406 3,
      expect_told_listed 409 ''B'',
      expect_told_distance 410 ''B'' 1,
      expect_told_listed 413 ''C'',
      expect_told_distance 414 ''C'' 3,
      expect_told_listed 417 ''D'',
      expect_told_distance 418 ''D'' c_unreachableDistance,
      read_infos ''A'',
      expect_listed 422 ''D'',
      expect_distance 423 ''D'' c_unreachableDistance,
      expect_next_hop 424 ''D'' c_invalidNodeId]"

definition test_main :: "test_step list" where
  "test_main = test_main_ABC @ test_main_DE @ test_main_told @ test_main_break"

definition test_prefer_indirect :: "test_step list" where
  "test_prefer_indirect =
     [construct ''A'' [''B'', ''C''],
      construct ''B'' [''A'', ''C''],
      construct ''C'' [''A'', ''B''],
      link ''A'' ''B'' 1,
      link ''A'' ''C'' 10,
      link ''B'' ''A'' 1,
      link ''B'' ''C'' 1,
      vector ''A'' ''B'',
      read_infos ''A'',
      expect_listed 443 ''C'',
      expect_distance 444 ''C'' 2,
      expect_next_hop 445 ''C'' ''B'']"

definition test_multi_round_spread :: "test_step list" where
  "test_multi_round_spread =
     [construct ''A'' [''B'', ''C'', ''E''],
      link ''A'' ''B'' 1,
      link ''A'' ''C'' 3,
      link ''A'' ''E'' 2,
      construct ''B'' [''A'', ''C''],
      link ''B'' ''A'' 1,
      link ''B'' ''C'' 2,
      construct ''C'' [''A'', ''B'', ''E''],
      link ''C'' ''A'' 3,
      link ''C'' ''B'' 2,
      link ''C'' ''E'' 4,
      construct ''D'' [''E''],
      link ''D'' ''E'' 3,
      construct ''E'' [''A'', ''C'', ''D''],
      link ''E'' ''A'' 2,
      link ''E'' ''C'' 4,
      link ''E'' ''D'' 3,
      repeat_steps 5
           [vector ''A'' ''B'',
          vector ''B'' ''C'',
          vector ''C'' ''E'',
          vector ''E'' ''D''],
      expect_known 506 ''A'' ''D'',
      expect_known_distance 507 ''A'' ''D'' 10,
      expect_known_hop 508 ''A'' ''D'' ''B'']"

definition test_multi_round_spread_2 :: "test_step list" where
  "test_multi_round_spread_2 =
     [construct ''A'' [''B'', ''C'', ''E''],
      link ''A'' ''B'' 1,
      link ''A'' ''C'' 3,
      link ''A'' ''E'' 2,
      construct ''B'' [''A'', ''C''],
      link ''B'' ''A'' 1,
      link ''B'' ''C'' 2,
      construct ''C'' [''A'', ''B'', ''E''],
      link ''C'' ''A'' 3,
      link ''C'' ''B'' 2,
      link ''C'' ''E'' 4,
      construct ''D'' [''E''],
      link ''D'' ''E'' 3,
      construct ''E'' [''A'', ''C'', ''D''],
      link ''E'' ''A'' 2,
      link ''E'' ''C'' 4,
      link ''E'' ''D'' 3,
      repeat_steps 5
           [vector ''E'' ''D'',
          vector ''C'' ''E'',
          vector ''B'' ''C'',
          vector ''A'' ''B''],
      expect_known 569 ''A'' ''D'',
      expect_known_distance 570 ''A'' ''D'' 10,
      expect_known_hop 571 ''A'' ''D'' ''B'']"

definition test_cost_increase_propagates :: "test_step list" where
  "test_cost_increase_propagates =
     [construct ''A'' [''B''],
      construct ''B'' [''A'', ''C''],
      link ''A'' ''B'' 1,
      link ''B'' ''A'' 1,
      link ''B'' ''C'' 1,
      vector ''A'' ''B'',
      read_infos ''A'',
      expect_listed 591 ''C'',
      expect_distance 592 ''C'' 2,
      expect_next_hop 593 ''C'' ''B'',
      link ''B'' ''C'' 100,
      vector ''A'' ''B'',
      read_infos ''A'',
      expect_listed 602 ''C'',
      expect_distance 603 ''C'' 101,
      expect_next_hop 604 ''C'' ''B'']"

definition test_poison_reverse :: "test_step list" where
  "test_poison_reverse =
     [construct ''A'' [''E''],
      construct ''E'' [''A'', ''D''],
      construct ''D'' [''E''],
      link ''A'' ''E'' 2,
      link ''E'' ''A'' 2,
      link ''E'' ''D'' 1,
      link ''D'' ''E'' 1,
      vector ''A'' ''E'',
      read_infos ''A'',
      check_route ''E'' 2 ''E'',
      expect_result 631 True,
      check_route ''D'' 3 ''E'',
      expect_result 633 True,
      tell ''A'' ''E'',
      expect_told_size 637 1,
      check_told ''D'' c_unreachableDistance,
      expect_result 640 True]"

definition test_vector_from_stranger :: "test_step list" where
  "test_vector_from_stranger =
     [construct ''A'' [''B''],
      link ''A'' ''B'' 1,
      read_before ''A'',
      check_before ''B'' 1 ''B'',
      expect_result 653 True,
      vector_of ''A'' ''C'' [(''D'', 2)],
      expect_result 657 False,
      read_infos ''A'',
      expect_unchanged 660]"

definition test_unknown_destination :: "test_step list" where
  "test_unknown_destination =
     [construct ''A'' [''B''],
      link ''A'' ''B'' 1,
      construct ''B'' [''A'', ''E''],
      link ''B'' ''A'' 1,
      link ''B'' ''E'' 4,
      vector ''A'' ''B'',
      read_infos ''A'',
      expect_size 682 2,
      check_route ''B'' 1 ''B'',
      expect_result 684 True,
      check_route ''E'' 5 ''B'',
      expect_result 686 True]"

definition test_empty_vector :: "test_step list" where
  "test_empty_vector =
     [construct ''A'' [''B''],
      link ''A'' ''B'' 1,
      read_before ''A'',
      vector_of ''A'' ''B'' [],
      expect_result 700 False,
      read_infos ''A'',
      expect_unchanged 704]"

definition test_same_input_twice :: "test_step list" where
  "test_same_input_twice =
     [construct ''A'' [''B''],
      construct ''B'' [''A'', ''C''],
      link ''A'' ''B'' 1,
      link ''B'' ''A'' 1,
      link ''B'' ''C'' 2,
      vector ''A'' ''B'',
      expect_result 721 True,
      read_before ''A'',
      vector ''A'' ''B'',
      expect_result 726 False,
      read_infos ''A'',
      expect_unchanged 730]"

definition test_link_to_stranger :: "test_step list" where
  "test_link_to_stranger =
     [construct ''A'' [''B''],
      link ''A'' ''B'' 1,
      construct ''B'' [''A'', ''C''],
      link ''B'' ''A'' 1,
      link ''B'' ''C'' 2,
      construct ''C'' [''B''],
      link ''C'' ''B'' 2,
      link ''A'' ''C'' 3,
      expect_result 749 False]"

definition test_smaller_or_same :: "test_step list" where
  "test_smaller_or_same =
     [construct ''A'' [''B''],
      link ''A'' ''B'' 3,
      expect_result 759 True,
      read_infos ''A'',
      expect_size 762 1,
      check_route ''B'' 3 ''B'',
      expect_result 764 True,
      link ''A'' ''B'' 3,
      expect_result 767 False,
      read_infos ''A'',
      expect_size 770 1,
      check_route ''B'' 3 ''B'',
      expect_result 772 True,
      link ''A'' ''B'' 1,
      expect_result 775 True,
      read_infos ''A'',
      expect_size 778 1,
      check_route ''B'' 1 ''B'',
      expect_result 780 True]"

definition test_unreachable_boundary :: "test_step list" where
  "test_unreachable_boundary =
     [construct ''A'' [''B''],
      link ''A'' ''B'' c_unreachableDistance,
      expect_result 790 True,
      read_infos ''A'',
      expect_size 793 1,
      check_route ''B'' c_unreachableDistance c_invalidNodeId,
      expect_result 796 True]"

definition test_link_break :: "test_step list" where
  "test_link_break =
     [construct ''A'' [''E''],
      link ''A'' ''E'' 2,
      expect_result 813 True,
      construct ''E'' [''A'', ''D''],
      link ''E'' ''A'' 2,
      expect_result 817 True,
      link ''E'' ''D'' 1,
      expect_result 819 True,
      read_infos ''A'',
      expect_size 822 1,
      vector ''A'' ''E'',
      expect_result 825 True,
      read_infos ''A'',
      expect_size 828 2,
      check_route ''E'' 2 ''E'',
      expect_result 831 True,
      check_route ''D'' 3 ''E'',
      expect_result 833 True,
      link ''E'' ''D'' c_unreachableDistance,
      expect_result 836 True,
      read_infos ''E'',
      expect_size 839 2,
      check_route ''A'' 2 ''A'',
      expect_result 841 True,
      check_route ''D'' c_unreachableDistance c_invalidNodeId,
      expect_result 843 True,
      vector ''A'' ''E'',
      expect_result 846 True,
      read_infos ''A'',
      expect_size 849 2,
      check_route ''E'' 2 ''E'',
      expect_result 851 True,
      check_route ''D'' c_unreachableDistance c_invalidNodeId,
      expect_result 853 True]"

definition test_switch_to_backup :: "test_step list" where
  "test_switch_to_backup =
     [construct ''A'' [''E'', ''D''],
      link ''A'' ''E'' 2,
      expect_result 878 True,
      link ''A'' ''D'' 5,
      expect_result 880 True,
      construct ''E'' [''A'', ''B''],
      link ''E'' ''A'' 2,
      expect_result 884 True,
      link ''E'' ''B'' 1,
      expect_result 886 True,
      construct ''D'' [''A'', ''B''],
      link ''D'' ''A'' 5,
      expect_result 890 True,
      link ''D'' ''B'' 2,
      expect_result 892 True,
      vector ''A'' ''E'',
      expect_result 895 True,
      vector ''A'' ''D'',
      expect_result 897 False,
      read_infos ''A'',
      expect_size 900 3,
      check_route ''E'' 2 ''E'',
      expect_result 903 True,
      check_route ''D'' 5 ''D'',
      expect_result 905 True,
      check_route ''B'' 3 ''E'',
      expect_result 907 True,
      link ''E'' ''B'' c_unreachableDistance,
      expect_result 911 True,
      vector ''A'' ''E'',
      expect_result 914 True,
      read_infos ''A'',
      expect_size 917 3,
      check_route ''E'' 2 ''E'',
      expect_result 920 True,
      check_route ''D'' 5 ''D'',
      expect_result 922 True,
      check_route ''B'' 7 ''D'',
      expect_result 924 True]"

definition test_backup_arrives_later :: "test_step list" where
  "test_backup_arrives_later =
     [construct ''A'' [''E'', ''D''],
      link ''A'' ''E'' 2,
      expect_result 954 True,
      link ''A'' ''D'' 5,
      expect_result 956 True,
      construct ''E'' [''A'', ''B''],
      link ''E'' ''A'' 2,
      expect_result 960 True,
      link ''E'' ''B'' 1,
      expect_result 962 True,
      construct ''D'' [''A'', ''B''],
      link ''D'' ''A'' 5,
      expect_result 966 True,
      link ''D'' ''B'' 2,
      expect_result 968 True,
      vector ''A'' ''E'',
      expect_result 971 True,
      read_infos ''A'',
      expect_size 974 3,
      check_route ''E'' 2 ''E'',
      expect_result 977 True,
      check_route ''D'' 5 ''D'',
      expect_result 979 True,
      check_route ''B'' 3 ''E'',
      expect_result 981 True,
      link ''E'' ''B'' c_unreachableDistance,
      expect_result 985 True,
      vector ''A'' ''E'',
      expect_result 988 True,
      read_infos ''A'',
      expect_size 991 3,
      check_route ''E'' 2 ''E'',
      expect_result 994 True,
      check_route ''D'' 5 ''D'',
      expect_result 996 True,
      check_route ''B'' c_unreachableDistance c_invalidNodeId,
      expect_result 998 True,
      vector ''A'' ''D'',
      expect_result 1001 True,
      read_infos ''A'',
      expect_size 1004 3,
      check_route ''E'' 2 ''E'',
      expect_result 1007 True,
      check_route ''D'' 5 ''D'',
      expect_result 1009 True,
      check_route ''B'' 7 ''D'',
      expect_result 1011 True]"

definition test_cheaper_backup :: "test_step list" where
  "test_cheaper_backup =
     [construct ''A'' [''E'', ''D''],
      link ''A'' ''E'' 2,
      expect_result 1026 True,
      link ''A'' ''D'' 5,
      expect_result 1028 True,
      construct ''E'' [''A'', ''B''],
      link ''E'' ''A'' 2,
      expect_result 1032 True,
      link ''E'' ''B'' 1,
      expect_result 1034 True,
      construct ''D'' [''A'', ''B''],
      link ''D'' ''A'' 5,
      expect_result 1038 True,
      link ''D'' ''B'' 2,
      expect_result 1040 True,
      vector ''A'' ''E'',
      expect_result 1044 True,
      vector ''A'' ''D'',
      expect_result 1047 False,
      read_infos ''A'',
      expect_size 1050 3,
      check_route ''E'' 2 ''E'',
      expect_result 1053 True,
      check_route ''D'' 5 ''D'',
      expect_result 1055 True,
      check_route ''B'' 3 ''E'',
      expect_result 1057 True,
      link ''E'' ''B'' 7,
      expect_result 1061 True,
      vector ''A'' ''E'',
      expect_result 1065 True,
      read_infos ''A'',
      expect_size 1068 3,
      check_route ''E'' 2 ''E'',
      expect_result 1071 True,
      check_route ''D'' 5 ''D'',
      expect_result 1073 True,
      check_route ''B'' 7 ''D'',
      expect_result 1075 True]"

definition test_two_paths :: "test_step list" where
  "test_two_paths =
     [construct ''A'' [''E'', ''D''],
      link ''A'' ''E'' 2,
      expect_result 1087 True,
      link ''A'' ''D'' 5,
      expect_result 1089 True,
      construct ''E'' [''A'', ''B''],
      link ''E'' ''A'' 2,
      expect_result 1093 True,
      link ''E'' ''B'' 5,
      expect_result 1095 True,
      construct ''D'' [''A'', ''B''],
      link ''D'' ''A'' 5,
      expect_result 1099 True,
      link ''D'' ''B'' 2,
      expect_result 1101 True,
      vector ''A'' ''E'',
      expect_result 1104 True,
      vector ''A'' ''D'',
      expect_result 1106 True,
      vector ''A'' ''E'',
      expect_result 1108 False,
      read_infos ''A'',
      expect_size 1111 3,
      check_route ''E'' 2 ''E'',
      expect_result 1114 True,
      check_route ''D'' 5 ''D'',
      expect_result 1116 True,
      check_route ''B'' 7 ''D'',
      expect_result 1118 True]"

definition test_link_up_after_down :: "test_step list" where
  "test_link_up_after_down =
     [construct ''A'' [''E''],
      link ''A'' ''E'' 2,
      expect_result 1134 True,
      construct ''E'' [''A'', ''B''],
      link ''E'' ''A'' 2,
      expect_result 1138 True,
      link ''E'' ''B'' 1,
      expect_result 1140 True,
      vector ''A'' ''E'',
      expect_result 1143 True,
      read_infos ''A'',
      expect_size 1146 2,
      check_route ''E'' 2 ''E'',
      expect_result 1149 True,
      check_route ''B'' 3 ''E'',
      expect_result 1151 True,
      link ''A'' ''E'' c_unreachableDistance,
      expect_result 1154 True,
      read_infos ''A'',
      expect_size 1157 2,
      check_route ''E'' c_unreachableDistance c_invalidNodeId,
      expect_result 1160 True,
      check_route ''B'' c_unreachableDistance c_invalidNodeId,
      expect_result 1162 True,
      link ''A'' ''E'' 2,
      expect_result 1165 True,
      read_infos ''A'',
      expect_size 1168 2,
      check_route ''E'' 2 ''E'',
      expect_result 1170 True,
      check_route ''B'' c_unreachableDistance c_invalidNodeId,
      expect_result 1172 True,
      vector ''A'' ''E'',
      expect_result 1175 True,
      read_infos ''A'',
      expect_size 1178 2,
      check_route ''E'' 2 ''E'',
      expect_result 1181 True,
      check_route ''B'' 3 ''E'',
      expect_result 1183 True]"

definition test_duplicate_info :: "test_step list" where
  "test_duplicate_info =
     [construct ''A'' [''E''],
      link ''A'' ''E'' 2,
      expect_result 1190 True,
      vector_of ''A'' ''E'' [(''B'', 1), (''B'', 3)],
      expect_result 1193 True,
      read_infos ''A'',
      expect_size 1196 2,
      check_route ''E'' 2 ''E'',
      expect_result 1199 True,
      check_route ''B'' 3 ''E'',
      expect_result 1201 True]"

definition test_illegal_distance :: "test_step list" where
  "test_illegal_distance =
     [construct ''A'' [''E''],
      link ''A'' ''E'' 9999,
      expect_result 1209 True,
      read_infos ''A'',
      expect_size 1212 1,
      check_route ''E'' c_unreachableDistance c_invalidNodeId,
      expect_result 1215 True,
      link ''A'' ''E'' 2,
      expect_result 1218 True,
      read_infos ''A'',
      expect_size 1221 1,
      check_route ''E'' 2 ''E'',
      expect_result 1224 True,
      vector_of ''A'' ''E'' [(''B'', 9999)],
      expect_result 1227 True,
      read_infos ''A'',
      expect_size 1230 2,
      check_route ''E'' 2 ''E'',
      expect_result 1233 True,
      check_route ''B'' c_unreachableDistance c_invalidNodeId,
      expect_result 1235 True]"

definition dv_tests :: "test_step list list" where
  "dv_tests = [test_main, test_prefer_indirect, test_multi_round_spread, test_multi_round_spread_2, test_cost_increase_propagates, test_poison_reverse, test_vector_from_stranger, test_unknown_destination, test_empty_vector, test_same_input_twice, test_link_to_stranger, test_smaller_or_same, test_unreachable_boundary, test_link_break, test_switch_to_backup, test_backup_arrives_later, test_cheaper_backup, test_two_paths, test_link_up_after_down, test_duplicate_info, test_illegal_distance]"

section \<open>The outcome\<close>

text \<open>
  What the tests run against: the class as it is, with what the moved-from string of the constructor
  holds and the order in which the set of targets is iterated, and the class without the constructor's
  first statement, which enters the node itself.
\<close>

definition actual :: "(node_id \<Rightarrow> node_id) \<Rightarrow> (node_id list \<Rightarrow> node_id list) \<Rightarrow> tested" where
  "actual moved ord = \<lparr>td_new = (\<lambda>n ns. dv_new (moved n) n ns), td_order = ord\<rparr>"

definition without_self :: "(node_id list \<Rightarrow> node_id list) \<Rightarrow> tested" where
  "without_self ord = \<lparr>td_new = (\<lambda>n ns. dv_add_nodes ns \<lparr>m_selfNodeId = n, m_dvInfos = [], m_neighboursDVInfo = []\<rparr>),
     td_order = ord\<rparr>"

definition dv_failures :: "nat list list" where
  "dv_failures =
     [[105, 140, 171, 203, 229, 253, 254, 255, 261, 285, 299, 323, 337, 369, 391, 406],
      [], [], [], [], [637], [], [682], [], [], [], [762, 770, 778], [793],
      [822, 828, 839, 849], [900, 917], [974, 991, 1004], [1050, 1068], [1111],
      [1146, 1157, 1168, 1178], [1196], [1212, 1221, 1230]]"

lemma failures_emptied: "map (failed_lines (actual (\<lambda>_. []) id)) dv_tests = dv_failures"
  by code_simp

lemma failures_kept: "map (failed_lines (actual id rev)) dv_tests = dv_failures"
  by code_simp

lemma passes_without_self: "map (failed_lines (without_self id)) dv_tests = replicate 21 []"
  by code_simp


end
