(* ===== verification/DvService.thy ===== *)
theory DvService
  imports DistanceVector Codec
begin

text \<open>
  \<^verbatim>\<open>DistanceVectorService\<close>: the thread that probes the neighbours, turns the answers into link
  distances, exchanges distance vectors and answers route queries.  Clock readings are arguments,
  the packet sender is a function giving its return value, and what was sent is a log of
  (receiver, bytes).
\<close>

section \<open>State\<close>

definition c_distanceDetectInterval :: u64 where "c_distanceDetectInterval = 2500"
definition c_timeResolutionMs :: u32 where "c_timeResolutionMs = 200"
definition c_distanceDetectLostThreshold :: u64 where "c_distanceDetectLostThreshold = 3"
definition c_minDistanceVectorSendInterval :: u64 where "c_minDistanceVectorSendInterval = 200"
definition c_normalDistanceVectorSendInterval :: u64 where
  "c_normalDistanceVectorSendInterval = 30 * 1000"

record seq_info =
  sendSeq :: u64
  receivedSeq :: u64

datatype dv_event =
    DistanceDetectReplyEvent node_id "distance_detect_reply option"
  | DistanceVectorEvent node_id "distance_vector_msg option"

type_synonym iter_order = "node_id list \<Rightarrow> node_id list"
type_synonym packet_sender = "node_id \<Rightarrow> u8 list \<Rightarrow> int"
type_synonym sent = "(node_id \<times> u8 list) list"

record dv_service =
  m_distanceVector :: distance_vector
  m_seqInfo :: "(node_id, seq_info) umap"
  m_boardcastTriggered :: bool
  m_detectBegin :: u64
  m_vectorBegin :: u64
  m_detectTimeInterval :: u64
  m_eventQueue :: "dv_event list"

text \<open>
  The constructor.  \<open>detectTimeInterval\<close> is a local static of the thread function, so it is shared
  by all services of the process; here it belongs to the one service.
\<close>

definition DvService_new :: "node_id \<Rightarrow> u64 \<Rightarrow> node_id \<Rightarrow> node_id list \<Rightarrow> dv_service" where
  "DvService_new moved now self nodeIds =
     (let dv = dv_new moved self nodeIds
      in \<lparr>m_distanceVector = dv,
          m_seqInfo = fold (\<lambda>n m. AList.update n \<lparr>sendSeq = 0, receivedSeq = 0\<rparr> m) (neighbours dv) [],
          m_boardcastTriggered = False, m_detectBegin = now, m_vectorBegin = now,
          m_detectTimeInterval = c_distanceDetectInterval, m_eventQueue = []\<rparr>)"

section \<open>Operations\<close>

definition send_payload ::
  "protobuf \<Rightarrow> packet_sender \<Rightarrow> node_id \<Rightarrow> payload \<Rightarrow> sent \<Rightarrow> (int \<times> sent) run" where
  "send_payload pb sender n p log =
     and_then (encode_packet pb p) (\<lambda>bytes. Inr (sender n bytes, log @ [(n, bytes)]))"

text \<open>
  The loop of \<^verbatim>\<open>sendDistanceDetect\<close> over the neighbours.  \<^verbatim>\<open>setSeq\<close> and \<^verbatim>\<open>setTimestamp\<close> of
  \<^verbatim>\<open>PayloadDistanceDetect\<close> take 32-bit arguments.
\<close>

fun detect_loop :: "protobuf \<Rightarrow> packet_sender \<Rightarrow> iter_order \<Rightarrow> u64 \<Rightarrow> node_id list \<Rightarrow>
    dv_service \<times> sent \<Rightarrow> (dv_service \<times> sent) run" where
  "detect_loop pb sender ord ts [] st = Inr st"
| "detect_loop pb sender ord ts (n # ns) (s, log) =
     (case map_of (m_seqInfo s) n of
        None \<Rightarrow> Inl AssertFailed
      | Some si \<Rightarrow>
          if sendSeq si - receivedSeq si > c_distanceDetectLostThreshold
          then detect_loop pb sender ord ts ns
                 (s\<lparr>m_distanceVector := snd (updateNeighbourDistance ord n c_unreachableDistance
                     (m_distanceVector s))\<rparr>, log)
          else
            (let s1 = s\<lparr>m_seqInfo := AList.update n (si\<lparr>sendSeq := sendSeq si + 1\<rparr>) (m_seqInfo s)\<rparr>
             in and_then (send_payload pb sender n (Pl_DistanceDetect
                  \<lparr>dd_seq = ucast (ucast (sendSeq si) :: u32), dd_timestamp = ucast ts\<rparr>) log)
                (\<lambda>(ret, log1).
                  if ret = -1 then Inr (s1, log1) else detect_loop pb sender ord ts ns (s1, log1))))"

definition sendDistanceDetect ::
  "protobuf \<Rightarrow> packet_sender \<Rightarrow> iter_order \<Rightarrow> u64 \<Rightarrow> dv_service \<times> sent \<Rightarrow> (dv_service \<times> sent) run" where
  "sendDistanceDetect pb sender ord ts st =
     detect_loop pb sender ord ts (neighbours (m_distanceVector (fst st))) st"

fun vector_loop :: "protobuf \<Rightarrow> packet_sender \<Rightarrow> distance_vector \<Rightarrow> node_id list \<Rightarrow> sent \<Rightarrow> sent run" where
  "vector_loop pb sender dv [] log = Inr log"
| "vector_loop pb sender dv (n # ns) log =
     and_then (send_payload pb sender n
        (Pl_DistanceVector \<lparr>dvm_seq = 0, dvm_distanceVector = dvInfo dv n\<rparr>) log)
       (\<lambda>(ret, log1). vector_loop pb sender dv ns log1)"

definition sendDistanceVector ::
  "protobuf \<Rightarrow> packet_sender \<Rightarrow> dv_service \<times> sent \<Rightarrow> (dv_service \<times> sent) run" where
  "sendDistanceVector pb sender st =
     and_then (vector_loop pb sender (m_distanceVector (fst st))
        (neighbours (m_distanceVector (fst st))) (snd st)) (\<lambda>log. Inr (fst st, log))"

definition handleDistanceDetect ::
  "protobuf \<Rightarrow> packet_sender \<Rightarrow> u64 \<Rightarrow> node_id \<Rightarrow> distance_detect option \<Rightarrow> sent \<Rightarrow> (int \<times> sent) run" where
  "handleDistanceDetect pb sender ts fromNodeId payload log =
     (case payload of
        None \<Rightarrow> Inl NullDeref
      | Some m \<Rightarrow>
          and_then (send_payload pb sender fromNodeId (Pl_DistanceDetectReply
              \<lparr>ddr_seq = ucast (ucast (dd_seq m) :: u32),
               ddr_elapsedTime = ucast (ts - ucast (dd_timestamp m))\<rparr>) log)
            (\<lambda>(ret, log1). Inr (if ret \<noteq> 0 then -1 else 0, log1)))"

definition handleDistanceDetectReply ::
  "iter_order \<Rightarrow> node_id \<Rightarrow> distance_detect_reply option \<Rightarrow> dv_service \<Rightarrow> (int \<times> dv_service) run" where
  "handleDistanceDetectReply ord fromNodeId payload s =
     (case map_of (m_seqInfo s) fromNodeId of
        None \<Rightarrow> Inr (-1, s)
      | Some si \<Rightarrow>
          (case payload of
             None \<Rightarrow> Inl NullDeref
           | Some m \<Rightarrow>
               if ddr_seq m \<le> receivedSeq si then Inr (0, s)
               else
                 (let s1 = s\<lparr>m_seqInfo := AList.update fromNodeId (si\<lparr>receivedSeq := ddr_seq m\<rparr>) (m_seqInfo s)\<rparr>;
                      distance = ddr_elapsedTime m div c_timeResolutionMs + 1;
                      (result, dv) = updateNeighbourDistance ord fromNodeId distance (m_distanceVector s1);
                      s2 = s1\<lparr>m_distanceVector := dv\<rparr>
                  in Inr (if result then (1, s2\<lparr>m_boardcastTriggered := True\<rparr>) else (0, s2)))))"

definition handleDistanceVector ::
  "iter_order \<Rightarrow> node_id \<Rightarrow> distance_vector_msg option \<Rightarrow> dv_service \<Rightarrow> (int \<times> dv_service) run" where
  "handleDistanceVector ord fromNodeId payload s =
     (case payload of
        None \<Rightarrow> Inl NullDeref
      | Some m \<Rightarrow>
          (let (result, dv) = updateDvInfos ord fromNodeId (dvm_distanceVector m) (m_distanceVector s);
               s1 = s\<lparr>m_distanceVector := dv\<rparr>
           in Inr (if result then (1, s1\<lparr>m_boardcastTriggered := True\<rparr>) else (0, s1))))"

text \<open>\<^verbatim>\<open>handlePacket\<close>: probes are answered at once, the other two types are queued.\<close>

fun payload_as_detect :: "payload option \<Rightarrow> distance_detect option" where
  "payload_as_detect (Some (Pl_DistanceDetect m)) = Some m"
| "payload_as_detect _ = None"

fun payload_as_detect_reply :: "payload option \<Rightarrow> distance_detect_reply option" where
  "payload_as_detect_reply (Some (Pl_DistanceDetectReply m)) = Some m"
| "payload_as_detect_reply _ = None"

fun payload_as_vector :: "payload option \<Rightarrow> distance_vector_msg option" where
  "payload_as_vector (Some (Pl_DistanceVector m)) = Some m"
| "payload_as_vector _ = None"

definition dv_handlePacket :: "protobuf \<Rightarrow> packet_sender \<Rightarrow> u64 \<Rightarrow> node_id \<Rightarrow> packet_header \<Rightarrow>
    payload option \<Rightarrow> dv_service \<times> sent \<Rightarrow> (int \<times> dv_service \<times> sent) run" where
  "dv_handlePacket pb sender ts fromNodeId h payload st =
     (let (s, log) = st
      in if header_type h = PT_DistanceDetect then
           and_then (handleDistanceDetect pb sender ts fromNodeId (payload_as_detect payload) log)
             (\<lambda>(ret, log1). Inr (ret, s, log1))
         else if header_type h = PT_DistanceDetectReply then
           Inr (0, s\<lparr>m_eventQueue := m_eventQueue s @
                  [DistanceDetectReplyEvent fromNodeId (payload_as_detect_reply payload)]\<rparr>, log)
         else if header_type h = PT_DistanceVector then
           Inr (0, s\<lparr>m_eventQueue := m_eventQueue s @
                  [DistanceVectorEvent fromNodeId (payload_as_vector payload)]\<rparr>, log)
         else Inr (-1, s, log))"

definition queryRoute :: "node_id \<Rightarrow> dv_service \<Rightarrow> (distance \<times> node_id) option" where
  "queryRoute target s = dv_distance (m_distanceVector s) target"

fun handle_event :: "iter_order \<Rightarrow> dv_event \<Rightarrow> dv_service \<Rightarrow> (int \<times> dv_service) run" where
  "handle_event ord (DistanceDetectReplyEvent n m) s = handleDistanceDetectReply ord n m s"
| "handle_event ord (DistanceVectorEvent n m) s = handleDistanceVector ord n m s"

text \<open>
  One round of the thread.  The clock readings, in the order they are taken: the system time for
  the probes, \<^verbatim>\<open>update\<close>, the interval, and the two reads of the broadcast condition (only one of
  them is taken).
\<close>

record clock =
  ck_system :: u64
  ck_update :: u64
  ck_interval :: u64
  ck_check :: u64

definition dv_probe_phase :: "protobuf \<Rightarrow> packet_sender \<Rightarrow> iter_order \<Rightarrow> clock \<Rightarrow>
    dv_service \<times> sent \<Rightarrow> (dv_service \<times> sent) run" where
  "dv_probe_phase pb sender ord ck st =
     (if m_detectTimeInterval (fst st) \<ge> c_distanceDetectInterval
      then and_then (sendDistanceDetect pb sender ord (ck_system ck) st)
             (\<lambda>(s, log). Inr (s\<lparr>m_detectBegin := ck_update ck\<rparr>, log))
      else Inr st)"

definition vector_due :: "clock \<Rightarrow> dv_service \<Rightarrow> bool" where
  "vector_due ck s =
     (if m_boardcastTriggered s
      then ck_check ck - m_vectorBegin s \<ge> c_minDistanceVectorSendInterval
      else ck_check ck - m_detectBegin s \<ge> c_normalDistanceVectorSendInterval)"

definition dv_tick :: "protobuf \<Rightarrow> packet_sender \<Rightarrow> iter_order \<Rightarrow> clock \<Rightarrow>
    dv_service \<times> sent \<Rightarrow> (dv_service \<times> sent) run" where
  "dv_tick pb sender ord ck st =
     and_then (dv_probe_phase pb sender ord ck st) (\<lambda>(s1, log1).
       let s2 = s1\<lparr>m_detectTimeInterval := ck_interval ck - m_detectBegin s1\<rparr>
       in and_then (if vector_due ck s2 then sendDistanceVector pb sender (s2, log1) else Inr (s2, log1))
            (\<lambda>(s3, log3).
              case m_eventQueue s3 of
                [] \<Rightarrow> Inr (s3, log3)
              | e # es \<Rightarrow>
                  and_then (handle_event ord e (s3\<lparr>m_eventQueue := es\<rparr>)) (\<lambda>(_, s4). Inr (s4, log3))))"

section \<open>Lemmas\<close>

lemma neighbours_recompute: "neighbours (snd (recomputeRoutes ord dv)) = neighbours dv"
  by (simp add: neighbours_def recomputeRoutes_frame)

lemma neighbours_link:
  assumes "n \<in> set (neighbours dv)"
  shows "set (neighbours (snd (updateNeighbourDistance ord n d dv))) = set (neighbours dv)"
proof -
  have "set (keys (AList.update n [] (m_neighboursDVInfo dv))) = set (keys (m_neighboursDVInfo dv))"
    using assms by (simp add: neighbours_def keys_update_mem del: set_map)
  then show ?thesis
    by (simp add: updateNeighbourDistance_def Let_def split_beta neighbours_recompute split: option.split)
      (simp add: neighbours_def)
qed

lemma neighbours_link_sub:
  "set (neighbours dv) \<subseteq> set (neighbours (snd (updateNeighbourDistance ord n d dv)))"
proof -
  have "set (keys (m_neighboursDVInfo dv)) \<subseteq> set (keys (AList.update n [] (m_neighboursDVInfo dv)))"
    by (auto simp: set_keys map_of_update simp del: set_map)
  then show ?thesis
    by (simp add: updateNeighbourDistance_def Let_def split_beta neighbours_recompute split: option.split)
      (simp add: neighbours_def)
qed

lemma neighbours_vector:
  "set (neighbours (snd (updateDvInfos ord n ps dv))) = set (neighbours dv)"
proof (cases "n \<noteq> m_selfNodeId dv \<and> n \<noteq> c_invalidNodeId \<and>
    n \<in> set (neighbours dv) \<and> n \<in> dom (map_of (m_dvInfos dv))")
  case True
  then have "set (keys (AList.update n c (m_neighboursDVInfo dv))) = set (keys (m_neighboursDVInfo dv))" for c
    by (simp add: neighbours_def keys_update_mem del: set_map)
  with True show ?thesis
    by (simp add: updateDvInfos_accepted neighbours_recompute) (simp add: neighbours_def)
next
  case False
  then show ?thesis using updateDvInfos_rejected [of n dv ord ps] by auto
qed

lemma send_payload_detect:
  assumes "pb_small pb"
  shows "\<exists>b. send_payload pb sender n (Pl_DistanceDetect m) log = Inr (sender n b, log @ [(n, b)])"
    and "\<exists>b. send_payload pb sender n (Pl_DistanceVector v) log = Inr (sender n b, log @ [(n, b)]) \<and>
      encode_packet pb (Pl_DistanceVector v) = Inr b"
proof -
  note lt = pb_smallD [OF assms, of "Pl_DistanceDetect m"] pb_smallD [OF assms, of "Pl_DistanceVector v"]
  show "\<exists>b. send_payload pb sender n (Pl_DistanceDetect m) log = Inr (sender n b, log @ [(n, b)])"
    using encode_packet_bytes [OF lt(1)] by (simp add: send_payload_def)
  show "\<exists>b. send_payload pb sender n (Pl_DistanceVector v) log = Inr (sender n b, log @ [(n, b)]) \<and>
      encode_packet pb (Pl_DistanceVector v) = Inr b"
    using encode_packet_bytes [OF lt(2)] by (simp add: send_payload_def)
qed

text \<open>Every neighbour of the table has a counter, and no other node.\<close>

definition svc_inv :: "dv_service \<Rightarrow> bool" where
  "svc_inv s \<longleftrightarrow> dom (map_of (m_seqInfo s)) = set (neighbours (m_distanceVector s))"

lemma svc_inv_link:
  "svc_inv s \<Longrightarrow> n \<in> dom (map_of (m_seqInfo s)) \<Longrightarrow>
   svc_inv (s\<lparr>m_distanceVector := snd (updateNeighbourDistance ord n d (m_distanceVector s))\<rparr>)"
  by (simp add: svc_inv_def neighbours_link)

text \<open>The steps the service takes on its table.\<close>

inductive dv_steps :: "distance_vector \<Rightarrow> distance_vector \<Rightarrow> bool" where
  steps_refl: "dv_steps dv dv"
| steps_link: "dv_steps dv dv' \<Longrightarrow> iteration_order ord \<Longrightarrow>
    dv_steps dv (snd (updateNeighbourDistance ord n d dv'))"
| steps_vector: "dv_steps dv dv' \<Longrightarrow> iteration_order ord \<Longrightarrow>
    dv_steps dv (snd (updateDvInfos ord n ps dv'))"

lemma dv_steps_reachable:
  "dv_steps dv dv' \<Longrightarrow> dv_reachable moved self nodes dv \<Longrightarrow> dv_reachable moved self nodes dv'"
  by (induction rule: dv_steps.induct) (auto intro: dv_link dv_vector)

lemma dv_steps_trans: "dv_steps dv' dv'' \<Longrightarrow> dv_steps dv dv' \<Longrightarrow> dv_steps dv dv''"
  by (induction rule: dv_steps.induct) (auto intro: steps_link steps_vector)

lemma detect_loop_ok:
  "svc_inv s \<Longrightarrow> pb_small pb \<Longrightarrow> iteration_order ord \<Longrightarrow> set ns \<subseteq> dom (map_of (m_seqInfo s)) \<Longrightarrow>
   \<exists>s' log'. detect_loop pb sender ord ts ns (s, log) = Inr (s', log') \<and> svc_inv s' \<and>
     m_eventQueue s' = m_eventQueue s \<and> m_boardcastTriggered s' = m_boardcastTriggered s \<and>
     m_vectorBegin s' = m_vectorBegin s \<and> dv_steps (m_distanceVector s) (m_distanceVector s') \<and>
     (\<exists>log2. log' = log @ log2)"
proof (induction ns arbitrary: s log)
  case Nil
  then show ?case by (auto intro: steps_refl)
next
  case (Cons n ns)
  then obtain si where si: "map_of (m_seqInfo s) n = Some si" by auto
  show ?case
  proof (cases "sendSeq si - receivedSeq si > c_distanceDetectLostThreshold")
    case True
    let ?s1 = "s\<lparr>m_distanceVector := snd (updateNeighbourDistance ord n c_unreachableDistance (m_distanceVector s))\<rparr>"
    have "svc_inv ?s1" using svc_inv_link Cons.prems si by blast
    from Cons.IH [OF this Cons.prems(2,3), of log] Cons.prems(4)
    obtain s' log' where r: "detect_loop pb sender ord ts ns (?s1, log) = Inr (s', log')"
      "svc_inv s'" "m_eventQueue s' = m_eventQueue s" "m_boardcastTriggered s' = m_boardcastTriggered s"
      "m_vectorBegin s' = m_vectorBegin s" "dv_steps (m_distanceVector ?s1) (m_distanceVector s')"
      "\<exists>log2. log' = log @ log2" by auto
    have "dv_steps (m_distanceVector s) (m_distanceVector s')"
      using dv_steps_trans [OF r(6)] steps_link [OF steps_refl Cons.prems(3)] by simp
    with r True si show ?thesis by simp
  next
    case False
    let ?s1 = "s\<lparr>m_seqInfo := AList.update n (si\<lparr>sendSeq := sendSeq si + 1\<rparr>) (m_seqInfo s)\<rparr>"
    let ?m = "\<lparr>dd_seq = ucast (ucast (sendSeq si) :: u32), dd_timestamp = ucast ts\<rparr>"
    obtain b where b: "send_payload pb sender n (Pl_DistanceDetect ?m) log = Inr (sender n b, log @ [(n, b)])"
      using send_payload_detect(1) [OF Cons.prems(2)] by blast
    have inv: "svc_inv ?s1" using Cons.prems(1) si by (auto simp: svc_inv_def map_of_update)
    have sub: "set ns \<subseteq> dom (map_of (m_seqInfo ?s1))" using Cons.prems(4) by (auto simp: map_of_update)
    from Cons.IH [OF inv Cons.prems(2,3) sub, of "log @ [(n, b)]"] False si b inv
    show ?thesis by (auto simp: Let_def intro: steps_refl)
  qed
qed

lemma sendDistanceDetect_ok:
  assumes "svc_inv s" "pb_small pb" "iteration_order ord"
  shows "\<exists>s' log'. sendDistanceDetect pb sender ord ts (s, log) = Inr (s', log') \<and> svc_inv s' \<and>
     m_eventQueue s' = m_eventQueue s \<and> m_boardcastTriggered s' = m_boardcastTriggered s \<and>
     m_vectorBegin s' = m_vectorBegin s \<and> dv_steps (m_distanceVector s) (m_distanceVector s') \<and>
     (\<exists>log2. log' = log @ log2)"
  using detect_loop_ok [OF assms, of "neighbours (m_distanceVector s)"] assms(1)
  by (simp add: sendDistanceDetect_def svc_inv_def)

lemma vector_loop_ok:
  assumes "pb_small pb"
  shows "\<exists>log2. vector_loop pb sender dv ns log = Inr (log @ log2) \<and> map fst log2 = ns \<and>
    (\<forall>(n, b) \<in> set log2. encode_packet pb (Pl_DistanceVector
        \<lparr>dvm_seq = 0, dvm_distanceVector = dvInfo dv n\<rparr>) = Inr b)"
proof (induction ns arbitrary: log)
  case (Cons n ns)
  obtain b where "send_payload pb sender n (Pl_DistanceVector \<lparr>dvm_seq = 0, dvm_distanceVector = dvInfo dv n\<rparr>) log =
      Inr (sender n b, log @ [(n, b)])"
    "encode_packet pb (Pl_DistanceVector \<lparr>dvm_seq = 0, dvm_distanceVector = dvInfo dv n\<rparr>) = Inr b"
    using send_payload_detect(2) [OF assms] by blast
  with Cons [of "log @ [(n, b)]"] show ?case by fastforce
qed simp

lemma svc_inv_frame [simp]:
  "svc_inv (s\<lparr>m_boardcastTriggered := b\<rparr>) \<longleftrightarrow> svc_inv s"
  "svc_inv (s\<lparr>m_detectBegin := t\<rparr>) \<longleftrightarrow> svc_inv s"
  "svc_inv (s\<lparr>m_detectTimeInterval := t\<rparr>) \<longleftrightarrow> svc_inv s"
  "svc_inv (s\<lparr>m_eventQueue := q\<rparr>) \<longleftrightarrow> svc_inv s"
  by (simp_all add: svc_inv_def)

lemma svc_inv_vector:
  "svc_inv (s\<lparr>m_distanceVector := snd (updateDvInfos ord n ps (m_distanceVector s))\<rparr>) \<longleftrightarrow> svc_inv s"
  by (simp add: svc_inv_def neighbours_vector)

lemma handle_event_ok:
  assumes "svc_inv s" "iteration_order ord" "handle_event ord e s = Inr (r, s')"
  shows "svc_inv s' \<and> m_eventQueue s' = m_eventQueue s \<and> m_vectorBegin s' = m_vectorBegin s \<and>
    (m_boardcastTriggered s \<longrightarrow> m_boardcastTriggered s') \<and>
    dv_steps (m_distanceVector s) (m_distanceVector s')"
proof (cases e)
  case (DistanceDetectReplyEvent n m)
  have step: "dv_steps dv (snd (updateNeighbourDistance ord n d dv))" for dv d
    using steps_link [OF steps_refl assms(2)] .
  have inv: "svc_inv (s\<lparr>m_seqInfo := AList.update n si (m_seqInfo s),
      m_distanceVector := snd (updateNeighbourDistance ord n d (m_distanceVector s))\<rparr>)"
    if "map_of (m_seqInfo s) n = Some x" for si d x
  proof -
    have "n \<in> set (neighbours (m_distanceVector s))" using that assms(1) by (auto simp: svc_inv_def)
    then show ?thesis
      using assms(1) by (auto simp: svc_inv_def neighbours_link map_of_update)
  qed
  show ?thesis
    using assms(1,3) step inv steps_refl unfolding DistanceDetectReplyEvent
    by (auto simp: handleDistanceDetectReply_def Let_def split_beta split: option.splits if_splits)
next
  case (DistanceVectorEvent n m)
  show ?thesis
    using assms(1,3) steps_vector [OF steps_refl assms(2)] unfolding DistanceVectorEvent
    by (auto simp: handleDistanceVector_def Let_def split_beta svc_inv_vector
        split: option.splits if_splits)
qed

fun event_payload :: "dv_event \<Rightarrow> bool" where
  "event_payload (DistanceDetectReplyEvent n m) \<longleftrightarrow> m \<noteq> None"
| "event_payload (DistanceVectorEvent n m) \<longleftrightarrow> m \<noteq> None"

lemma handle_event_total:
  "(\<exists>r s'. handle_event ord e s = Inr (r, s')) \<or> (\<not> event_payload e \<and> handle_event ord e s = Inl NullDeref)"
  by (cases e) (auto simp: handleDistanceDetectReply_def handleDistanceVector_def Let_def split_beta
      split: option.splits)


lemma dv_probe_phase_ok:
  assumes "svc_inv s" "pb_small pb" "iteration_order ord"
  shows "\<exists>s' log'. dv_probe_phase pb sender ord ck (s, log) = Inr (s', log') \<and> svc_inv s' \<and>
     m_eventQueue s' = m_eventQueue s \<and> m_boardcastTriggered s' = m_boardcastTriggered s \<and>
     m_vectorBegin s' = m_vectorBegin s \<and> dv_steps (m_distanceVector s) (m_distanceVector s') \<and>
     (\<exists>log2. log' = log @ log2)"
  using sendDistanceDetect_ok [OF assms, of sender "ck_system ck" log]
  using assms(1) by (auto simp: dv_probe_phase_def intro: steps_refl)

text \<open>Everything a round does, up to the handling of the oldest event.\<close>

lemma dv_tick_cases:
  assumes "svc_inv s" "pb_small pb" "iteration_order ord"
  obtains s3 log3 where "svc_inv s3" "m_eventQueue s3 = m_eventQueue s"
    "m_boardcastTriggered s3 = m_boardcastTriggered s" "m_vectorBegin s3 = m_vectorBegin s"
    "dv_steps (m_distanceVector s) (m_distanceVector s3)"
    "\<exists>log2. log3 = log @ log2"
    "vector_due ck s3 \<Longrightarrow> \<forall>n \<in> set (neighbours (m_distanceVector s3)). \<exists>b. (n, b) \<in> set log3 \<and>
       encode_packet pb (Pl_DistanceVector
         \<lparr>dvm_seq = 0, dvm_distanceVector = dvInfo (m_distanceVector s3) n\<rparr>) = Inr b"
    "dv_tick pb sender ord ck (s, log) =
      (case m_eventQueue s3 of
         [] \<Rightarrow> Inr (s3, log3)
       | e # es \<Rightarrow> and_then (handle_event ord e (s3\<lparr>m_eventQueue := es\<rparr>)) (\<lambda>(_, s4). Inr (s4, log3)))"
proof -
  obtain s1 log1 log1' where s1: "dv_probe_phase pb sender ord ck (s, log) = Inr (s1, log1)" "svc_inv s1"
    "m_eventQueue s1 = m_eventQueue s" "m_boardcastTriggered s1 = m_boardcastTriggered s"
    "m_vectorBegin s1 = m_vectorBegin s" "dv_steps (m_distanceVector s) (m_distanceVector s1)"
    "log1 = log @ log1'"
    using dv_probe_phase_ok [OF assms] by blast
  define s2 where "s2 = s1\<lparr>m_detectTimeInterval := ck_interval ck - m_detectBegin s1\<rparr>"
  obtain log2 where v: "vector_loop pb sender (m_distanceVector s2) (neighbours (m_distanceVector s2)) log1 =
      Inr (log1 @ log2)" "map fst log2 = neighbours (m_distanceVector s2)"
    "\<forall>(n, b) \<in> set log2. encode_packet pb (Pl_DistanceVector
        \<lparr>dvm_seq = 0, dvm_distanceVector = dvInfo (m_distanceVector s2) n\<rparr>) = Inr b"
    using vector_loop_ok [OF assms(2)] by blast
  define log3 where "log3 = (if vector_due ck s2 then log1 @ log2 else log1)"
  have tick: "dv_tick pb sender ord ck (s, log) =
      (case m_eventQueue s2 of
         [] \<Rightarrow> Inr (s2, log3)
       | e # es \<Rightarrow> and_then (handle_event ord e (s2\<lparr>m_eventQueue := es\<rparr>)) (\<lambda>(_, s4). Inr (s4, log3)))"
    unfolding dv_tick_def s1(1) and_then.simps prod.case Let_def s2_def [symmetric]
    using v(1) by (cases "vector_due ck s2"; cases "m_eventQueue s2")
      (simp_all add: log3_def sendDistanceVector_def)
  have sent: "\<exists>b. (n, b) \<in> set log3 \<and> encode_packet pb (Pl_DistanceVector
      \<lparr>dvm_seq = 0, dvm_distanceVector = dvInfo (m_distanceVector s2) n\<rparr>) = Inr b"
    if due: "vector_due ck s2" and n: "n \<in> set (neighbours (m_distanceVector s2))" for n
  proof -
    from n v(2) have "n \<in> set (map fst log2)" by simp
    then obtain b where "(n, b) \<in> set log2" by auto
    with v(3) due show ?thesis by (auto simp: log3_def)
  qed
  show ?thesis
  proof (rule that [of s2 log3, OF _ _ _ _ _ _ _ tick])
    show "svc_inv s2" using s1(2) by (simp add: s2_def svc_inv_def)
    show "\<exists>log2. log3 = log @ log2" using s1(7) by (auto simp: log3_def)
  qed (use s1 sent in \<open>auto simp: s2_def\<close>)
qed

text \<open>Reachable services: rounds of the thread and incoming packets, in any order.\<close>

inductive svc_reachable :: "protobuf \<Rightarrow> packet_sender \<Rightarrow> node_id \<Rightarrow> node_id \<Rightarrow> node_id list \<Rightarrow>
    dv_service \<Rightarrow> bool" for pb sender moved self nodes where
  svc_start: "svc_reachable pb sender moved self nodes (DvService_new moved now self nodes)"
| svc_tick: "svc_reachable pb sender moved self nodes s \<Longrightarrow> iteration_order ord \<Longrightarrow>
    dv_tick pb sender ord ck (s, log) = Inr (s', log') \<Longrightarrow> svc_reachable pb sender moved self nodes s'"
| svc_packet: "svc_reachable pb sender moved self nodes s \<Longrightarrow>
    dv_handlePacket pb sender ts n h p (s, log) = Inr (ret, s', log') \<Longrightarrow>
    svc_reachable pb sender moved self nodes s'"

lemma svc_inv_new: "svc_inv (DvService_new moved now self nodes)"
proof -
  have "dom (map_of (fold (\<lambda>n m. AList.update n x m) ns m)) = set ns \<union> dom (map_of m)"
    for ns :: "node_id list" and x :: seq_info and m
    by (induction ns arbitrary: m) (auto simp: map_of_update)
  then show ?thesis by (simp add: svc_inv_def DvService_new_def Let_def)
qed

lemma handlePacket_frame:
  assumes "dv_handlePacket pb sender ts n h p (s, log) = Inr (ret, s', log')"
  shows "m_seqInfo s' = m_seqInfo s" "m_distanceVector s' = m_distanceVector s"
  using assms by (auto simp: dv_handlePacket_def and_then_Inr split: if_splits)

lemma svc_reachable_inv:
  assumes "svc_reachable pb sender moved self nodes s" "pb_small pb"
  shows "svc_inv s \<and> dv_reachable moved self nodes (m_distanceVector s)"
  using assms(1)
proof (induction rule: svc_reachable.induct)
  case (svc_start now)
  then show ?case
    using svc_inv_new dv_start by (simp add: DvService_new_def Let_def)
next
  case (svc_tick s ord ck log s' log')
  from svc_tick.IH have inv: "svc_inv s" by simp
  obtain s3 log3 where s3: "svc_inv s3" "dv_steps (m_distanceVector s) (m_distanceVector s3)"
    "dv_tick pb sender ord ck (s, log) =
      (case m_eventQueue s3 of
         [] \<Rightarrow> Inr (s3, log3)
       | e # es \<Rightarrow> and_then (handle_event ord e (s3\<lparr>m_eventQueue := es\<rparr>)) (\<lambda>(_, s4). Inr (s4, log3)))"
    using dv_tick_cases [OF inv assms(2) svc_tick.hyps(2)] by metis
  have r3: "dv_reachable moved self nodes (m_distanceVector s3)"
    using dv_steps_reachable [OF s3(2)] svc_tick.IH by simp
  show ?case
  proof (cases "m_eventQueue s3")
    case Nil
    then show ?thesis using s3 r3 svc_tick.hyps(3) by simp
  next
    case (Cons e es)
    then obtain r where h: "handle_event ord e (s3\<lparr>m_eventQueue := es\<rparr>) = Inr (r, s')"
      using s3(3) svc_tick.hyps(3)
      by (cases "handle_event ord e (s3\<lparr>m_eventQueue := es\<rparr>)") auto
    have "svc_inv (s3\<lparr>m_eventQueue := es\<rparr>)" using s3(1) by (simp add: svc_inv_def)
    from handle_event_ok [OF this svc_tick.hyps(2) h] r3 show ?thesis
      using dv_steps_reachable by fastforce
  qed
next
  case (svc_packet s ts n h p log ret s' log')
  then show ?case using handlePacket_frame [OF svc_packet.hyps(2)] by (simp add: svc_inv_def)
qed

section \<open>Properties\<close>

text \<open>the routing service never fails an assertion.  In every state reached by rounds of the
  thread and incoming packets, whatever they carry, each neighbour has its probe counters; the
  next round returns, taking exactly one event off the queue, unless that event carries no
  payload, and the routing table is always one the distance-vector updates can produce.\<close>

theorem dv_tick_safe:
  assumes "svc_reachable pb sender moved self nodes s" "pb_small pb" "iteration_order ord"
  shows "dv_reachable moved self nodes (m_distanceVector s) \<and>
    dom (map_of (m_seqInfo s)) = set (neighbours (m_distanceVector s)) \<and>
    (case dv_tick pb sender ord ck (s, log) of
       Inl e \<Rightarrow> e = NullDeref \<and> (\<exists>ev es. m_eventQueue s = ev # es \<and> \<not> event_payload ev)
     | Inr (s', log') \<Rightarrow> m_eventQueue s' = tl (m_eventQueue s) \<and> (\<exists>new. log' = log @ new))"
proof -
  note inv = svc_reachable_inv [OF assms(1,2)]
  from inv have i: "svc_inv s" by simp
  obtain s3 log3 where s3: "svc_inv s3" "m_eventQueue s3 = m_eventQueue s" "\<exists>log2. log3 = log @ log2"
    "dv_tick pb sender ord ck (s, log) =
      (case m_eventQueue s3 of
         [] \<Rightarrow> Inr (s3, log3)
       | e # es \<Rightarrow> and_then (handle_event ord e (s3\<lparr>m_eventQueue := es\<rparr>)) (\<lambda>(_, s4). Inr (s4, log3)))"
    using dv_tick_cases [OF i assms(2,3)] by metis
  show ?thesis
  proof (cases "m_eventQueue s")
    case Nil
    then show ?thesis using inv s3 by (simp add: svc_inv_def)
  next
    case (Cons e es)
    have i3: "svc_inv (s3\<lparr>m_eventQueue := es\<rparr>)" using s3(1) by (simp add: svc_inv_def)
    show ?thesis
      using handle_event_total [of ord e "s3\<lparr>m_eventQueue := es\<rparr>"]
    proof
      assume "\<exists>r s'. handle_event ord e (s3\<lparr>m_eventQueue := es\<rparr>) = Inr (r, s')"
      then obtain r s' where h: "handle_event ord e (s3\<lparr>m_eventQueue := es\<rparr>) = Inr (r, s')" by blast
      show ?thesis using handle_event_ok [OF i3 assms(3) h] h s3 inv Cons by (simp add: svc_inv_def)
    next
      assume "\<not> event_payload e \<and> handle_event ord e (s3\<lparr>m_eventQueue := es\<rparr>) = Inl NullDeref"
      then show ?thesis using s3 inv Cons by (simp add: svc_inv_def)
    qed
  qed
qed


definition ex_dv_service :: dv_service where
  "ex_dv_service = DvService_new [] 0 ''A'' [''B'']"

theorem dv_tick_safe_witness:
  "\<exists>s' log'. dv_tick ex_pb (\<lambda>_ _. 0) (\<lambda>xs. xs)
      \<lparr>ck_system = 5, ck_update = 6, ck_interval = 7, ck_check = 8\<rparr> (ex_dv_service, []) = Inr (s', log') \<and>
    m_eventQueue s' = []"
proof -
  have q: "m_eventQueue ex_dv_service = []" by (simp add: ex_dv_service_def DvService_new_def Let_def)
  have "svc_reachable ex_pb (\<lambda>_ _. 0) [] ''A'' [''B''] ex_dv_service"
    unfolding ex_dv_service_def by (rule svc_start)
  from dv_tick_safe [OF this pb_small_ex id_iteration_order, where log = "[]" and
      ck = "\<lparr>ck_system = 5, ck_update = 6, ck_interval = 7, ck_check = 8\<rparr>"] q
  show ?thesis by (auto split: sum.splits)
qed

text \<open>Probe answers are applied in order and at most once.  An accepted answer moves the received
  counter to its sequence number and sets the link distance to a fifth of a second per unit, at
  least 1 and below \<open>2 ^ 25\<close>; after that the same answer, and every older one, changes nothing.\<close>

theorem dv_reply_freshness:
  assumes "map_of (m_seqInfo s) n = Some si" and "receivedSeq si < ddr_seq m"
  shows "\<exists>r s1. handleDistanceDetectReply ord n (Some m) s = Inr (r, s1) \<and>
    map_of (m_seqInfo s1) n = Some (si\<lparr>receivedSeq := ddr_seq m\<rparr>) \<and>
    m_distanceVector s1 = snd (updateNeighbourDistance ord n
      (of_nat (unat (ddr_elapsedTime m) div 200 + 1)) (m_distanceVector s)) \<and>
    unat (of_nat (unat (ddr_elapsedTime m) div 200 + 1) :: distance) = unat (ddr_elapsedTime m) div 200 + 1 \<and>
    handleDistanceDetectReply ord' n (Some m) s1 = Inr (0, s1) \<and>
    (ddr_seq m' \<le> ddr_seq m \<longrightarrow> handleDistanceDetectReply ord' n (Some m') s1 = Inr (0, s1))"
proof -
  let ?d = "ddr_elapsedTime m div c_timeResolutionMs + 1"
  have "unat (ddr_elapsedTime m) < 2 ^ 32" by (rule order_less_le_trans [OF unsigned_less]) simp
  then have lt: "unat (ddr_elapsedTime m) div 200 + 1 < 2 ^ 32" by simp
  have "unat ?d = unat (ddr_elapsedTime m div c_timeResolutionMs) + 1"
    using lt by (intro unat_add_lem [THEN iffD1, THEN trans])
      (simp_all add: c_timeResolutionMs_def unat_div)
  then have ud: "unat ?d = unat (ddr_elapsedTime m) div 200 + 1"
    by (simp add: c_timeResolutionMs_def unat_div)
  have u: "unat (of_nat (unat (ddr_elapsedTime m) div 200 + 1) :: distance) =
      unat (ddr_elapsedTime m) div 200 + 1"
  proof -
    have "k < 2 ^ 32 \<Longrightarrow> unat (of_nat k :: distance) = k" for k
      by (simp add: unat_of_nat take_bit_nat_eq_self)
    from this [OF lt] show ?thesis .
  qed
  have d: "of_nat (unat (ddr_elapsedTime m) div 200 + 1) = ?d"
    unfolding word_unat_eq_iff u ud ..
  obtain res dv where upd: "updateNeighbourDistance ord n ?d (m_distanceVector s) = (res, dv)" by fastforce
  show ?thesis
    using assms unfolding d [symmetric] using upd [folded d] u
    by (cases res)
      (auto simp: handleDistanceDetectReply_def Let_def not_le map_of_update d [symmetric] simp del: of_nat_Suc)
qed


theorem dv_reply_freshness_witness:
  "\<exists>r s1. handleDistanceDetectReply (\<lambda>xs. xs) ''B'' (Some \<lparr>ddr_seq = 1, ddr_elapsedTime = 450\<rparr>) ex_dv_service =
      Inr (r, s1) \<and>
    m_distanceVector s1 = snd (updateNeighbourDistance (\<lambda>xs. xs) ''B'' 3 (m_distanceVector ex_dv_service)) \<and>
    handleDistanceDetectReply (\<lambda>xs. xs) ''B'' (Some \<lparr>ddr_seq = 0, ddr_elapsedTime = 0\<rparr>) s1 = Inr (0, s1)"
proof -
  have "map_of (m_seqInfo ex_dv_service) ''B'' = Some \<lparr>sendSeq = 0, receivedSeq = 0\<rparr>" by code_simp
  from dv_reply_freshness [OF this, of "\<lparr>ddr_seq = 1, ddr_elapsedTime = 450\<rparr>" "\<lambda>xs. xs" "\<lambda>xs. xs"
      "\<lparr>ddr_seq = 0, ddr_elapsedTime = 0\<rparr>"]
  show ?thesis by auto
qed

text \<open>The first probe is always wasted.  A new service numbers its first probe 0 and has received
  counter 0, so the answer to it is discarded as old and measures nothing, from any neighbour and
  whatever it says; the neighbour stays unreachable until the second probe is answered.\<close>

theorem dv_first_probe_wasted:
  "ran (map_of (m_seqInfo (DvService_new moved now self nodes))) \<subseteq> {\<lparr>sendSeq = 0, receivedSeq = 0\<rparr>} \<and>
   (\<exists>r. handleDistanceDetectReply ord n (Some \<lparr>ddr_seq = 0, ddr_elapsedTime = t\<rparr>)
      (DvService_new moved now self nodes) = Inr (r, DvService_new moved now self nodes))"
proof
  have "ran (map_of (fold (\<lambda>n m. AList.update n x m) ns m)) \<subseteq> insert x (ran (map_of m))"
    for ns :: "node_id list" and x :: seq_info and m
  proof (induction ns arbitrary: m)
    case (Cons n ns)
    have "ran (map_of (AList.update n x m)) \<subseteq> insert x (ran (map_of m))"
      by (auto simp: map_of_update ran_def split: if_splits)
    with Cons [of "AList.update n x m"] show ?case by auto
  qed auto
  from this [of \<open>\<lparr>sendSeq = 0, receivedSeq = 0\<rparr>\<close> _ "[]"]
  show "ran (map_of (m_seqInfo (DvService_new moved now self nodes))) \<subseteq> {\<lparr>sendSeq = 0, receivedSeq = 0\<rparr>}"
    by (simp add: DvService_new_def Let_def)
  show "\<exists>r. handleDistanceDetectReply ord n (Some \<lparr>ddr_seq = 0, ddr_elapsedTime = t\<rparr>)
      (DvService_new moved now self nodes) = Inr (r, DvService_new moved now self nodes)"
    by (auto simp: handleDistanceDetectReply_def split: option.splits)
qed

lemma detect_loop_silent:
  "map_of (m_seqInfo s) n = Some si \<Longrightarrow> sendSeq si - receivedSeq si > c_distanceDetectLostThreshold \<Longrightarrow>
   detect_loop pb sender ord ts ns (s, log) = Inr (s', log') \<Longrightarrow>
   map_of (m_seqInfo s') n = Some si \<and> filter (\<lambda>(m, b). m = n) log' = filter (\<lambda>(m, b). m = n) log"
proof (induction ns arbitrary: s log)
  case (Cons k ns)
  show ?case
  proof (cases "map_of (m_seqInfo s) k")
    case None
    with Cons.prems(3) show ?thesis by simp
  next
    case (Some sk)
    show ?thesis
    proof (cases "sendSeq sk - receivedSeq sk > c_distanceDetectLostThreshold")
      case True
      with Some Cons.prems(3) have "detect_loop pb sender ord ts ns (s\<lparr>m_distanceVector :=
          snd (updateNeighbourDistance ord k c_unreachableDistance (m_distanceVector s))\<rparr>, log) =
        Inr (s', log')" by simp
      from Cons.IH [OF _ Cons.prems(2) this] Cons.prems(1) show ?thesis by simp
    next
      case False
      then have kn: "k \<noteq> n" using Some Cons.prems(1,2) by auto
      let ?s1 = "s\<lparr>m_seqInfo := AList.update k (sk\<lparr>sendSeq := sendSeq sk + 1\<rparr>) (m_seqInfo s)\<rparr>"
      have s1: "map_of (m_seqInfo ?s1) n = Some si" using Cons.prems(1) kn by (simp add: map_of_update)
      from Cons.prems(3) Some False obtain b where
        "(s', log') = (?s1, log @ [(k, b)]) \<or>
         detect_loop pb sender ord ts ns (?s1, log @ [(k, b)]) = Inr (s', log')"
        by (auto simp: Let_def send_payload_def and_then_Inr split: if_splits)
      then show ?thesis
      proof
        assume "(s', log') = (?s1, log @ [(k, b)])"
        then show ?thesis using s1 kn by simp
      next
        assume "detect_loop pb sender ord ts ns (?s1, log @ [(k, b)]) = Inr (s', log')"
        from Cons.IH [OF s1 Cons.prems(2) this] kn show ?thesis by simp
      qed
    qed
  qed
qed simp

text \<open>A neighbour that misses its answers is never probed again.  Once more than three probes are
  outstanding, by the 64-bit difference of the counters, a probe round sends that neighbour
  nothing and leaves its counters as they are, so the next rounds do the same: only an answer that
  is already under way can bring it back.  An answer numbered above the last probe makes the
  difference wrap and silences the neighbour at once.\<close>

theorem dv_silenced_neighbour:
  assumes "map_of (m_seqInfo s) n = Some si"
    and "sendSeq si - receivedSeq si > c_distanceDetectLostThreshold"
    and "sendDistanceDetect pb sender ord ts (s, log) = Inr (s', log')"
  shows "map_of (m_seqInfo s') n = Some si \<and> filter (\<lambda>(m, b). m = n) log' = filter (\<lambda>(m, b). m = n) log"
  using detect_loop_silent [OF assms(1,2) assms(3) [unfolded sendDistanceDetect_def]] .

theorem dv_silenced_neighbour_witness:
  "\<exists>s s' log'. handleDistanceDetectReply (\<lambda>xs. xs) ''B'' (Some \<lparr>ddr_seq = 9, ddr_elapsedTime = 0\<rparr>)
      ex_dv_service = Inr (1, s) \<and>
    sendDistanceDetect ex_pb (\<lambda>_ _. 0) (\<lambda>xs. xs) 5 (s, []) = Inr (s', log') \<and>
    filter (\<lambda>(m, b). m = ''B'') log' = []"
proof -
  have "case handleDistanceDetectReply (\<lambda>xs. xs) ''B'' (Some \<lparr>ddr_seq = 9, ddr_elapsedTime = 0\<rparr>) ex_dv_service of
      Inr (r, s) \<Rightarrow> r = 1 \<and> map_of (m_seqInfo s) ''B'' = Some \<lparr>sendSeq = 0, receivedSeq = 9\<rparr> \<and>
        dom (map_of (m_seqInfo s)) = set (neighbours (m_distanceVector s))
    | _ \<Rightarrow> False"
    unfolding set_keys [symmetric] by code_simp
  then obtain s where s: "handleDistanceDetectReply (\<lambda>xs. xs) ''B'' (Some \<lparr>ddr_seq = 9, ddr_elapsedTime = 0\<rparr>)
      ex_dv_service = Inr (1, s)" "map_of (m_seqInfo s) ''B'' = Some \<lparr>sendSeq = 0, receivedSeq = 9\<rparr>" "svc_inv s"
    by (auto simp: svc_inv_def split: sum.splits)
  obtain s' log' where d: "sendDistanceDetect ex_pb (\<lambda>_ _. 0) (\<lambda>xs. xs) 5 (s, []) = Inr (s', log')"
    using sendDistanceDetect_ok [OF s(3) pb_small_ex id_iteration_order] by blast
  have "sendSeq \<lparr>sendSeq = 0, receivedSeq = 9\<rparr> - receivedSeq \<lparr>sendSeq = 0, receivedSeq = 9\<rparr> >
      c_distanceDetectLostThreshold"
    by (simp add: c_distanceDetectLostThreshold_def)
  from dv_silenced_neighbour [OF s(2) this d] s d show ?thesis by auto
qed

text \<open>The broadcast trigger latches.  Nothing resets the flag a changed table sets, nor the time of
  the last broadcast: from then on every round of the thread, 200 ms after the service was
  created, sends the vector to every neighbour, and leaves flag and time as they were.\<close>

theorem dv_trigger_latches:
  assumes "svc_inv s" "pb_small pb" "iteration_order ord"
    and "m_boardcastTriggered s" "ck_check ck - m_vectorBegin s \<ge> c_minDistanceVectorSendInterval"
    and "dv_tick pb sender ord ck (s, []) = Inr (s', log')"
  shows "m_boardcastTriggered s' \<and> m_vectorBegin s' = m_vectorBegin s \<and>
    (\<forall>n \<in> set (neighbours (m_distanceVector s)). \<exists>dv b. (n, b) \<in> set log' \<and>
      encode_packet pb (Pl_DistanceVector \<lparr>dvm_seq = 0, dvm_distanceVector = dvInfo dv n\<rparr>) = Inr b)"
proof -
  obtain s3 log3 where s3: "svc_inv s3" "m_boardcastTriggered s3 = m_boardcastTriggered s"
    "m_vectorBegin s3 = m_vectorBegin s" "dv_steps (m_distanceVector s) (m_distanceVector s3)"
    "vector_due ck s3 \<Longrightarrow> \<forall>n \<in> set (neighbours (m_distanceVector s3)). \<exists>b. (n, b) \<in> set log3 \<and>
       encode_packet pb (Pl_DistanceVector
         \<lparr>dvm_seq = 0, dvm_distanceVector = dvInfo (m_distanceVector s3) n\<rparr>) = Inr b"
    "dv_tick pb sender ord ck (s, []) =
      (case m_eventQueue s3 of
         [] \<Rightarrow> Inr (s3, log3)
       | e # es \<Rightarrow> and_then (handle_event ord e (s3\<lparr>m_eventQueue := es\<rparr>)) (\<lambda>(_, s4). Inr (s4, log3)))"
    using dv_tick_cases [OF assms(1-3), where ck = ck and log = "[]"] by metis
  have due: "vector_due ck s3" using assms(4,5) s3(2,3) by (simp add: vector_due_def)
  have sub: "set (neighbours dv) \<subseteq> set (neighbours dv')" if "dv_steps dv dv'" for dv dv'
    using that
  proof (induction rule: dv_steps.induct)
    case (steps_link dv dv' ord n d)
    then show ?case using neighbours_link_sub by blast
  qed (simp_all add: neighbours_vector)
  have log: "log' = log3 \<and> m_boardcastTriggered s' \<and> m_vectorBegin s' = m_vectorBegin s"
  proof (cases "m_eventQueue s3")
    case Nil
    then show ?thesis using s3 assms(4,6) by simp
  next
    case (Cons e es)
    then obtain r where h: "handle_event ord e (s3\<lparr>m_eventQueue := es\<rparr>) = Inr (r, s')" "log' = log3"
      using s3(6) assms(6) by (cases "handle_event ord e (s3\<lparr>m_eventQueue := es\<rparr>)") auto
    have "svc_inv (s3\<lparr>m_eventQueue := es\<rparr>)" using s3(1) by simp
    from handle_event_ok [OF this assms(3) h(1)] h(2) s3(2,3) assms(4) show ?thesis by simp
  qed
  show ?thesis using s3(5) [OF due] sub [OF s3(4)] log by blast
qed

theorem dv_trigger_latches_witness:
  "\<exists>s' log' b. dv_tick ex_pb (\<lambda>_ _. 0) (\<lambda>xs. xs)
      \<lparr>ck_system = 5, ck_update = 6, ck_interval = 7, ck_check = 2500\<rparr>
      (ex_dv_service\<lparr>m_boardcastTriggered := True\<rparr>, []) = Inr (s', log') \<and>
    m_boardcastTriggered s' \<and> (''B'', b) \<in> set log'"
proof -
  let ?s = "ex_dv_service\<lparr>m_boardcastTriggered := True\<rparr>"
  let ?ck = "\<lparr>ck_system = 5, ck_update = 6, ck_interval = 7, ck_check = 2500\<rparr>"
  have inv: "svc_inv ?s" using svc_inv_new by (simp add: ex_dv_service_def)
  have q: "m_eventQueue ?s = []" "m_vectorBegin ?s = 0" "''B'' \<in> set (neighbours (m_distanceVector ?s))"
    by code_simp+
  obtain s3 log3 where t: "dv_tick ex_pb (\<lambda>_ _. 0) (\<lambda>xs. xs) ?ck (?s, []) = Inr (s3, log3)"
    using dv_tick_cases [OF inv pb_small_ex id_iteration_order, where ck = ?ck and log = "[]"] q(1)
    by (metis list.simps(4))
  have "ck_check ?ck - m_vectorBegin ?s \<ge> c_minDistanceVectorSendInterval"
    by (simp add: q(2) c_minDistanceVectorSendInterval_def)
  from dv_trigger_latches [OF inv pb_small_ex id_iteration_order _ this t] q(3) t show ?thesis by auto
qed

end
