(* ===== verification/Connector.thy ===== *)
theory Connector
  imports P2P
begin

text \<open>
  \<^verbatim>\<open>HostsConnector\<close>: the thread that dials the configured hosts.  \<^verbatim>\<open>m_connectingHosts\<close> maps an
  endpoint being dialled to its socket and the time it was started, or \<open>-1\<close> once the socket is
  connected and the session handed over.  What the sockets do is an argument of a pass.
\<close>

section \<open>Dialling\<close>

definition c_connectTimeout :: u64 where
  "c_connectTimeout = 20 * 1000"

text \<open>
  The outcome of dialling one host: no socket, a socket whose buffer cannot be sized, or a socket with
  its start time and the result of \<^verbatim>\<open>connect\<close> (\<open>epoll_ok\<close> is for the registration that follows).
\<close>

datatype connect_result = ConnectedNow bool | InProgress | ConnectFailed
datatype attempt = NoSocket | NoRecvBuffer | Dialled int int connect_result

text \<open>The service together with the session factory's next id.\<close>

type_synonym connector = "session_id \<times> p2p_service"

definition create_session :: "protobuf \<Rightarrow> u64 \<times> u16 \<Rightarrow> bool \<Rightarrow> int \<Rightarrow> host_end_point \<Rightarrow> connector \<Rightarrow> connector run" where
  "create_session pb junk epoll_ok fd host c =
     (let (s, next') = P2PSessionFactory_create junk fd c_p2pSessionReadBufferSize
            c_p2pSessionWriteBufferSize (fst c)
      in and_then (connectHandler pb epoll_ok (s\<lparr>ps_peerHost := host\<rparr>) (snd c)) (\<lambda>st'. Inr (next', st')))"

definition set_connecting :: "connecting \<Rightarrow> connector \<Rightarrow> connector" where
  "set_connecting m c = (fst c, (snd c)\<lparr>sv_connecting := m\<rparr>)"

text \<open>The time stamp \<open>-1\<close>; \<^verbatim>\<open>operator[]\<close> makes a missing entry first.\<close>

definition mark_connected :: "host_end_point \<Rightarrow> connecting \<Rightarrow> connecting" where
  "mark_connected host m =
     AList.update host (case map_of m host of None \<Rightarrow> 0 | Some (fd, ts) \<Rightarrow> fd, -1) m"

text \<open>The first loop; the flag tells that the pass ended in it.\<close>

fun dial_hosts :: "protobuf \<Rightarrow> u64 \<times> u16 \<Rightarrow> (host_end_point \<Rightarrow> attempt) \<Rightarrow> hosts \<Rightarrow> connector \<Rightarrow>
    (bool \<times> connector) run" where
  "dial_hosts pb junk dial [] c = Inr (False, c)"
| "dial_hosts pb junk dial ((host, nodeId, stamp) # hosts) c =
     (if nodeId \<noteq> [] then dial_hosts pb junk dial hosts c
      else if map_of (sv_connecting (snd c)) host \<noteq> None then dial_hosts pb junk dial hosts c
      else (case dial host of
          NoSocket \<Rightarrow> dial_hosts pb junk dial hosts c
        | NoRecvBuffer \<Rightarrow> Inr (True, c)
        | Dialled fd now result \<Rightarrow>
            (let c1 = set_connecting (emplace host (fd, now) (sv_connecting (snd c))) c
             in case result of
                  ConnectedNow epoll_ok \<Rightarrow>
                    and_then (create_session pb junk epoll_ok fd host c1) (\<lambda>c2.
                      dial_hosts pb junk dial hosts
                        (set_connecting (mark_connected host (sv_connecting (snd c2))) c2))
                | InProgress \<Rightarrow> dial_hosts pb junk dial hosts c1
                | ConnectFailed \<Rightarrow>
                    dial_hosts pb junk dial hosts (set_connecting (AList.delete host (sv_connecting (snd c1))) c1))))"

section \<open>Waiting for sockets\<close>

text \<open>What \<^verbatim>\<open>select\<close> and \<^verbatim>\<open>getsockopt\<close> report of one socket; only sockets put into the set can be ready.\<close>

datatype poll_result = PollFailed | PollConnected bool

definition watched_fds :: "connecting \<Rightarrow> int list" where
  "watched_fds m = map (\<lambda>(host, fd, ts). fd) (filter (\<lambda>(host, fd, ts). ts \<noteq> -1) m)"

fun poll_hosts :: "protobuf \<Rightarrow> u64 \<times> u16 \<Rightarrow> (int \<Rightarrow> poll_result option) \<Rightarrow> connecting \<Rightarrow> connector \<Rightarrow>
    (connecting \<times> connector) run" where
  "poll_hosts pb junk ready [] c = Inr ([], c)"
| "poll_hosts pb junk ready ((host, fd, ts) # rest) c =
     (case ready fd of
        None \<Rightarrow> and_then (poll_hosts pb junk ready rest c) (\<lambda>(m, c1). Inr ((host, fd, ts) # m, c1))
      | Some PollFailed \<Rightarrow> poll_hosts pb junk ready rest c
      | Some (PollConnected epoll_ok) \<Rightarrow>
          and_then (create_session pb junk epoll_ok fd host c) (\<lambda>c1.
          and_then (poll_hosts pb junk ready rest c1) (\<lambda>(m, c2). Inr ((host, fd, -1) # m, c2))))"

text \<open>
  The last loop is a range-for that erases from the map it runs over: once an entry is erased the
  loop steps on from the freed node.
\<close>

definition timed_out :: "u64 \<Rightarrow> int \<Rightarrow> bool" where
  "timed_out now ts \<longleftrightarrow> ts \<noteq> -1 \<and> now - of_int ts \<ge> c_connectTimeout"

fun expire_hosts :: "u64 \<Rightarrow> connecting \<Rightarrow> connecting run" where
  "expire_hosts now [] = Inr []"
| "expire_hosts now ((host, fd, ts) # rest) =
     (if timed_out now ts then Inl Dangling
      else and_then (expire_hosts now rest) (\<lambda>m. Inr ((host, fd, ts) # m)))"

text \<open>
  A pass of the thread.  \<open>selected\<close> is \<open>None\<close> when \<^verbatim>\<open>select\<close> fails, otherwise what it reports of the
  watched sockets; \<open>now\<close> is the clock at the last loop.
\<close>

definition connector_pass :: "protobuf \<Rightarrow> u64 \<times> u16 \<Rightarrow> (host_end_point \<Rightarrow> attempt) \<Rightarrow>
    (int \<Rightarrow> poll_result option) option \<Rightarrow> u64 \<Rightarrow> connector \<Rightarrow> connector run" where
  "connector_pass pb junk dial selected now c =
     and_then (dial_hosts pb junk dial (m_hosts (sv_hostsInfo (snd c))) c) (\<lambda>(ended, c1).
     if ended then Inr c1
     else (case selected of
         None \<Rightarrow> Inr c1
       | Some ready \<Rightarrow>
           (let ready' = (\<lambda>fd. if fd \<in> set (watched_fds (sv_connecting (snd c1))) then ready fd else None)
            in and_then (poll_hosts pb junk ready' (sv_connecting (snd c1)) c1) (\<lambda>(m, c2).
               and_then (expire_hosts now m) (\<lambda>m'. Inr (set_connecting m' c2))))))"

section \<open>The fate of an entry\<close>

text \<open>The two parts as one system: an event of the service or a pass of the connector.\<close>

datatype sys_event =
    Service p2p_event
  | Pass "host_end_point \<Rightarrow> attempt" "(int \<Rightarrow> poll_result option) option" u64

fun sys_step :: "protobuf \<Rightarrow> u64 \<times> u16 \<Rightarrow> sys_event \<Rightarrow> connector \<Rightarrow> connector run" where
  "sys_step pb junk (Service e) c = and_then (p2p_step pb (snd junk) e (snd c)) (\<lambda>st. Inr (fst c, st))"
| "sys_step pb junk (Pass dial selected now) c = connector_pass pb junk dial selected now c"

abbreviation entry :: "connector \<Rightarrow> host_end_point \<Rightarrow> (int \<times> int) option" where
  "entry c host \<equiv> map_of (sv_connecting (snd c)) host"

lemma connectHandler_connecting:
  "connectHandler pb ok s st = Inr st' \<Longrightarrow> sv_connecting st' = sv_connecting st"
  by (auto simp: connectHandler_def and_then_Inr Let_def split_beta set_session_def set_reactor_def release_def
      dest!: svc_sendData_frame split: option.splits if_splits)

lemma create_session_connecting:
  "create_session pb junk ok fd host c = Inr c' \<Longrightarrow> sv_connecting (snd c') = sv_connecting (snd c)"
  by (auto simp: create_session_def and_then_Inr Let_def split_beta dest!: connectHandler_connecting)

lemma set_connecting_simps [simp]:
  "sv_connecting (snd (set_connecting m c)) = m" "fst (set_connecting m c) = fst c"
  by (simp_all add: set_connecting_def)

text \<open>Dialling other hosts leaves an entry alone.\<close>

lemma dial_hosts_keeps:
  "dial_hosts pb junk dial hosts c = Inr (b, c') \<Longrightarrow> entry c host = Some x \<Longrightarrow> entry c' host = Some x"
proof (induction pb junk dial hosts c rule: dial_hosts.induct)
  case (2 pb junk dial h nodeId stamp hosts c)
  show ?case
  proof (cases "nodeId \<noteq> [] \<or> entry c h \<noteq> None")
    case True
    then show ?thesis using 2 by (auto split: if_splits)
  next
    case False
    then have ne: "h \<noteq> host" using "2.prems"(2) by (cases x) auto
    show ?thesis
    proof (cases "dial h")
      case NoSocket
      then show ?thesis using 2(3) [OF _ _ NoSocket] "2.prems" False by simp
    next
      case NoRecvBuffer
      then show ?thesis using "2.prems" False by simp
    next
      case (Dialled fd now result)
      let ?c1 = "set_connecting (emplace h (fd, now) (sv_connecting (snd c))) c"
      have e: "entry ?c1 host = Some x" using "2.prems"(2) ne by (simp add: alist_simps)
      show ?thesis
      proof (cases result)
        case (ConnectedNow ok)
        then obtain c2 where c2: "create_session pb junk ok fd h ?c1 = Inr c2"
          "dial_hosts pb junk dial hosts (set_connecting (mark_connected h (sv_connecting (snd c2))) c2) = Inr (b, c')"
          using "2.prems"(1) False Dialled by (auto simp: and_then_Inr)
        have "map_of (mark_connected h (sv_connecting (snd c2))) host = Some x"
          using create_session_connecting [OF c2(1)] e ne by (simp add: mark_connected_def alist_simps)
        then show ?thesis using 2(4) [OF _ _ Dialled refl ConnectedNow c2(2)] False by simp
      next
        case InProgress
        then show ?thesis using 2(5) [OF _ _ Dialled refl InProgress] "2.prems"(1) e False Dialled by simp
      next
        case ConnectFailed
        have "entry (set_connecting (AList.delete h (sv_connecting (snd ?c1))) ?c1) host = Some x"
          using e ne by (simp add: alist_simps)
        then show ?thesis using 2(6) [OF _ _ Dialled refl ConnectFailed] "2.prems"(1) False Dialled ConnectFailed by simp
      qed
    qed
  qed
qed simp

text \<open>Polling keeps what is not ready, and does not touch the map of the service itself.\<close>

lemma poll_hosts_keeps:
  "poll_hosts pb junk ready m c = Inr (m', c') \<Longrightarrow> map_of m host = Some (fd, ts) \<Longrightarrow> ready fd = None \<Longrightarrow>
   map_of m' host = Some (fd, ts)"
  by (induction pb junk ready m c arbitrary: m' c' rule: poll_hosts.induct)
    (auto simp: and_then_Inr split: option.splits poll_result.splits if_splits)


lemma expire_hosts_keeps:
  "expire_hosts now m = Inr m' \<Longrightarrow> m' = m \<and> (\<forall>(h, fd, ts) \<in> set m. \<not> timed_out now ts)"
  by (induction now m arbitrary: m' rule: expire_hosts.induct) (auto simp: and_then_Inr split: if_splits)

lemma expire_hosts_faults:
  "(h, fd, ts) \<in> set m \<Longrightarrow> timed_out now ts \<Longrightarrow> expire_hosts now m = Inl Dangling"
  by (induction now m rule: expire_hosts.induct) auto

lemma dial_hosts_ignores:
  assumes d: "\<And>h. h \<noteq> host \<Longrightarrow> dial' h = dial h"
  shows "entry c host \<noteq> None \<Longrightarrow> dial_hosts pb junk dial' hosts c = dial_hosts pb junk dial hosts c"
  using d
proof (induction pb junk dial hosts c rule: dial_hosts.induct)
  case (2 pb junk dial h nodeId stamp hosts c)
  show ?case
  proof (cases "nodeId \<noteq> [] \<or> entry c h \<noteq> None")
    case True
    then show ?thesis using 2 by auto
  next
    case False
    then have ne: "h \<noteq> host" using "2.prems"(1) by auto
    then have dh: "dial' h = dial h" by (rule "2.prems"(2))
    show ?thesis
    proof (cases "dial h")
      case (Dialled fd now result)
      let ?c1 = "set_connecting (emplace h (fd, now) (sv_connecting (snd c))) c"
      have e: "entry ?c1 host \<noteq> None" using "2.prems" by (auto simp: alist_simps)
      show ?thesis
      proof (cases result)
        case (ConnectedNow ok)
        have "dial_hosts pb junk dial' hosts (set_connecting (mark_connected h (sv_connecting (snd c2))) c2) =
            dial_hosts pb junk dial hosts (set_connecting (mark_connected h (sv_connecting (snd c2))) c2)"
          if "create_session pb junk ok fd h ?c1 = Inr c2" for c2
        proof -
          have en: "entry (set_connecting (mark_connected h (sv_connecting (snd c2))) c2) host \<noteq> None"
            using create_session_connecting [OF that] ne e by (simp add: mark_connected_def alist_simps)
          show ?thesis using 2(4) [OF _ _ Dialled refl ConnectedNow en "2.prems"(2)] False by blast
        qed
        then show ?thesis
          using False ne Dialled ConnectedNow by (cases "create_session pb junk ok fd h ?c1") (simp_all add: dh)
      next
        case InProgress
        then have "dial_hosts pb junk dial' hosts ?c1 = dial_hosts pb junk dial hosts ?c1"
          using 2(5) [OF _ _ Dialled refl InProgress e "2.prems"(2)] False by blast
        then show ?thesis using InProgress False ne Dialled by (simp add: dh)
      next
        case ConnectFailed
        have "entry (set_connecting (AList.delete h (sv_connecting (snd ?c1))) ?c1) host \<noteq> None"
          using e ne by (simp add: alist_simps)
        then have "dial_hosts pb junk dial' hosts (set_connecting (AList.delete h (sv_connecting (snd ?c1))) ?c1) =
            dial_hosts pb junk dial hosts (set_connecting (AList.delete h (sv_connecting (snd ?c1))) ?c1)"
          by (intro 2(6) [OF _ _ Dialled refl ConnectFailed _ "2.prems"(2)]) (use False in simp_all)
        then show ?thesis using False ne Dialled ConnectFailed by (simp add: dh)
      qed
    next
      case NoSocket
      then have "dial_hosts pb junk dial' hosts c = dial_hosts pb junk dial hosts c"
        using 2(3) [OF _ _ NoSocket] "2.prems" False by blast
      then show ?thesis using NoSocket False ne by (simp add: dh)
    next
      case NoRecvBuffer
      then show ?thesis using False ne by (simp add: dh)
    qed
  qed
qed simp


text \<open>Only the reply handler takes entries out of the map.\<close>

lemma sendData_connecting: "svc_sendData sid data st = Inr (ret, st') \<Longrightarrow> sv_connecting st' = sv_connecting st"
  by (auto dest: svc_sendData_frame)

lemma send_each_connecting: "send_each hosts buffer st = Inr st' \<Longrightarrow> sv_connecting st' = sv_connecting st"
  by (induction hosts buffer st rule: send_each.induct) (auto simp: and_then_Inr dest!: sendData_connecting)

lemma heartbeat_connecting: "heartbeat_round now hosts st = Inr st' \<Longrightarrow> sv_connecting st' = sv_connecting st"
  by (induction now hosts st rule: heartbeat_round.induct)
    (auto simp: and_then_Inr heartbeat_sender_def dest!: sendData_connecting split: if_splits option.splits)

lemma newClient_connecting: "newClientCallback ok s st = Inr st' \<Longrightarrow> sv_connecting st' = sv_connecting st"
  by (auto simp: newClientCallback_def and_then_Inr Let_def split_beta set_session_def set_reactor_def release_def
      split: option.splits if_splits)

lemma timeout_connecting: "sv_connecting (timeoutHandler sessions st) = sv_connecting st"
  by (induction sessions st rule: timeoutHandler.induct) simp_all

lemma release_connecting [simp]: "sv_connecting (release sid st) = sv_connecting st"
  by (simp add: release_def)

lemma fold_release_connecting: "sv_connecting (fold release sids st) = sv_connecting st"
  by (induction sids arbitrary: st) simp_all

lemma disconnectClient_connecting [simp]: "sv_connecting (disconnectClient h n f sid st) = sv_connecting st"
  by (simp add: disconnectClient_def Let_def)

lemma destroy_connecting: "destroy_next ok st = Inr st' \<Longrightarrow> sv_connecting st' = sv_connecting st"
  by (auto simp: destroy_next_def destroyHandler_def Let_def set_session_def set_reactor_def
      split: option.splits if_splits)

lemma step_connecting:
  assumes "p2p_step pb junk e st = Inr st'" "e \<noteq> ServiceTurn"
  shows "sv_connecting st' = sv_connecting st"
  using assms
  by (cases e)
    (auto simp: and_then_Inr newClient_connecting connectHandler_connecting route_packet_def disconnectHandler_def
      queue_destroy_def alive_tick_def Let_def split_beta timeout_connecting HostsHeartbeatService_run_def
      heartbeat_connecting boardcastModuleMessage_def sendModuleMessageByNodeId_def distance_sender_def
      module_turn_def onModuleMessage_def tasks_done_def fold_release_connecting set_reactor_def destroy_connecting
      dest!: send_each_connecting sendData_connecting split: option.splits list.splits if_splits payload.splits)

lemma reply_accepted_connecting:
  "sv_connecting (snd (reply_accepted sid h n st)) = sv_connecting st \<or>
   (bound st n = None \<and> sv_connecting (snd (reply_accepted sid h n st)) = AList.delete h (sv_connecting st))"
  by (auto simp: reply_accepted_def Let_def split_beta queue_destroy_def setHostConnected_def split: option.splits)

lemma client_info_result_connecting [simp]:
  "sv_connecting (snd (client_info_result n sid st)) = sv_connecting st"
  by (simp add: client_info_result_def Let_def split_beta)

text \<open>A reply with result 0 for a node that is not bound, on a session of the host.\<close>

definition completes :: "p2p_service \<Rightarrow> host_end_point \<Rightarrow> bool" where
  "completes st host \<longleftrightarrow>
     (case sv_serviceQueue st of
        (sid, (h, Some (Pl_ClientInfoReply m))) # _ \<Rightarrow>
          header_type h = PT_ClientInfoReply \<and> cir_result m = 0 \<and> bound st (cir_nodeId m) = None \<and>
          (case lock_session sid st of None \<Rightarrow> False | Some s \<Rightarrow> ps_peerHost s = host)
      | _ \<Rightarrow> False)"

lemma service_turn_connecting:
  assumes "service_turn pb junk st = Inr st'"
  shows "map_of (sv_connecting st') host = map_of (sv_connecting st) host \<or> completes st host"
proof (cases "sv_serviceQueue st")
  case Nil
  then show ?thesis using assms by (simp add: service_turn_def)
next
  case (Cons q rest)
  obtain sid h pl where q: "q = (sid, h, pl)" by (metis prod_cases3)
  let ?st = "st\<lparr>sv_serviceQueue := rest\<rparr>"
  have l: "lock_session w ?st = lock_session w st" for w by (simp add: lock_session_def)
  have turn: "service_handler pb junk sid (h, pl) ?st = Inr st'"
    using assms by (simp add: service_turn_def Cons q)
  consider (hb) "header_type h = PT_HeartBeat" | (ci) "header_type h = PT_ClientInfo"
    | (cir) "header_type h = PT_ClientInfoReply" | (hbr) "header_type h = PT_HeartBeatReply"
    | (other) "header_type h \<notin> {PT_HeartBeat, PT_ClientInfo, PT_ClientInfoReply, PT_HeartBeatReply}"
    by auto
  then show ?thesis
  proof cases
    case hb
    then show ?thesis using turn
      by (auto simp: service_handler_def onHeartBeat_def and_then_Inr set_session_def
          dest!: sendData_connecting split: option.splits)
  next
    case hbr
    then show ?thesis using turn
      by (auto simp: service_handler_def onHeartBeatReply_def and_then_Inr set_session_def split: option.splits)
  next
    case other
    then show ?thesis using turn by (cases "header_type h") (auto simp: service_handler_def)
  next
    case ci
    then show ?thesis using turn
      by (auto simp: service_handler_def onClientInfo_def l Let_def split_beta and_then_Inr set_session_def
          dest!: sendData_connecting split: option.splits payload.splits)
  next
    case cir
    with turn obtain ret where t: "onClientInfoReply junk sid pl ?st = Inr (ret, st')"
      by (auto simp: service_handler_def and_then_Inr)
    show ?thesis
    proof (cases "lock_session sid st")
      case None
      then show ?thesis using t by (auto simp: onClientInfoReply_def l)
    next
      case (Some s)
      with t obtain m where m: "pl = Some (Pl_ClientInfoReply m)"
        by (auto simp: onClientInfoReply_def l split: option.splits payload.splits)
      let ?st1 = "set_session (s\<lparr>ps_nodeId := cir_nodeId m\<rparr>) ?st"
      have b1: "bound ?st1 n = bound st n" "sv_connecting ?st1 = sv_connecting st" for n
        by (simp_all add: set_session_def)
      show ?thesis
      proof (cases "sint (cir_result m) = 0")
        case True
        then have "st' = snd (reply_accepted sid (ps_peerHost s) (cir_nodeId m) ?st1)"
          using t Some m by (simp add: onClientInfoReply_def l Let_def)
        with reply_accepted_connecting [of sid "ps_peerHost s" "cir_nodeId m" ?st1] True b1 Cons q Some m cir
        show ?thesis by (cases "ps_peerHost s = host") (auto simp: completes_def sint_zero alist_simps)
      next
        case False
        then have "sv_connecting st' = sv_connecting st"
          using t Some m
          by (auto simp: onClientInfoReply_def l Let_def and_then_Inr set_session_def rename_other_def
              split: if_splits option.splits)
        then show ?thesis by simp
      qed
    qed
  qed
qed


lemma poll_hosts_stuck:
  "poll_hosts pb junk ready m c = Inr (m', c') \<Longrightarrow> map_of m host = Some (fd, -1) \<Longrightarrow>
   ready fd \<noteq> Some PollFailed \<Longrightarrow> map_of m' host = Some (fd, -1)"
  by (induction pb junk ready m c arbitrary: m' c' rule: poll_hosts.induct)
    (auto simp: and_then_Inr split: option.splits poll_result.splits if_splits)

lemma connector_pass_keeps:
  assumes "connector_pass pb junk dial selected now c = Inr c'" "entry c host = Some (fd, -1)"
  shows "entry c' host = Some (fd, -1) \<or> (\<exists>ready. selected = Some ready \<and> ready fd = Some PollFailed)"
proof -
  obtain b c1 where d: "dial_hosts pb junk dial (m_hosts (sv_hostsInfo (snd c))) c = Inr (b, c1)"
    using assms(1) by (auto simp: connector_pass_def and_then_Inr)
  note e = dial_hosts_keeps [OF d assms(2)]
  show ?thesis
  proof (cases "b \<or> selected = None")
    case True
    then show ?thesis using assms(1) d e by (auto simp: connector_pass_def split: if_splits)
  next
    case False
    then obtain ready where r: "selected = Some ready" by auto
    let ?ready = "\<lambda>fd. if fd \<in> set (watched_fds (sv_connecting (snd c1))) then ready fd else None"
    obtain m c2 where p: "poll_hosts pb junk ?ready (sv_connecting (snd c1)) c1 = Inr (m, c2)"
      "and_then (expire_hosts now m) (\<lambda>m'. Inr (set_connecting m' c2)) = Inr c'"
      using assms(1) d False r by (auto simp: connector_pass_def and_then_Inr Let_def)
    then have "c' = set_connecting m c2" by (auto simp: and_then_Inr dest: expire_hosts_keeps)
    with poll_hosts_stuck [OF p(1) e] r show ?thesis by (auto split: if_splits)
  qed
qed

section \<open>Properties\<close>


text \<open>A dial that is not answered in time crashes the connector.  If a host is being dialled since at least
  20 seconds and the pass reaches its last loop with nothing reported for the socket, the pass
  faults: the loop erases the entry from the map it is iterating over.\<close>

theorem dial_timeout_faults:
  assumes "entry c host = Some (fd, ts)" and "ts \<noteq> -1" and "now - of_int ts \<ge> c_connectTimeout"
    and "dial_hosts pb junk dial (m_hosts (sv_hostsInfo (snd c))) c = Inr (False, c1)"
    and "poll_hosts pb junk ready (sv_connecting (snd c1)) c1 = Inr (m, c2)" and "ready fd = None"
    and "\<And>x. x \<notin> set (watched_fds (sv_connecting (snd c1))) \<Longrightarrow> ready x = None"
  shows "connector_pass pb junk dial (Some ready) now c = Inl Dangling"
proof -
  have r: "(\<lambda>fd. if fd \<in> set (watched_fds (sv_connecting (snd c1))) then ready fd else None) = ready"
    using assms(7) by auto
  have "map_of m host = Some (fd, ts)"
    using poll_hosts_keeps [OF assms(5) dial_hosts_keeps [OF assms(4,1)] assms(6)] .
  then have "expire_hosts now m = Inl Dangling"
    using assms(2,3) by (intro expire_hosts_faults [OF map_of_SomeD]) (simp_all add: timed_out_def)
  then show ?thesis using assms(4,5) by (simp add: connector_pass_def Let_def r)
qed

definition ex_connector :: "(host_end_point \<times> int \<times> int) list \<Rightarrow> connector" where
  "ex_connector m = (1, ex_service\<lparr>sv_connecting := m,
     sv_hostsInfo := \<lparr>m_hosts = [(HostEndPointInfo ''a'' 1, [], -1), (HostEndPointInfo ''c'' 2, [], -1)],
       m_nodeIdInfos = []\<rparr>\<rparr>)"

theorem dial_timeout_faults_witness:
  "connector_pass ex_pb (0, 0) (\<lambda>_. NoSocket) (Some (\<lambda>_. None)) 20005
     (ex_connector [(HostEndPointInfo ''a'' 1, 7, 5)]) = Inl Dangling"
proof -
  let ?c = "ex_connector [(HostEndPointInfo ''a'' 1, 7, 5)]"
  have e: "entry ?c (HostEndPointInfo ''a'' 1) = Some (7, 5)" by (simp add: ex_connector_def)
  have d: "dial_hosts ex_pb (0, 0) (\<lambda>_. NoSocket) hosts ?c = Inr (False, ?c)" for hosts
    by (induction hosts) auto
  have p: "poll_hosts ex_pb (0, 0) (\<lambda>_. None) (sv_connecting (snd ?c)) ?c = Inr ([(HostEndPointInfo ''a'' 1, 7, 5)], ?c)"
    by (simp add: ex_connector_def)
  show ?thesis
    by (rule dial_timeout_faults [OF e _ _ d p]) (simp_all add: c_connectTimeout_def)
qed


section \<open>Two nodes dialling each other\<close>

text \<open>A node with two reactors whose dial of its one host has just been answered (on socket 8).\<close>

definition ex_node :: "node_id \<Rightarrow> host_end_point \<Rightarrow> host_end_point \<Rightarrow> p2p_service" where
  "ex_node self host peer =
     (P2PService_new 2 self host \<lparr>m_hosts = [(peer, [], -1)], m_nodeIdInfos = []\<rparr>)\<lparr>sv_connecting := [(peer, 8, -1)]\<rparr>"

definition ex_reply_packet :: "node_id \<Rightarrow> packet" where
  "ex_reply_packet n = (setType PT_ClientInfoReply PacketHeader_new, Some (Pl_ClientInfoReply
     \<lparr>cir_seq = 0, cir_peerHost = [], cir_handshakeUuid = [], cir_nodeId = n, cir_result = 0\<rparr>))"

definition ex_dialled :: "host_end_point \<Rightarrow> p2p_session" where
  "ex_dialled peer = (P2PSession_new (0, 0) 8 1 (rb_new 4) (rb_new 4))\<lparr>ps_peerHost := peer\<rparr>"

text \<open>
  Both nodes: the dialled session (1) is handed over, the peer's dial is accepted (session 2), the client
  info of the peer is answered, and the peer's reply to our own is taken up.
\<close>

definition handshakes :: "node_id \<Rightarrow> host_end_point \<Rightarrow> p2p_event list" where
  "handshakes peer host =
     [Connected True (ex_dialled host), Accepted True (ex_accepted 2), Arrived 2 (ex_info peer), ServiceTurn,
      Arrived 1 (ex_reply_packet peer), ServiceTurn, TasksDone 0]"

text \<open>Time passes: heartbeats are due and the watchdog looks twice.\<close>

definition quiet :: "p2p_event list" where
  "quiet = [HeartbeatRound 5000, AliveTick, HeartbeatRound 10000, AliveTick, DestroyTurn True]"

definition host_a :: host_end_point where
  "host_a = HostEndPointInfo ''a'' 1"

definition host_b :: host_end_point where
  "host_b = HostEndPointInfo ''b'' 1"

text \<open>The smaller node closes its own session; the larger one sees that end closed.\<close>

definition smaller_node :: "p2p_service option" where
  "smaller_node = p2p_run ex_pb 0 (handshakes ''B'' host_b @ [DestroyTurn True]) (ex_node ''A'' host_a host_b)"

definition larger_node :: "p2p_service option" where
  "larger_node = p2p_run ex_pb 0 (handshakes ''A'' host_a @ [PeerLost 2, DestroyTurn True]) (ex_node ''B'' host_b host_a)"


end
