(* ===== verification/Storage.thy ===== *)
theory Storage
  imports Prelude
begin

text \<open>
  Persistent storage: the interface \<^verbatim>\<open>Storage\<close> and its implementation \<^verbatim>\<open>RocksDBStorage\<close> of
  \<^verbatim>\<open>csm-storage\<close>.  RocksDB is a parameter.  A \<^verbatim>\<open>std::string\<close> and a \<^verbatim>\<open>std::vector<char>\<close> are both
  lists of \<open>char\<close>.
\<close>

section \<open>The storage interface\<close>

text \<open>
  \<^verbatim>\<open>Storage\<close>: \<open>st_get table key value\<close> returns the result code and the value of the output argument
  afterwards; \<open>'d\<close> is the state of the database behind it.
\<close>

record 'd storage =
  st_get :: "string \<Rightarrow> string \<Rightarrow> string \<Rightarrow> 'd \<Rightarrow> int \<times> string \<times> 'd"
  st_set :: "string \<Rightarrow> string \<Rightarrow> string \<Rightarrow> 'd \<Rightarrow> int \<times> 'd"

text \<open>
  What the comments of \<^verbatim>\<open>Storage.h\<close> promise, over an abstract table: \<^verbatim>\<open>get\<close> reads a key of a table
  from the database and \<^verbatim>\<open>set\<close> writes one.
\<close>

type_synonym tables = "string \<Rightarrow> string \<Rightarrow> string option"

definition storage_contract :: "'d storage \<Rightarrow> ('d \<Rightarrow> tables) \<Rightarrow> bool" where
  "storage_contract st view \<longleftrightarrow>
     (\<forall>t k v d. fst (st_get st t k v d) = (if view d t k = None then -1 else 0) \<and>
        fst (snd (st_get st t k v d)) = (case view d t k of None \<Rightarrow> v | Some x \<Rightarrow> x) \<and>
        view (snd (snd (st_get st t k v d))) = view d) \<and>
     (\<forall>t k v d. fst (st_set st t k v d) = 0 \<and>
        view (snd (st_set st t k v d)) = (view d)(t := (view d t)(k \<mapsto> v)))"

lemma contract_get:
  assumes "storage_contract st view"
  obtains d' where "st_get st t k v d = (case view d t k of None \<Rightarrow> (-1, v, d') | Some x \<Rightarrow> (0, x, d'))"
    and "view d' = view d"
proof
  let ?g = "st_get st t k v d"
  have r: "fst ?g = (if view d t k = None then -1 else 0)"
    "fst (snd ?g) = (case view d t k of None \<Rightarrow> v | Some x \<Rightarrow> x)" "view (snd (snd ?g)) = view d"
    using assms unfolding storage_contract_def by blast+
  show "view (snd (snd ?g)) = view d" by (rule r(3))
  show "?g = (case view d t k of None \<Rightarrow> (-1, v, snd (snd ?g)) | Some x \<Rightarrow> (0, x, snd (snd ?g)))"
    by (cases "view d t k") (simp_all add: prod_eq_iff r)
qed

lemma contract_set:
  assumes "storage_contract st view"
  obtains d' where "st_set st t k v d = (0, d')" and "view d' = (view d)(t := (view d t)(k \<mapsto> v))"
proof
  let ?s = "st_set st t k v d"
  have r: "fst ?s = 0" "view (snd ?s) = (view d)(t := (view d t)(k \<mapsto> v))"
    using assms unfolding storage_contract_def by blast+
  show "view (snd ?s) = (view d)(t := (view d t)(k \<mapsto> v))" by (rule r(2))
  show "?s = (0, snd ?s)" by (simp add: prod_eq_iff r(1))
qed

section \<open>RocksDB\<close>

text \<open>
  The calls \<^verbatim>\<open>RocksDBStorage\<close> makes, as functions on the state \<open>'d\<close> of the database; \<open>'h\<close> is a column
  family handle.
\<close>

record ('d, 'h) rocksdb =
  rk_open :: "string \<Rightarrow> 'd \<Rightarrow> 'd option"
  rk_createColumnFamily :: "string \<Rightarrow> 'd \<Rightarrow> 'h option \<times> 'd"
  rk_get :: "'h \<Rightarrow> string \<Rightarrow> 'd \<Rightarrow> string option"
  rk_put :: "'h \<Rightarrow> string \<Rightarrow> string \<Rightarrow> 'd \<Rightarrow> bool \<times> 'd"

definition RocksDBStorage_init :: "('d, 'h) rocksdb \<Rightarrow> string \<Rightarrow> 'd \<Rightarrow> int \<times> 'd option" where
  "RocksDBStorage_init db path d =
     (case rk_open db path d of None \<Rightarrow> (-1, None) | Some d1 \<Rightarrow> (0, Some d1))"

definition RocksDBStorage_get ::
  "('d, 'h) rocksdb \<Rightarrow> string \<Rightarrow> string \<Rightarrow> string \<Rightarrow> 'd \<Rightarrow> int \<times> string \<times> 'd" where
  "RocksDBStorage_get db tableName key value d =
     (case rk_createColumnFamily db tableName d of
        (None, d1) \<Rightarrow> (-1, value, d1)
      | (Some h, d1) \<Rightarrow>
          (case rk_get db h key d1 of None \<Rightarrow> (-1, value, d1) | Some v \<Rightarrow> (0, v, d1)))"

definition RocksDBStorage_set ::
  "('d, 'h) rocksdb \<Rightarrow> string \<Rightarrow> string \<Rightarrow> string \<Rightarrow> 'd \<Rightarrow> int \<times> 'd" where
  "RocksDBStorage_set db tableName key value d =
     (case rk_createColumnFamily db tableName d of
        (None, d1) \<Rightarrow> (-1, d1)
      | (Some h, d1) \<Rightarrow>
          (case rk_put db h key value d1 of (ok, d2) \<Rightarrow> (if ok then 0 else -1, d2)))"

text \<open>\<^verbatim>\<open>StorageFactory::createStorage\<close>: the storage is handed out only when \<^verbatim>\<open>init\<close> returned 0.\<close>

definition rocks_storage :: "('d, 'h) rocksdb \<Rightarrow> 'd storage" where
  "rocks_storage db = \<lparr>st_get = RocksDBStorage_get db, st_set = RocksDBStorage_set db\<rparr>"

definition createStorage :: "('d, 'h) rocksdb \<Rightarrow> string \<Rightarrow> 'd \<Rightarrow> ('d storage \<times> 'd) option" where
  "createStorage db path d =
     (case RocksDBStorage_init db path d of
        (ret, od) \<Rightarrow> if ret \<noteq> 0 then None else map_option (\<lambda>d1. (rocks_storage db, d1)) od)"

text \<open>
  Documented behaviour of RocksDB: creating a column family that exists fails, a family created is
  there afterwards and stays, reading and writing a key create and drop none, and \<^verbatim>\<open>DB::Open\<close> with
  the default family alone refuses a database that has others.
\<close>

definition documented_rocks :: "('d, 'h) rocksdb \<Rightarrow> ('d \<Rightarrow> string set) \<Rightarrow> bool" where
  "documented_rocks db fams \<longleftrightarrow>
     (\<forall>t d. t \<in> fams d \<longrightarrow> fst (rk_createColumnFamily db t d) = None) \<and>
     (\<forall>t d. fams d \<subseteq> fams (snd (rk_createColumnFamily db t d))) \<and>
     (\<forall>t d. fst (rk_createColumnFamily db t d) \<noteq> None \<longrightarrow> t \<in> fams (snd (rk_createColumnFamily db t d))) \<and>
     (\<forall>h k v d. fams (snd (rk_put db h k v d)) = fams d) \<and>
     (\<forall>p d. fams d \<noteq> {} \<longrightarrow> rk_open db p d = None)"

lemma documented_rocksD:
  assumes "documented_rocks db fams"
  shows "t \<in> fams d \<Longrightarrow> fst (rk_createColumnFamily db t d) = None"
    and "fams d \<subseteq> fams (snd (rk_createColumnFamily db t d))"
    and "fst (rk_createColumnFamily db t d) = Some h \<Longrightarrow> t \<in> fams (snd (rk_createColumnFamily db t d))"
    and "fams (snd (rk_put db h k v d)) = fams d"
    and "fams d \<noteq> {} \<Longrightarrow> rk_open db p d = None"
  using assms unfolding documented_rocks_def by (blast, blast, force, blast, blast)

text \<open>A client's accesses one after the other, with the result codes.\<close>

datatype access = Get string string | Set string string string

fun access_table :: "access \<Rightarrow> string" where
  "access_table (Get t k) = t"
| "access_table (Set t k v) = t"

fun storage_access :: "'d storage \<Rightarrow> access \<Rightarrow> 'd \<Rightarrow> int \<times> 'd" where
  "storage_access st (Get t k) d = (case st_get st t k [] d of (ret, _, d1) \<Rightarrow> (ret, d1))"
| "storage_access st (Set t k v) d = st_set st t k v d"

fun storage_run :: "'d storage \<Rightarrow> access list \<Rightarrow> 'd \<Rightarrow> int list \<times> 'd" where
  "storage_run st [] d = ([], d)"
| "storage_run st (a # as) d =
     (case storage_access st a d of (ret, d1) \<Rightarrow>
        (case storage_run st as d1 of (rets, d2) \<Rightarrow> (ret # rets, d2)))"

lemmas rocks_defs = rocks_storage_def RocksDBStorage_get_def RocksDBStorage_set_def

text \<open>Every access creates its family first; what follows leaves the families alone.\<close>

lemma rocks_access_shape:
  assumes "documented_rocks db fams" and "rk_createColumnFamily db (access_table a) d = (h, d1)"
    and "storage_access (rocks_storage db) a d = (ret, d2)"
  shows "fams d2 = fams d1 \<and> (h = None \<longrightarrow> ret = -1)"
proof (cases a)
  case (Get t k)
  then show ?thesis
    using assms(2,3) by (simp add: rocks_defs split: option.splits)
next
  case (Set t k v)
  then show ?thesis
    using assms(2,3) documented_rocksD(4) [OF assms(1), of "the h" k v d1]
    by (cases h) (simp_all add: rocks_defs split: prod.splits)
qed

lemma rocks_access_grows:
  assumes "documented_rocks db fams" and "storage_access (rocks_storage db) a d = (ret, d2)"
  shows "fams d \<subseteq> fams d2" and "ret = 0 \<Longrightarrow> access_table a \<in> fams d2"
    and "access_table a \<in> fams d \<Longrightarrow> ret = -1"
proof -
  obtain h d1 where c: "rk_createColumnFamily db (access_table a) d = (h, d1)" by force
  note sh = rocks_access_shape [OF assms(1) c assms(2)]
  show "fams d \<subseteq> fams d2"
    using documented_rocksD(2) [OF assms(1), of d "access_table a"] c sh by simp
  show "access_table a \<in> fams d2" if "ret = 0"
    using documented_rocksD(3) [OF assms(1), of "access_table a" d] c sh that by (cases h) simp_all
  show "ret = -1" if "access_table a \<in> fams d"
    using documented_rocksD(1) [OF assms(1) that] c sh by simp
qed

lemma rocks_run_fails:
  assumes "documented_rocks db fams" and "t \<in> fams d"
  shows "list_all2 (\<lambda>a ret. access_table a = t \<longrightarrow> ret = -1) as (fst (storage_run (rocks_storage db) as d)) \<and>
    t \<in> fams (snd (storage_run (rocks_storage db) as d))"
  using assms(2)
proof (induction "as" arbitrary: d)
  case (Cons a "as")
  obtain ret d1 where a: "storage_access (rocks_storage db) a d = (ret, d1)" by force
  note g = rocks_access_grows [OF assms(1) a]
  have "t \<in> fams d1" using g(1) Cons.prems by blast
  moreover have "access_table a = t \<longrightarrow> ret = -1" using g(3) Cons.prems by blast
  ultimately show ?case using Cons.IH [of d1] a by (simp add: split_beta)
qed simp

text \<open>
  C38: A table of a RocksDB storage can be used once.  After an access to table \<open>t\<close> that succeeded, and
  whatever other accesses follow, every later access to \<open>t\<close> returns -1, and after a restart
  \<^verbatim>\<open>StorageFactory::createStorage\<close> hands out no storage for the database: \<^verbatim>\<open>get\<close> and \<^verbatim>\<open>set\<close> create the
  column family on every call, and \<^verbatim>\<open>init\<close> opens the default family alone.
\<close>

theorem rocks_table_used_once:
  assumes "documented_rocks db fams"
    and "storage_access (rocks_storage db) a d = (0, d1)"
    and "storage_run (rocks_storage db) as d1 = (rets, d2)"
  shows "list_all2 (\<lambda>b ret. access_table b = access_table a \<longrightarrow> ret = -1) as rets \<and>
    createStorage db path d2 = None"
proof -
  have "access_table a \<in> fams d1" using rocks_access_grows(2) [OF assms(1,2)] by simp
  from rocks_run_fails [OF assms(1) this, of "as"]
  have r: "list_all2 (\<lambda>b ret. access_table b = access_table a \<longrightarrow> ret = -1) as rets" and "fams d2 \<noteq> {}"
    using assms(3) by auto
  then have "rk_open db path d2 = None" using documented_rocksD(5) [OF assms(1)] by blast
  then show ?thesis using r by (simp add: createStorage_def RocksDBStorage_init_def)
qed

text \<open>A database that behaves as documented: the families with their keys, a handle naming its family.\<close>

type_synonym ex_db = "(string \<times> (string \<times> string) list) list"

definition ex_rocks :: "(ex_db, string) rocksdb" where
  "ex_rocks = \<lparr>rk_open = (\<lambda>p d. if d = [] then Some d else None),
     rk_createColumnFamily = (\<lambda>t d. if t \<in> set (map fst d) then (None, d) else (Some t, d @ [(t, [])])),
     rk_get = (\<lambda>h k d. case map_of d h of None \<Rightarrow> None | Some m \<Rightarrow> map_of m k),
     rk_put = (\<lambda>h k v d. (True, map (\<lambda>(t, m). (t, if t = h then AList.update k v m else m)) d))\<rparr>"

lemma ex_rocks_documented: "documented_rocks ex_rocks (\<lambda>d. set (map fst d))"
  by (simp add: documented_rocks_def ex_rocks_def split_beta comp_def subset_insertI image_image)

lemma rocks_table_used_once_witness:
  "list_all2 (\<lambda>b ret. access_table b = ''t'' \<longrightarrow> ret = -1) [Get ''t'' ''k'', Set ''u'' ''k'' ''v'']
     (fst (storage_run (rocks_storage ex_rocks) [Get ''t'' ''k'', Set ''u'' ''k'' ''v''] [(''t'', [(''k'', ''v'')])])) \<and>
   createStorage ex_rocks ''db''
     (snd (storage_run (rocks_storage ex_rocks) [Get ''t'' ''k'', Set ''u'' ''k'' ''v''] [(''t'', [(''k'', ''v'')])])) = None"
proof -
  have "storage_access (rocks_storage ex_rocks) (Set ''t'' ''k'' ''v'') [] = (0, [(''t'', [(''k'', ''v'')])])"
    by code_simp
  from rocks_table_used_once [OF ex_rocks_documented this prod.collapse [symmetric],
      of "[Get ''t'' ''k'', Set ''u'' ''k'' ''v'']" "''db''"]
  show ?thesis by simp
qed

text \<open>So \<^verbatim>\<open>RocksDBStorage\<close> does not keep the promise of its interface, whatever view one takes of it.\<close>

lemma rocks_breaks_contract:
  assumes "documented_rocks db fams"
  shows "\<not> storage_contract (rocks_storage db) view"
proof
  fix d assume c: "storage_contract (rocks_storage db) view"
  obtain d1 where s: "st_set (rocks_storage db) [] [] [] d = (0, d1)" by (rule contract_set [OF c])
  obtain d2 where "st_set (rocks_storage db) [] [] [] d1 = (0, d2)" by (rule contract_set [OF c])
  moreover have "[] \<in> fams d1"
    using rocks_access_grows(2) [OF assms, of "Set [] [] []" d 0 d1] s by simp
  ultimately show False
    using rocks_access_grows(3) [OF assms, of "Set [] [] []" d1 0 d2] by simp
qed

end
