(* ===== verification/StmcLog.thy ===== *)
theory StmcLog
  imports Hosts Codec Storage
begin

text \<open>
  The state machine log of \<^verbatim>\<open>csm-stmclog\<close> and the serializer of the cluster configuration of
  \<^verbatim>\<open>csm-tool\<close>.  Protobuf and the JSON library are parameters.
\<close>

section \<open>The serializer of the cluster configuration\<close>

text \<open>The values of the JSON library the source builds and inspects.\<close>

datatype json =
    J_null
  | J_string string
  | J_array "json list"
  | J_object "(string \<times> json) list"
  | J_other string

fun j_isMember :: "json \<Rightarrow> string \<Rightarrow> bool" where
  "j_isMember (J_object ms) key \<longleftrightarrow> map_of ms key \<noteq> None"
| "j_isMember _ key \<longleftrightarrow> False"

text \<open>\<^verbatim>\<open>JsonExtractHelper<Json::Value>::extract\<close>: only a member that is an object is taken out.\<close>

definition json_extract :: "json \<Rightarrow> string \<Rightarrow> json \<Rightarrow> int \<times> json" where
  "json_extract root key output =
     (if \<not> j_isMember root key then (-1, output)
      else (case root of
        J_object ms \<Rightarrow>
          (case map_of ms key of Some (J_object vs) \<Rightarrow> (0, J_object vs) | _ \<Rightarrow> (-1, output))
      | _ \<Rightarrow> (-1, output)))"

text \<open>
  The text side of the library, \<^verbatim>\<open>FastWriter::write\<close> and \<^verbatim>\<open>Reader::parse\<close>.  Appending to
  \<^verbatim>\<open>root["clusterServerIds"]\<close> turns the null root into an object with one array.
\<close>

record json_lib =
  js_write :: "json \<Rightarrow> string"
  js_parse :: "string \<Rightarrow> json option"

definition cluster_json :: "node_id list \<Rightarrow> json" where
  "cluster_json ids =
     (if ids = [] then J_null else J_object [(''clusterServerIds'', J_array (map J_string ids))])"

definition cluster_serialize :: "json_lib \<Rightarrow> node_id list \<Rightarrow> string" where
  "cluster_serialize js ids = js_write js (cluster_json ids)"

text \<open>\<^verbatim>\<open>Value::begin\<close> to \<^verbatim>\<open>end\<close> runs over the elements of an array or the members of an object;
  \<open>as_string\<close> is \<^verbatim>\<open>asString\<close>.\<close>

fun j_elements :: "json \<Rightarrow> json list" where
  "j_elements (J_array vs) = vs"
| "j_elements (J_object ms) = map snd ms"
| "j_elements _ = []"

definition cluster_deserialize :: "json_lib \<Rightarrow> (json \<Rightarrow> string) \<Rightarrow> string \<Rightarrow> node_id list" where
  "cluster_deserialize js as_string s =
     (case js_parse js s of
        None \<Rightarrow> []
      | Some root \<Rightarrow>
          (case json_extract root ''clusterServerIds'' J_null of
             (ret, obj) \<Rightarrow> if ret = -1 then [] else map as_string (j_elements obj)))"

text \<open>
  The serializer does not round-trip: whatever server ids are written, reading the text back gives
  no ids, because \<^verbatim>\<open>extract\<close> takes objects only and the ids are an array.
\<close>

theorem cluster_ids_lost:
  assumes "\<And>v. js_parse js (js_write js v) = Some v"
  shows "cluster_deserialize js as_string (cluster_serialize js ids) = []"
  by (simp add: cluster_deserialize_def cluster_serialize_def cluster_json_def assms json_extract_def)

section \<open>Log entries\<close>

text \<open>
  \<^verbatim>\<open>EntryType\<close> is read from an open protobuf enumeration and from a \<^verbatim>\<open>char\<close>, so a value outside the
  named ones is possible.
\<close>

datatype entry_type = ET_Unknown | ET_Configuration | ET_Data | ET_NoOperation | ET_other int

definition entry_type_of :: "int \<Rightarrow> entry_type" where
  "entry_type_of n =
     (if n = 0 then ET_Unknown else if n = 1 then ET_Configuration
      else if n = 2 then ET_Data else if n = 3 then ET_NoOperation else ET_other n)"

fun entry_type_code :: "entry_type \<Rightarrow> int" where
  "entry_type_code ET_Unknown = 0"
| "entry_type_code ET_Configuration = 1"
| "entry_type_code ET_Data = 2"
| "entry_type_code ET_NoOperation = 3"
| "entry_type_code (ET_other n) = n"

record raw_entry =
  re_index :: u64
  re_term :: u64
  re_type :: int
  re_data :: "u8 list"

definition Entry_new :: raw_entry where
  "Entry_new = \<lparr>re_index = 0, re_term = 0, re_type = 0, re_data = []\<rparr>"

definition bytes_of :: "string \<Rightarrow> u8 list" where
  "bytes_of s = map of_char s"

text \<open>
  A \<^verbatim>\<open>std::vector<char>\<close> where the room it owns matters: the memory, and the number of its elements.
  \<^verbatim>\<open>reserve\<close> gives room, not elements.
\<close>

record char_vector =
  cv_memory :: string
  cv_size :: nat

definition vector_reserve :: "nat \<Rightarrow> char_vector \<Rightarrow> char_vector" where
  "vector_reserve n v = v\<lparr>cv_memory := cv_memory v @ replicate (n - length (cv_memory v)) (char_of (0::nat))\<rparr>"

definition vector_elements :: "char_vector \<Rightarrow> string" where
  "vector_elements v = take (cv_size v) (cv_memory v)"

text \<open>
  \<^verbatim>\<open>Entry::encode\<close> lets protobuf write to the room reserved, so the vector it returns has no elements.
  \<^verbatim>\<open>Entry::decode\<close> ignores the result of the parser.
\<close>

definition entry_encode :: "raw_entry pb_codec \<Rightarrow> raw_entry \<Rightarrow> string" where
  "entry_encode pe e =
     (let bytes = map (\<lambda>b. char_of (unat b)) (pb_bytes pe e);
          data = vector_reserve (length bytes) \<lparr>cv_memory = [], cv_size = 0\<rparr>;
          data = data\<lparr>cv_memory := bytes @ drop (length bytes) (cv_memory data)\<rparr>
      in vector_elements data)"

definition entry_decode :: "raw_entry pb_codec \<Rightarrow> string \<Rightarrow> raw_entry" where
  "entry_decode pe data = snd (pb_parse pe (bytes_of data))"

definition entry_entryType :: "raw_entry \<Rightarrow> entry_type" where
  "entry_entryType e = entry_type_of (re_type e)"

section \<open>The log\<close>

text \<open>
  What the log uses of its surroundings: the storage, the libraries, the server ids of the node
  configuration, and the value of an uninitialised \<^verbatim>\<open>uint64_t\<close>.
\<close>

record 'd log_env =
  le_storage :: "'d storage"
  le_entry :: "raw_entry pb_codec"
  le_json :: json_lib
  le_serverIds :: "node_id list"
  le_junk :: u64

record 'd stmc_log =
  m_endIndex :: u64
  m_db :: 'd

definition c_stmclogTableName :: string where "c_stmclogTableName = ''__stmc_log__''"
definition c_stmcLogBeginIndexKey :: string where "c_stmcLogBeginIndexKey = ''begin_index''"
definition c_stmcLogEndIndexKey :: string where "c_stmcLogEndIndexKey = ''end_index''"

definition log_get :: "('d, 'e) log_env_scheme \<Rightarrow> string \<Rightarrow> ('d, 'a) stmc_log_scheme \<Rightarrow>
    (int \<times> string) \<times> ('d, 'a) stmc_log_scheme" where
  "log_get env key lg =
     (case st_get (le_storage env) c_stmclogTableName key [] (m_db lg) of
        (ret, value, d) \<Rightarrow> ((ret, value), lg\<lparr>m_db := d\<rparr>))"

definition log_set :: "('d, 'e) log_env_scheme \<Rightarrow> string \<Rightarrow> string \<Rightarrow> ('d, 'a) stmc_log_scheme \<Rightarrow>
    int \<times> ('d, 'a) stmc_log_scheme" where
  "log_set env key value lg =
     (case st_set (le_storage env) c_stmclogTableName key value (m_db lg) of
        (ret, d) \<Rightarrow> (ret, lg\<lparr>m_db := d\<rparr>))"

definition log_beginIndex :: "('d, 'e) log_env_scheme \<Rightarrow> ('d, 'a) stmc_log_scheme \<Rightarrow>
    u64 \<times> ('d, 'a) stmc_log_scheme" where
  "log_beginIndex env lg =
     (case log_get env c_stmcLogBeginIndexKey lg of
        ((ret, value), lg1) \<Rightarrow>
          if ret = -1 then (0, lg1) else (string_to_unsigned (le_junk env) value, lg1))"

definition log_endIndex :: "('d, 'e) log_env_scheme \<Rightarrow> ('d, 'a) stmc_log_scheme \<Rightarrow>
    u64 \<times> ('d, 'a) stmc_log_scheme" where
  "log_endIndex env lg =
     (if m_endIndex lg \<noteq> 0 then (m_endIndex lg, lg)
      else
        (case log_get env c_stmcLogEndIndexKey lg of
           ((ret, value), lg1) \<Rightarrow>
             if ret = -1 then (0, lg1)
             else (let n = string_to_unsigned (le_junk env) value in (n, lg1\<lparr>m_endIndex := n\<rparr>))))"

definition log_increaseEndIndex :: "('d, 'e) log_env_scheme \<Rightarrow> ('d, 'a) stmc_log_scheme \<Rightarrow>
    int \<times> ('d, 'a) stmc_log_scheme" where
  "log_increaseEndIndex env lg =
     (case log_set env c_stmcLogEndIndexKey (nat_to_string (unat (m_endIndex lg + 1))) lg of
        (ret, lg1) \<Rightarrow> if ret = -1 then (-1, lg1) else (0, lg1\<lparr>m_endIndex := m_endIndex lg1 + 1\<rparr>))"

definition StateMachineLog_init :: "('d, 'e) log_env_scheme \<Rightarrow> ('d, 'a) stmc_log_scheme \<Rightarrow>
    int \<times> ('d, 'a) stmc_log_scheme" where
  "StateMachineLog_init env lg =
     (case log_endIndex env lg of
        (n, lg1) \<Rightarrow>
          let lg2 = lg1\<lparr>m_endIndex := n\<rparr>
          in if n \<noteq> 0 then
               (case log_get env ''1'' lg2 of
                  ((_, value), lg3) \<Rightarrow>
                    if entry_entryType (entry_decode (le_entry env) value) \<noteq> ET_Configuration
                    then (-1, lg3) else (0, lg3))
             else (0, lg2))"

definition log_buildInitialConfigurationLog :: "('d, 'e) log_env_scheme \<Rightarrow> ('d, 'a) stmc_log_scheme \<Rightarrow>
    int \<times> ('d, 'a) stmc_log_scheme" where
  "log_buildInitialConfigurationLog env lg =
     (let jsonString = cluster_serialize (le_json env) (le_serverIds env);
          entry = Entry_new\<lparr>re_index := 0, re_type := entry_type_code ET_Configuration, re_term := 0,
                            re_data := bytes_of jsonString\<rparr>;
          data = char_of (nat (entry_type_code ET_Configuration)) # entry_encode (le_entry env) entry
      in (case log_set env ''1'' data lg of
            (ret, lg1) \<Rightarrow> if ret = -1 then (-1, lg1) else log_increaseEndIndex env lg1))"

text \<open>\<open>data[0]\<close> of an empty string is the terminating zero; the \<^verbatim>\<open>char\<close> is signed.\<close>

definition log_getLogType :: "('d, 'e) log_env_scheme \<Rightarrow> u64 \<Rightarrow> ('d, 'a) stmc_log_scheme \<Rightarrow>
    entry_type \<times> ('d, 'a) stmc_log_scheme" where
  "log_getLogType env index lg =
     (case log_get env (nat_to_string (unat index)) lg of
        ((ret, data), lg1) \<Rightarrow>
          if ret = -1 then (ET_Unknown, lg1)
          else (entry_type_of (case data of [] \<Rightarrow> 0 | c # _ \<Rightarrow> sint (of_char c :: u8)), lg1))"

text \<open>\<open>data.begin() + 1\<close> of an empty string lies behind its end.\<close>

definition log_getLogEntry :: "('d, 'e) log_env_scheme \<Rightarrow> u64 \<Rightarrow> ('d, 'a) stmc_log_scheme \<Rightarrow>
    (raw_entry option \<times> ('d, 'a) stmc_log_scheme) run" where
  "log_getLogEntry env index lg =
     (case log_get env (nat_to_string (unat index)) lg of
        ((ret, data), lg1) \<Rightarrow>
          if ret = -1 then Inr (None, lg1)
          else (case data of
             [] \<Rightarrow> Inl OutOfBounds
           | _ # payload \<Rightarrow> Inr (Some (entry_decode (le_entry env) payload), lg1)))"

section \<open>The log over a storage that keeps its contract\<close>

text \<open>The table of the log, seen through the view of the storage.\<close>

abbreviation log_view :: "('d \<Rightarrow> tables) \<Rightarrow> 'd \<Rightarrow> string \<Rightarrow> string option" where
  "log_view view d \<equiv> view d c_stmclogTableName"

lemmas log_keys = c_stmcLogBeginIndexKey_def c_stmcLogEndIndexKey_def

lemma entry_encode_empty [simp]: "entry_encode pe e = []"
  by (simp add: entry_encode_def vector_elements_def vector_reserve_def Let_def)

lemma log_get_contract:
  assumes "storage_contract (le_storage env) view"
  obtains d where "log_get env key lg =
      ((case log_view view (m_db lg) key of None \<Rightarrow> (-1, []) | Some x \<Rightarrow> (0, x)), lg\<lparr>m_db := d\<rparr>)"
    and "view d = view (m_db lg)"
  by (rule contract_get [OF assms, of c_stmclogTableName key "[]" "m_db lg"])
    (auto simp: log_get_def split: option.splits)

lemma log_set_contract:
  assumes "storage_contract (le_storage env) view"
  obtains d where "log_set env key value lg = (0, lg\<lparr>m_db := d\<rparr>)"
    and "view d = (view (m_db lg))(c_stmclogTableName := (log_view view (m_db lg))(key \<mapsto> value))"
  by (rule contract_set [OF assms, of c_stmclogTableName key "value" "m_db lg"]) (auto simp: log_set_def)

lemma log_endIndex_contract:
  assumes "storage_contract (le_storage env) view"
  obtains d n where "log_endIndex env lg = (n, lg\<lparr>m_endIndex := n, m_db := d\<rparr>)"
    and "view d = view (m_db lg)"
    and "n = (if m_endIndex lg \<noteq> 0 then m_endIndex lg
       else (case log_view view (m_db lg) c_stmcLogEndIndexKey of
          None \<Rightarrow> 0 | Some s \<Rightarrow> string_to_unsigned (le_junk env) s))"
proof (cases "m_endIndex lg = 0")
  case True
  obtain d where g: "log_get env c_stmcLogEndIndexKey lg =
      ((case log_view view (m_db lg) c_stmcLogEndIndexKey of None \<Rightarrow> (-1, []) | Some x \<Rightarrow> (0, x)), lg\<lparr>m_db := d\<rparr>)"
    and v: "view d = view (m_db lg)" by (rule log_get_contract [OF assms])
  show ?thesis
    by (rule that [OF _ v refl]) (use True g in \<open>auto simp: log_endIndex_def Let_def split: option.splits\<close>)
next
  case False
  then show ?thesis by (intro that [OF _ refl refl]) (simp add: log_endIndex_def)
qed

lemma log_build_contract:
  assumes "storage_contract (le_storage env) view"
  obtains d where "log_buildInitialConfigurationLog env lg =
      (0, lg\<lparr>m_endIndex := m_endIndex lg + 1, m_db := d\<rparr>)"
    and "view d = (view (m_db lg))(c_stmclogTableName := (log_view view (m_db lg))
      (''1'' \<mapsto> [char_of (1::nat)], c_stmcLogEndIndexKey \<mapsto> nat_to_string (unat (m_endIndex lg + 1))))"
proof -
  obtain d1 where 1: "log_set env ''1'' [char_of (1::nat)] lg = (0, lg\<lparr>m_db := d1\<rparr>)"
    and v1: "view d1 = (view (m_db lg))(c_stmclogTableName := (log_view view (m_db lg))(''1'' \<mapsto> [char_of (1::nat)]))"
    by (rule log_set_contract [OF assms])
  obtain d2 where 2: "log_set env c_stmcLogEndIndexKey (nat_to_string (unat (m_endIndex lg + 1))) (lg\<lparr>m_db := d1\<rparr>) =
      (0, lg\<lparr>m_db := d1\<rparr>\<lparr>m_db := d2\<rparr>)"
    and v2: "view d2 = (view d1)(c_stmclogTableName := (log_view view d1)
      (c_stmcLogEndIndexKey \<mapsto> nat_to_string (unat (m_endIndex lg + 1))))"
    by (rule log_set_contract [OF assms, where lg = "lg\<lparr>m_db := d1\<rparr>"]) simp
  show ?thesis
    by (rule that [of d2])
      (use 1 2 v1 v2 in \<open>simp_all add: log_buildInitialConfigurationLog_def log_increaseEndIndex_def Let_def\<close>)
qed

text \<open>The number written under the index key is the number read back.\<close>

lemma index_text_roundtrip [simp]: "string_to_unsigned junk (nat_to_string (unat n)) = (n :: u64)"
proof -
  have "unat n < 2 ^ LENGTH(64)" by (rule unsigned_less)
  then show ?thesis by (simp add: string_to_unsigned_to_string)
qed

lemma log_keys_distinct [simp]:
  "c_stmcLogEndIndexKey \<noteq> ''1''" "''1'' \<noteq> c_stmcLogEndIndexKey"
  by (simp_all add: log_keys)

text \<open>
  A log the source has built is refused when the program starts again.  With a storage that keeps
  its contract, once \<^verbatim>\<open>buildInitialConfigurationLog\<close> has returned 0, \<^verbatim>\<open>StateMachineLog::init\<close> of the next run
  returns -1: it parses the stored bytes with the type byte still in front, which no parser takes for a
  configuration entry.
\<close>

theorem log_restart_rejected:
  assumes "storage_contract (le_storage env) view"
    and "re_type (snd (pb_parse (le_entry env) [1])) \<noteq> 1"
    and "log_buildInitialConfigurationLog env lg = (0, lg1)" and "m_endIndex lg + 1 \<noteq> 0"
  shows "fst (StateMachineLog_init env (lg1\<lparr>m_endIndex := 0\<rparr>)) = -1"
proof -
  obtain d where b: "lg1 = lg\<lparr>m_endIndex := m_endIndex lg + 1, m_db := d\<rparr>"
    and v: "view d = (view (m_db lg))(c_stmclogTableName := (log_view view (m_db lg))
      (''1'' \<mapsto> [char_of (1::nat)], c_stmcLogEndIndexKey \<mapsto> nat_to_string (unat (m_endIndex lg + 1))))"
    by (rule log_build_contract [OF assms(1), of lg]) (use assms(3) in auto)
  let ?lg = "lg1\<lparr>m_endIndex := 0\<rparr>"
  obtain d1 n where e: "log_endIndex env ?lg = (n, ?lg\<lparr>m_endIndex := n, m_db := d1\<rparr>)" "view d1 = view d"
    and n: "n = m_endIndex lg + 1"
    by (rule log_endIndex_contract [OF assms(1), of ?lg]) (use b v in auto)
  have g: "fst (log_get env ''1'' (?lg\<lparr>m_db := d1, m_endIndex := n\<rparr>)) = (0, [char_of (1::nat)])"
    by (rule log_get_contract [OF assms(1), of "''1''" "?lg\<lparr>m_db := d1, m_endIndex := n\<rparr>"])
      (use e(2) v in simp)
  have "bytes_of [char_of (1::nat)] = [1]" by code_simp
  then have "entry_entryType (entry_decode (le_entry env) [char_of (1::nat)]) \<noteq> ET_Configuration"
    using assms(2) by (simp add: entry_entryType_def entry_decode_def entry_type_of_def)
  then show ?thesis
    using e(1) g assms(4) n by (simp add: StateMachineLog_init_def Let_def split_beta)
qed

text \<open>A storage that keeps its contract: an association list of keys of tables.\<close>

type_synonym mem_db = "((string \<times> string) \<times> string) list"

definition mem_view :: "mem_db \<Rightarrow> tables" where
  "mem_view d t k = map_of d (t, k)"

definition mem_storage :: "mem_db storage" where
  "mem_storage = \<lparr>st_get = (\<lambda>t k v d. case map_of d (t, k) of None \<Rightarrow> (-1, v, d) | Some x \<Rightarrow> (0, x, d)),
     st_set = (\<lambda>t k v d. (0, ((t, k), v) # d))\<rparr>"

lemma mem_storage_contract: "storage_contract mem_storage mem_view"
  by (auto simp: storage_contract_def mem_storage_def mem_view_def fun_eq_iff split: option.splits)

text \<open>An entry codec: the empty message has no bytes, and bytes that no entry has give the empty message.\<close>

definition ex_entry_codec :: "raw_entry pb_codec" where
  "ex_entry_codec = \<lparr>pb_bytes = (\<lambda>e. if e = Entry_new then [] else word_of_int (re_type e) # 8 # re_data e),
     pb_parse = (\<lambda>bs. case bs of t # x # data \<Rightarrow> (True, Entry_new\<lparr>re_type := uint t, re_data := data\<rparr>)
       | _ \<Rightarrow> (bs = [], Entry_new))\<rparr>"

definition ex_log_env :: "mem_db log_env" where
  "ex_log_env = \<lparr>le_storage = mem_storage, le_entry = ex_entry_codec,
     le_json = \<lparr>js_write = (\<lambda>v. ''x''), js_parse = (\<lambda>s. None)\<rparr>, le_serverIds = [''a'', ''b''], le_junk = 7\<rparr>"

definition ex_log :: "mem_db stmc_log" where
  "ex_log = \<lparr>m_endIndex = 0, m_db = []\<rparr>"

lemma log_restart_rejected_witness:
  "fst (StateMachineLog_init ex_log_env
     ((snd (log_buildInitialConfigurationLog ex_log_env ex_log))\<lparr>m_endIndex := 0\<rparr>)) = -1"
proof (rule log_restart_rejected)
  show "storage_contract (le_storage ex_log_env) mem_view"
    by (simp add: ex_log_env_def mem_storage_contract)
  show "re_type (snd (pb_parse (le_entry ex_log_env) [1])) \<noteq> 1" by code_simp
  show "m_endIndex ex_log + 1 \<noteq> 0" by code_simp
  have "fst (log_buildInitialConfigurationLog ex_log_env ex_log) = 0" by code_simp
  then show "log_buildInitialConfigurationLog ex_log_env ex_log =
      (0, snd (log_buildInitialConfigurationLog ex_log_env ex_log))" by (simp add: prod_eq_iff)
qed

end
