(* ===== verification/Raft.thy ===== *)
theory Raft
  imports Complex_Main P2P StmcLog
begin

text \<open>
  The consensus module of \<^verbatim>\<open>csm-consensus/csm-raft\<close>: the persistent state and its storage, the cluster
  configurations, the messages and their encoding, and the \<^verbatim>\<open>Raft\<close> class on top of the peer-to-peer
  service of \<open>P2P\<close> and the log of \<open>StmcLog\<close>.
\<close>

section \<open>State\<close>

text \<open>
  A cluster configuration holds the node ids and the vote flag of each cluster node.  The
  configuration manager is a \<^verbatim>\<open>std::map\<close> from log index to configuration.  The time of the election
  timeout is a \<^verbatim>\<open>double\<close> in the source and a \<open>real\<close> here.
\<close>

record cluster_configuration =
  cc_nodeIds :: "node_id list"
  cc_nodes :: "(node_id, bool) umap"

datatype node_identity = Follower | Candidate | Leader

record 'd raft = "'d stmc_log" +
  rf_nodeId :: node_id
  rf_currentTerm :: u64
  rf_voteFor :: node_id
  rf_logs :: "raw_entry list"
  rf_configurations :: "(u64, cluster_configuration) umap"
  rf_identity :: node_identity
  rf_electionTimeoutPoint :: real

record request_vote =
  rv_term :: u64
  rv_candidateId :: node_id
  rv_lastLogIndex :: u64
  rv_lastLogTerm :: u64

record request_vote_reply =
  rr_term :: u64
  rr_voteGranted :: bool

definition RequestVote_new :: request_vote where
  "RequestVote_new = \<lparr>rv_term = 0, rv_candidateId = [], rv_lastLogIndex = 0, rv_lastLogTerm = 0\<rparr>"

datatype raft_message = M_RequestVote request_vote | M_RequestVoteReply request_vote_reply

text \<open>\<^verbatim>\<open>RaftMessagePack\<close>; the message type is an open protobuf enumeration.\<close>

record raft_pack =
  rp_messageType :: int
  rp_payload :: "u8 list"

definition c_RequestVote :: int where "c_RequestVote = 0"
definition c_RequestVoteReply :: int where "c_RequestVoteReply = 1"

record 'd raft_env = "'d log_env" +
  pb_requestVote :: "request_vote pb_codec"
  pb_requestVoteReply :: "request_vote_reply pb_codec"
  pb_raftPack :: "raft_pack pb_codec"
  js_asString :: "json \<Rightarrow> string"

definition Raft_new :: "node_id \<Rightarrow> 'd \<Rightarrow> 'd raft" where
  "Raft_new nodeId db =
     \<lparr>m_endIndex = 0, m_db = db, rf_nodeId = nodeId, rf_currentTerm = 0, rf_voteFor = [], rf_logs = [],
      rf_configurations = [], rf_identity = Follower, rf_electionTimeoutPoint = 0\<rparr>"

section \<open>The persistent state\<close>

definition c_currentTermKey :: string where "c_currentTermKey = ''current_term''"

text \<open>\<^verbatim>\<open>RaftMetadataStorage\<close>: the same table as the log.\<close>

definition getCurrentTerm :: "('d, 'e) log_env_scheme \<Rightarrow> ('d, 'a) stmc_log_scheme \<Rightarrow>
    u64 option \<times> ('d, 'a) stmc_log_scheme" where
  "getCurrentTerm env lg =
     (case log_get env c_currentTermKey lg of
        ((ret, value), lg1) \<Rightarrow>
          (if ret = -1 then None else Some (string_to_unsigned (le_junk env) value), lg1))"

definition storage_setCurrentTerm :: "('d, 'e) log_env_scheme \<Rightarrow> u64 \<Rightarrow> ('d, 'a) stmc_log_scheme \<Rightarrow>
    int \<times> ('d, 'a) stmc_log_scheme" where
  "storage_setCurrentTerm env n lg =
     (case log_set env c_currentTermKey (nat_to_string (unat n)) lg of
        (ret, lg1) \<Rightarrow> (if ret = -1 then -1 else 0, lg1))"

definition PersistentState_init :: "('d, 'e) log_env_scheme \<Rightarrow> 'd raft \<Rightarrow> int \<times> 'd raft" where
  "PersistentState_init env rf =
     (case getCurrentTerm env rf of
        (None, rf1) \<Rightarrow> (-1, rf1)
      | (Some n, rf1) \<Rightarrow> (0, rf1\<lparr>rf_currentTerm := n\<rparr>))"

text \<open>
  \<^verbatim>\<open>int currentTerm(std::uint64_t& term) const\<close> returns the term converted to \<^verbatim>\<open>int\<close> and does not assign
  its argument: the result and the argument afterwards.
\<close>

definition ps_currentTerm :: "u64 \<Rightarrow> 'd raft \<Rightarrow> int \<times> u64" where
  "ps_currentTerm n rf = (sint (int_of_size (rf_currentTerm rf)), n)"

definition setCurrentTerm :: "('d, 'e) log_env_scheme \<Rightarrow> u64 \<Rightarrow> 'd raft \<Rightarrow> int \<times> 'd raft" where
  "setCurrentTerm env n rf =
     (case storage_setCurrentTerm env n rf of
        (ret, rf1) \<Rightarrow> if ret \<noteq> 0 then (-1, rf1) else (0, rf1\<lparr>rf_currentTerm := n\<rparr>))"

definition increaseTerm :: "('d, 'e) log_env_scheme \<Rightarrow> 'd raft \<Rightarrow> int \<times> 'd raft" where
  "increaseTerm env rf =
     (case setCurrentTerm env (rf_currentTerm rf + 1) rf of
        (ret, rf1) \<Rightarrow>
          if ret = -1 then (-1, rf1) else (0, rf1\<lparr>rf_currentTerm := rf_currentTerm rf1 + 1\<rparr>))"

definition setVoteFor :: "node_id \<Rightarrow> 'd raft \<Rightarrow> 'd raft" where
  "setVoteFor n rf = rf\<lparr>rf_voteFor := n\<rparr>"

definition addEntry :: "raw_entry \<Rightarrow> 'd raft \<Rightarrow> 'd raft" where
  "addEntry e rf = rf\<lparr>rf_logs := rf_logs rf @ [e]\<rparr>"

section \<open>Cluster configurations\<close>

definition ClusterConfiguration_new :: "node_id list \<Rightarrow> cluster_configuration" where
  "ClusterConfiguration_new ids = \<lparr>cc_nodeIds = ids, cc_nodes = []\<rparr>"

definition setClusterNode :: "node_id \<Rightarrow> bool \<Rightarrow> cluster_configuration \<Rightarrow> cluster_configuration" where
  "setClusterNode n vote cc = cc\<lparr>cc_nodes := AList.update n vote (cc_nodes cc)\<rparr>"

definition clusterNode :: "node_id \<Rightarrow> cluster_configuration \<Rightarrow> bool option" where
  "clusterNode n cc = map_of (cc_nodes cc) n"

text \<open>\<^verbatim>\<open>insert\<close> keeps a configuration that is there; \<^verbatim>\<open>rbegin\<close> is the one of the largest index.\<close>

definition addClusterConfiguration :: "u64 \<Rightarrow> cluster_configuration \<Rightarrow> 'd raft \<Rightarrow> 'd raft" where
  "addClusterConfiguration i cc rf = rf\<lparr>rf_configurations := emplace i cc (rf_configurations rf)\<rparr>"

definition lastConfiguration :: "'d raft \<Rightarrow> (u64 \<times> cluster_configuration) run" where
  "lastConfiguration rf =
     (if rf_configurations rf = [] then Inl OutOfBounds
      else (let i = Max (set (keys (rf_configurations rf)))
            in Inr (i, the (map_of (rf_configurations rf) i))))"

section \<open>Initialisation\<close>

text \<open>
  \<^verbatim>\<open>std::string(const char*)\<close> of the bytes of a vector: the pointer of an empty vector is null, and the
  search for the terminating zero leaves a vector that has none.
\<close>

definition c_string :: "u8 list \<Rightarrow> string run" where
  "c_string bs =
     (if bs = [] then Inl NullDeref else if 0 \<notin> set bs then Inl OutOfBounds
      else Inr (map (\<lambda>b. char_of (unat b)) (takeWhile (\<lambda>b. b \<noteq> 0) bs)))"

definition cluster_entry :: "'d raft_env \<Rightarrow> u64 \<Rightarrow> 'd raft \<Rightarrow> 'd raft run" where
  "cluster_entry env i rf =
     (case log_getLogType env i rf of
        (type, rf1) \<Rightarrow>
          if type \<noteq> ET_Configuration then Inr rf1
          else and_then (log_getLogEntry env i rf1) (\<lambda>(entry, rf2).
            case entry of
              None \<Rightarrow> Inl NullDeref
            | Some e \<Rightarrow> and_then (c_string (re_data e)) (\<lambda>s.
                let ids = cluster_deserialize (le_json env) (js_asString env) s
                in Inr (addClusterConfiguration i (ClusterConfiguration_new ids) rf2))))"

text \<open>The loop counter is an \<^verbatim>\<open>int\<close>, compared as \<^verbatim>\<open>uint64_t\<close>; its increment may overflow.\<close>

function cluster_loop :: "'d raft_env \<Rightarrow> u64 \<Rightarrow> int \<Rightarrow> 'd raft \<Rightarrow> 'd raft run" where
  "cluster_loop env n i rf =
     (if \<not> word_of_int i \<le> n then Inr rf
      else and_then (cluster_entry env (word_of_int i) rf) (\<lambda>rf1.
        if 2 ^ 31 - 1 \<le> i then Inl SignedOverflow else cluster_loop env n (i + 1) rf1))"
  by pat_completeness auto
termination by (relation "measure (\<lambda>(env, n, i, rf). nat (2 ^ 31 - 1 - i))") auto

declare cluster_loop.simps [simp del]

definition initClusterConfiguration :: "'d raft_env \<Rightarrow> 'd raft \<Rightarrow> (int \<times> 'd raft) run" where
  "initClusterConfiguration env rf =
     (case log_endIndex env rf of
        (n, rf1) \<Rightarrow>
          (case (if n = 0 then log_buildInitialConfigurationLog env rf1 else (0, rf1)) of
             (built, rf2) \<Rightarrow>
               if built = -1 then Inr (-1, rf2)
               else (case log_endIndex env rf2 of
                 (n1, rf3) \<Rightarrow> and_then (cluster_loop env n1 1 rf3) (\<lambda>rf4. Inr (0, rf4)))))"

text \<open>\<^verbatim>\<open>false == init()\<close> holds when \<^verbatim>\<open>init\<close> returns 0.\<close>

definition initState :: "'d raft_env \<Rightarrow> 'd raft \<Rightarrow> int \<times> 'd raft" where
  "initState env rf =
     (case PersistentState_init env rf of (ret, rf1) \<Rightarrow> (if ret = 0 then -1 else 0, rf1))"

definition Raft_init :: "'d raft_env \<Rightarrow> 'd raft \<Rightarrow> (int \<times> 'd raft) run" where
  "Raft_init env rf =
     and_then (initClusterConfiguration env rf) (\<lambda>(ret, rf1).
       if ret = -1 then Inr (-1, rf1)
       else (case initState env rf1 of (ret, rf2) \<Rightarrow> Inr (if ret = -1 then -1 else 0, rf2)))"

section \<open>Messages\<close>

fun message_bytes :: "'d raft_env \<Rightarrow> raft_message \<Rightarrow> u8 list" where
  "message_bytes env (M_RequestVote m) = pb_bytes (pb_requestVote env) m"
| "message_bytes env (M_RequestVoteReply m) = pb_bytes (pb_requestVoteReply env) m"

text \<open>\<^verbatim>\<open>MessageEncodeHelper::encode\<close> marks every message as a request.\<close>

definition encode_raft_message :: "'d raft_env \<Rightarrow> raft_message \<Rightarrow> u8 list" where
  "encode_raft_message env m =
     pb_bytes (pb_raftPack env) \<lparr>rp_messageType = c_RequestVote, rp_payload = message_bytes env m\<rparr>"

type_synonym 'd raft_node = "'d raft \<times> p2p_service"

text \<open>A message pointer may be null.\<close>

definition boardcastMessage :: "'d raft_env \<Rightarrow> raft_message option \<Rightarrow> p2p_service \<Rightarrow> (int \<times> p2p_service) run" where
  "boardcastMessage env m svc =
     (case m of
        None \<Rightarrow> Inl NullDeref
      | Some m \<Rightarrow> boardcastModuleMessage M_raft (encode_raft_message env m) svc)"

definition sendMessageToNode :: "'d raft_env \<Rightarrow> node_id \<Rightarrow> raft_message \<Rightarrow> p2p_service \<Rightarrow>
    (int \<times> p2p_service) run" where
  "sendMessageToNode env target m svc = sendModuleMessageByNodeId target M_raft (encode_raft_message env m) svc"

section \<open>Elections\<close>

definition generateRequestVoteMessage :: "'d raft_env \<Rightarrow> 'd raft \<Rightarrow> (raft_message option \<times> 'd raft) run" where
  "generateRequestVoteMessage env rf =
     (case ps_currentTerm 0 rf of
        (ret, currentTerm) \<Rightarrow>
          if ret \<noteq> 0 then Inr (None, rf)
          else (case log_endIndex env rf of
            (endIndex, rf1) \<Rightarrow> and_then (log_getLogEntry env endIndex rf1) (\<lambda>(entry, rf2).
              case entry of
                None \<Rightarrow> Inl NullDeref
              | Some e \<Rightarrow> Inr (Some (M_RequestVote
                  \<lparr>rv_term = currentTerm, rv_candidateId = rf_nodeId rf2, rv_lastLogIndex = endIndex,
                   rv_lastLogTerm = re_term e\<rparr>), rf2))))"

text \<open>\<open>timeout\<close> is the number \<^verbatim>\<open>generateRandomElectionTimeout\<close> draws.\<close>

definition startElection :: "'d raft_env \<Rightarrow> int \<Rightarrow> 'd raft_node \<Rightarrow> (int \<times> 'd raft_node) run" where
  "startElection env timeout = (\<lambda>(rf, svc).
     case increaseTerm env rf of
       (ret, rf1) \<Rightarrow>
         if ret \<noteq> 0 then Inr (-1, rf1, svc)
         else
           (let rf2 = rf1\<lparr>rf_identity := Candidate\<rparr>
            in and_then (lastConfiguration rf2) (\<lambda>(i, cc).
              case clusterNode (rf_nodeId rf2) cc of
                None \<Rightarrow> Inl NullDeref
              | Some _ \<Rightarrow>
                  (let rf3 = rf2\<lparr>rf_configurations :=
                         AList.update i (setClusterNode (rf_nodeId rf2) True cc) (rf_configurations rf2)\<rparr>;
                       rf4 = rf3\<lparr>rf_electionTimeoutPoint := rf_electionTimeoutPoint rf3 + of_int timeout\<rparr>
                   in and_then (generateRequestVoteMessage env rf4) (\<lambda>(m, rf5).
                      and_then (boardcastMessage env m svc) (\<lambda>(ret, svc1).
                        Inr (if ret \<noteq> 0 then -1 else 0, rf5, svc1)))))))"

text \<open>
  The body of the election thread, with the up time it reads.  \<^verbatim>\<open>initElectionThread\<close> starts the thread
  after setting the timeout; no code calls it.
\<close>

definition election_tick :: "'d raft_env \<Rightarrow> real \<Rightarrow> int \<Rightarrow> int \<Rightarrow> 'd raft_node \<Rightarrow> 'd raft_node run" where
  "election_tick env now timeout1 timeout2 node =
     (case rf_identity (fst node) of
        Leader \<Rightarrow> Inr node
      | Follower \<Rightarrow>
          if now < rf_electionTimeoutPoint (fst node) then Inr node
          else and_then (startElection env timeout1 node) (\<lambda>(_, node1). Inr node1)
      | Candidate \<Rightarrow>
          if rf_electionTimeoutPoint (fst node) \<le> now then
            (let rf1 = (fst node)\<lparr>rf_electionTimeoutPoint := rf_electionTimeoutPoint (fst node) + of_int timeout1\<rparr>
             in and_then (startElection env timeout2 (rf1, snd node)) (\<lambda>(_, node1). Inr node1))
          else Inr node)"

definition initElectionThread :: "real \<Rightarrow> int \<Rightarrow> 'd raft \<Rightarrow> 'd raft" where
  "initElectionThread now timeout rf = rf\<lparr>rf_electionTimeoutPoint := now + of_int timeout\<rparr>"

text \<open>
  \<^verbatim>\<open>handleRequestVoteMessage\<close>.  The conditions of the rejection are tried from left to right; only the
  last reads the log.
\<close>

definition handleRequestVoteMessage :: "'d raft_env \<Rightarrow> node_id \<Rightarrow> request_vote \<Rightarrow> 'd raft_node \<Rightarrow>
    (int \<times> 'd raft_node) run" where
  "handleRequestVoteMessage env from msg = (\<lambda>(rf, svc).
     case ps_currentTerm 0 rf of
       (ret, currentTerm) \<Rightarrow>
         if ret \<noteq> 0 then Inr (-1, rf, svc)
         else
           (let reply = \<lparr>rr_term = currentTerm, rr_voteGranted = False\<rparr>;
                voteFor = rf_voteFor rf;
                (reject, rf1) =
                  (if rv_term msg < currentTerm then (True, rf)
                   else if voteFor \<noteq> [] \<and> voteFor \<noteq> rf_nodeId rf then (True, rf)
                   else (case log_endIndex env rf of (n, rf1) \<Rightarrow> (rv_lastLogIndex msg < n, rf1)))
            in if reject then
                 and_then (sendMessageToNode env from (M_RequestVoteReply reply) svc) (\<lambda>(ret, svc1).
                   Inr (if ret \<noteq> 0 then -1 else 0, rf1, svc1))
               else Inr (0, rf1, svc)))"

definition raft_handleMessage :: "'d raft_env \<Rightarrow> node_id \<Rightarrow> u8 list \<Rightarrow> 'd raft_node \<Rightarrow>
    (int \<times> 'd raft_node) run" where
  "raft_handleMessage env from data node =
     (let pack = snd (pb_parse (pb_raftPack env) data)
      in if rp_messageType pack = c_RequestVote then
           and_then (handleRequestVoteMessage env from (snd (pb_parse (pb_requestVote env) (rp_payload pack))) node)
             (\<lambda>(ret, node1). Inr (if ret \<noteq> 0 then -1 else 0, node1))
         else Inr (0, node))"

section \<open>What initialisation does\<close>

text \<open>The parts of the state the log operations leave alone.\<close>

lemma log_get_frame: "stmc_log.more (snd (log_get env key lg)) = stmc_log.more lg"
  by (simp add: log_get_def split: prod.split)

lemma log_set_frame: "stmc_log.more (snd (log_set env key v lg)) = stmc_log.more lg"
  by (simp add: log_set_def split: prod.split)

lemma log_endIndex_frame: "stmc_log.more (snd (log_endIndex env lg)) = stmc_log.more lg"
proof -
  obtain r v lg1 where g: "log_get env c_stmcLogEndIndexKey lg = ((r, v), lg1)" by (metis surj_pair)
  then show ?thesis
    using log_get_frame [of env c_stmcLogEndIndexKey lg] by (simp add: log_endIndex_def Let_def)
qed

lemma log_build_frame:
  "stmc_log.more (snd (log_buildInitialConfigurationLog env lg)) = stmc_log.more lg"
  by (simp add: log_buildInitialConfigurationLog_def log_increaseEndIndex_def log_set_def Let_def split_beta)

lemma log_getLogType_frame: "stmc_log.more (snd (log_getLogType env i lg)) = stmc_log.more lg"
  by (simp add: log_getLogType_def log_get_def split_beta)

lemma log_getLogEntry_frame:
  "log_getLogEntry env i lg = Inr (e, lg1) \<Longrightarrow> stmc_log.more lg1 = stmc_log.more lg"
  by (auto simp: log_getLogEntry_def log_get_def split: prod.splits if_splits list.splits)

lemma raft_more_eq:
  "stmc_log.more rf1 = stmc_log.more rf \<longleftrightarrow>
   rf_nodeId rf1 = rf_nodeId rf \<and> rf_currentTerm rf1 = rf_currentTerm rf \<and> rf_voteFor rf1 = rf_voteFor rf \<and>
   rf_logs rf1 = rf_logs rf \<and> rf_configurations rf1 = rf_configurations rf \<and> rf_identity rf1 = rf_identity rf \<and>
   rf_electionTimeoutPoint rf1 = rf_electionTimeoutPoint rf \<and> raft.more rf1 = raft.more rf"
  by (cases rf; cases rf1) simp

text \<open>Reading entries leaves the tables alone.\<close>

lemma log_reads_view:
  assumes "storage_contract (le_storage env) view"
  shows "view (m_db (snd (log_get env key lg))) = view (m_db lg)"
    and "view (m_db (snd (log_getLogType env i lg))) = view (m_db lg)"
    and "log_getLogEntry env i lg = Inr (e, lg1) \<Longrightarrow> view (m_db lg1) = view (m_db lg)"
proof -
  have get: "view (m_db (snd (log_get env key lg))) = view (m_db lg)" for key
    by (rule log_get_contract [OF assms, of key lg]) simp
  show "view (m_db (snd (log_get env key lg))) = view (m_db lg)" by (rule get)
  show "view (m_db (snd (log_getLogType env i lg))) = view (m_db lg)"
    using get [of "nat_to_string (unat i)"] by (simp add: log_getLogType_def split_beta)
  show "view (m_db lg1) = view (m_db lg)" if "log_getLogEntry env i lg = Inr (e, lg1)"
    using that get [of "nat_to_string (unat i)"]
    by (auto simp: log_getLogEntry_def split_beta split: if_splits list.splits)
qed

text \<open>
  The states a scan of the log leads to: terms, vote and identity are as before, and the
  configurations added have no cluster nodes.
\<close>

definition no_nodes :: "'d raft \<Rightarrow> bool" where
  "no_nodes rf \<longleftrightarrow> (\<forall>cc \<in> snd ` set (rf_configurations rf). cc_nodes cc = [])"

definition scan_frame :: "'d raft \<Rightarrow> 'd raft \<Rightarrow> bool" where
  "scan_frame rf rf1 \<longleftrightarrow>
     rf_nodeId rf1 = rf_nodeId rf \<and> rf_currentTerm rf1 = rf_currentTerm rf \<and> rf_voteFor rf1 = rf_voteFor rf \<and>
     rf_identity rf1 = rf_identity rf \<and> (no_nodes rf \<longrightarrow> no_nodes rf1)"

lemma scan_frame_refl [simp]: "scan_frame rf rf"
  by (simp add: scan_frame_def)

lemma scan_frame_trans [trans]: "scan_frame a b \<Longrightarrow> scan_frame b c \<Longrightarrow> scan_frame a c"
  by (simp add: scan_frame_def)

lemma scan_frame_log: "stmc_log.more rf1 = stmc_log.more rf \<Longrightarrow> scan_frame rf rf1"
  by (simp add: scan_frame_def raft_more_eq no_nodes_def)

lemma scan_frame_add: "scan_frame rf (addClusterConfiguration i (ClusterConfiguration_new ids) rf)"
  by (auto simp: scan_frame_def addClusterConfiguration_def no_nodes_def emplace_def ClusterConfiguration_new_def)

lemma cluster_entry_frame:
  assumes "cluster_entry env i rf = Inr rf'"
  shows "scan_frame rf rf'"
proof -
  obtain ty rf1 where ty: "log_getLogType env i rf = (ty, rf1)" by force
  have 1: "scan_frame rf rf1" using log_getLogType_frame [of env i rf] ty by (simp add: scan_frame_log)
  show ?thesis
  proof (cases "ty = ET_Configuration")
    case True
    then obtain e rf2 ids where "log_getLogEntry env i rf1 = Inr (Some e, rf2)"
      and r: "rf' = addClusterConfiguration i (ClusterConfiguration_new ids) rf2"
      using assms ty by (auto simp: cluster_entry_def and_then_Inr Let_def split: option.splits)
    then have "scan_frame rf1 rf2" by (intro scan_frame_log log_getLogEntry_frame)
    then show ?thesis using 1 r scan_frame_add scan_frame_trans by blast
  next
    case False
    then show ?thesis using assms ty 1 by (simp add: cluster_entry_def)
  qed
qed

lemma cluster_entry_view:
  assumes "storage_contract (le_storage env) view" and "cluster_entry env i rf = Inr rf'"
  shows "view (m_db rf') = view (m_db rf)"
  using assms(2) log_reads_view(2) [OF assms(1), of i rf]
  by (auto simp: cluster_entry_def and_then_Inr Let_def addClusterConfiguration_def
      dest!: log_reads_view(3) [OF assms(1)] split: option.splits prod.splits if_splits)

lemma cluster_loop_frame: "cluster_loop env n i rf = Inr rf' \<Longrightarrow> scan_frame rf rf'"
proof (induction env n i rf rule: cluster_loop.induct)
  case (1 env n i rf)
  note [simp] = cluster_loop.simps [of env n i rf]
  show ?case
    using "1.prems" "1.IH"
    by (auto simp: and_then_Inr split: if_splits dest!: cluster_entry_frame intro: scan_frame_trans)
qed

lemma cluster_loop_view:
  "cluster_loop env n i rf = Inr rf' \<Longrightarrow> storage_contract (le_storage env) view \<Longrightarrow>
   view (m_db rf') = view (m_db rf)"
proof (induction env n i rf rule: cluster_loop.induct)
  case (1 env n i rf)
  show ?case
  proof (cases "word_of_int i \<le> n")
    case True
    then obtain rf1 where e: "cluster_entry env (word_of_int i) rf = Inr rf1"
      and l: "\<not> 2 ^ 31 - 1 \<le> i" "cluster_loop env n (i + 1) rf1 = Inr rf'"
      using "1.prems"(1) by (auto simp: cluster_loop.simps [of env n i rf] and_then_Inr split: if_splits)
    have "view (m_db rf') = view (m_db rf1)" using "1.IH" True l "1.prems"(2) by blast
    also have "\<dots> = view (m_db rf)" by (rule cluster_entry_view [OF "1.prems"(2) e])
    finally show ?thesis .
  next
    case False
    then show ?thesis using "1.prems"(1) by (simp add: cluster_loop.simps [of env n i rf])
  qed
qed

lemma initClusterConfiguration_frame:
  assumes "initClusterConfiguration env rf = Inr (ret, rf')"
  shows "scan_frame rf rf'"
proof -
  obtain n rf1 where 1: "log_endIndex env rf = (n, rf1)" by force
  obtain b rf2 where 2: "(if n = 0 then log_buildInitialConfigurationLog env rf1 else (0, rf1)) = (b, rf2)" by force
  obtain m rf3 where 3: "log_endIndex env rf2 = (m, rf3)" by force
  have "scan_frame rf rf1" using log_endIndex_frame [of env rf] 1 by (simp add: scan_frame_log)
  also have "scan_frame rf1 rf2"
    using log_build_frame [of env rf1] 2 by (cases "n = 0") (simp_all add: scan_frame_log)
  finally have 12: "scan_frame rf rf2" .
  also have "scan_frame rf2 rf3" using log_endIndex_frame [of env rf2] 3 by (simp add: scan_frame_log)
  finally show ?thesis
    using assms 1 2 3 12
    by (auto simp: initClusterConfiguration_def and_then_Inr split: if_splits
        dest!: cluster_loop_frame intro: scan_frame_trans)
qed

text \<open>
  Over a storage that keeps its contract the scan returns 0 unless it faults, and touches no key but
  that of the first entry and the end index.
\<close>

lemma initClusterConfiguration_contract:
  assumes "storage_contract (le_storage env) view" and "initClusterConfiguration env rf = Inr (ret, rf')"
  shows "ret = 0 \<and> (k = ''1'' \<or> k = c_stmcLogEndIndexKey \<or> log_view view (m_db rf') k = log_view view (m_db rf) k)"
proof -
  obtain d n where 1: "log_endIndex env rf = (n, rf\<lparr>m_endIndex := n, m_db := d\<rparr>)" and v1: "view d = view (m_db rf)"
    by (rule log_endIndex_contract [OF assms(1), of rf]) auto
  let ?rf1 = "rf\<lparr>m_endIndex := n, m_db := d\<rparr>"
  define b2 where "b2 = (if n = 0 then log_buildInitialConfigurationLog env ?rf1 else (0, ?rf1))"
  have 2: "fst b2 = 0 \<and> (k = ''1'' \<or> k = c_stmcLogEndIndexKey \<or>
      log_view view (m_db (snd b2)) k = log_view view (m_db rf) k)"
  proof (cases "n = 0")
    case True
    show ?thesis
      by (rule log_build_contract [OF assms(1), of ?rf1]) (use True v1 in \<open>simp add: b2_def\<close>)
  qed (simp add: b2_def v1)
  obtain d3 m where 3: "log_endIndex env (snd b2) = (m, (snd b2)\<lparr>m_endIndex := m, m_db := d3\<rparr>)"
    and v3: "view d3 = view (m_db (snd b2))"
    by (rule log_endIndex_contract [OF assms(1), of "snd b2"]) auto
  have "ret = 0 \<and> cluster_loop env m 1 ((snd b2)\<lparr>m_endIndex := m, m_db := d3\<rparr>) = Inr rf'"
    using assms(2) 1 2 3 by (auto simp: initClusterConfiguration_def and_then_Inr split_beta b2_def [symmetric])
  then show ?thesis using 2 v3 cluster_loop_view [OF _ assms(1)] by fastforce
qed


text \<open>Codecs of the kind protobuf generates: a message of default values has no bytes.\<close>

definition ex_raft_env :: "mem_db raft_env" where
  "ex_raft_env = \<lparr>le_storage = mem_storage, le_entry = ex_entry_codec,
     le_json = \<lparr>js_write = (\<lambda>v. ''x''), js_parse = (\<lambda>s. None)\<rparr>, le_serverIds = [''a'', ''b''], le_junk = 7,
     pb_requestVote = \<lparr>pb_bytes = (\<lambda>m. if m = RequestVote_new then [] else [ucast (rv_lastLogIndex m)]),
       pb_parse = (\<lambda>bs. (True, case bs of [] \<Rightarrow> RequestVote_new | b # _ \<Rightarrow> RequestVote_new\<lparr>rv_lastLogIndex := ucast b\<rparr>))\<rparr>,
     pb_requestVoteReply = \<lparr>pb_bytes = (\<lambda>m. if m = \<lparr>rr_term = 0, rr_voteGranted = False\<rparr> then [] else [ucast (rr_term m)]),
       pb_parse = (\<lambda>bs. (True, case bs of [] \<Rightarrow> \<lparr>rr_term = 0, rr_voteGranted = False\<rparr>
         | b # _ \<Rightarrow> \<lparr>rr_term = ucast b, rr_voteGranted = True\<rparr>))\<rparr>,
     pb_raftPack = \<lparr>pb_bytes = (\<lambda>p. word_of_int (rp_messageType p) # rp_payload p),
       pb_parse = (\<lambda>bs. case bs of [] \<Rightarrow> (True, \<lparr>rp_messageType = 0, rp_payload = []\<rparr>)
         | t # payload \<Rightarrow> (True, \<lparr>rp_messageType = uint t, rp_payload = payload\<rparr>))\<rparr>,
     js_asString = (\<lambda>v. [])\<rparr>"

text \<open>A database with one data entry, with and without a term.\<close>

definition ex_db_data :: mem_db where
  "ex_db_data = [((''__stmc_log__'', ''end_index''), ''1''), ((''__stmc_log__'', ''1''), [char_of (2::nat)])]"

definition ex_db_term :: mem_db where
  "ex_db_term = ((''__stmc_log__'', ''current_term''), ''5'') # ex_db_data"

lemma ex_raft_contract: "storage_contract (le_storage ex_raft_env) mem_view"
  by (simp add: ex_raft_env_def mem_storage_contract)

definition ex_raft :: "mem_db \<Rightarrow> mem_db raft" where
  "ex_raft db = (Raft_new ''a'' db)\<lparr>m_endIndex := 1\<rparr>"

lemma ex_raft_init:
  assumes "map_of db (''__stmc_log__'', ''1'') = Some [char_of (2::nat)]"
  shows "\<exists>rf'. Raft_init ex_raft_env (ex_raft db) =
    Inr (if map_of db (''__stmc_log__'', ''current_term'') = None then 0 else -1, rf')"
proof -
  have e: "log_endIndex ex_raft_env (ex_raft db) = (1, ex_raft db)"
    by (simp add: log_endIndex_def ex_raft_def)
  have n: "nat_to_string (Suc 0) = ''1''" by (simp add: nat_to_string.simps digit_char_def char_of_def bit_0)
  have t: "sint (of_char (char_of (2::nat)) :: u8) = 2" by code_simp
  have g: "log_get ex_raft_env key (ex_raft db) =
      ((case map_of db (''__stmc_log__'', key) of None \<Rightarrow> (-1, []) | Some x \<Rightarrow> (0, x)), ex_raft db)" for key
    by (simp add: log_get_def ex_raft_env_def mem_storage_def ex_raft_def Raft_new_def c_stmclogTableName_def
        split: option.split)
  have "cluster_entry ex_raft_env 1 (ex_raft db) = Inr (ex_raft db)"
    using assms t by (simp add: cluster_entry_def log_getLogType_def g n entry_type_of_def)
  then have "cluster_loop ex_raft_env 1 1 (ex_raft db) = Inr (ex_raft db)"
    by (simp add: cluster_loop.simps [of _ _ 1] cluster_loop.simps [of _ _ 2] word_le_nat_alt)
  then have "initClusterConfiguration ex_raft_env (ex_raft db) = Inr (0, ex_raft db)"
    by (simp add: initClusterConfiguration_def e)
  then show ?thesis
    by (simp add: Raft_init_def initState_def PersistentState_init_def getCurrentTerm_def g c_currentTermKey_def
        split: option.split)
qed


text \<open>
  The first start of a node crashes.  On a database without a log, over a storage that keeps its
  contract, \<^verbatim>\<open>Raft::init\<close> writes the configuration entry without its contents, reads it back as an entry
  without data, and constructs a \<^verbatim>\<open>std::string\<close> from the null pointer of the empty vector.
\<close>

theorem raft_first_start_faults:
  assumes "storage_contract (le_storage env) view"
    and "m_endIndex rf = 0" and "log_view view (m_db rf) c_stmcLogEndIndexKey = None"
    and "re_data (snd (pb_parse (le_entry env) [])) = []"
  shows "Raft_init env rf = Inl NullDeref"
proof -
  obtain d0 where 0: "log_endIndex env rf = (0, rf\<lparr>m_endIndex := 0, m_db := d0\<rparr>)" and v0: "view d0 = view (m_db rf)"
    by (rule log_endIndex_contract [OF assms(1), of rf]) (use assms(2,3) in auto)
  let ?rf0 = "rf\<lparr>m_endIndex := 0, m_db := d0\<rparr>"
  obtain d1 where 1: "log_buildInitialConfigurationLog env ?rf0 = (0, rf\<lparr>m_endIndex := 1, m_db := d1\<rparr>)"
    and v1: "log_view view d1 ''1'' = Some [char_of (1::nat)]"
    by (rule log_build_contract [OF assms(1), of ?rf0]) simp
  let ?rf1 = "rf\<lparr>m_endIndex := 1, m_db := d1\<rparr>"
  have 2: "log_endIndex env ?rf1 = (1, ?rf1)" by (simp add: log_endIndex_def)
  have n: "nat_to_string (Suc 0) = ''1''" by (simp add: nat_to_string.simps digit_char_def char_of_def bit_0)
  have t: "sint (of_char (char_of (1::nat)) :: u8) = 1" by code_simp
  obtain d2 where g1: "log_get env ''1'' ?rf1 = ((0, [char_of (1::nat)]), ?rf1\<lparr>m_db := d2\<rparr>)" and v2: "view d2 = view d1"
    by (rule log_get_contract [OF assms(1), of "''1''" ?rf1]) (use v1 in auto)
  have g2: "fst (log_get env ''1'' (?rf1\<lparr>m_db := d2\<rparr>)) = (0, [char_of (1::nat)])"
    by (rule log_get_contract [OF assms(1), of "''1''" "?rf1\<lparr>m_db := d2\<rparr>"]) (use v1 v2 in auto)
  have "cluster_entry env 1 ?rf1 = Inl NullDeref"
    using g1 g2 t assms(4)
    by (simp add: cluster_entry_def log_getLogType_def log_getLogEntry_def n entry_type_of_def split_beta
        entry_decode_def bytes_of_def c_string_def)
  then have "cluster_loop env 1 1 ?rf1 = Inl NullDeref"
    by (simp add: cluster_loop.simps [of _ _ 1])
  then show ?thesis using 0 1 2 by (simp add: Raft_init_def initClusterConfiguration_def)
qed

lemma raft_first_start_faults_witness:
  "Raft_init ex_raft_env (Raft_new ''a'' []) = Inl NullDeref"
  by (rule raft_first_start_faults [OF ex_raft_contract])
    (simp_all add: Raft_new_def mem_view_def ex_raft_env_def ex_entry_codec_def Entry_new_def)

section \<open>Terms\<close>

fun increase_terms :: "nat \<Rightarrow> ('d, 'e) log_env_scheme \<Rightarrow> 'd raft \<Rightarrow> 'd raft" where
  "increase_terms 0 env rf = rf"
| "increase_terms (Suc n) env rf = snd (increaseTerm env (increase_terms n env rf))"

lemma increaseTerm_contract:
  assumes "storage_contract (le_storage env) view"
  shows "fst (increaseTerm env rf) = 0 \<and> rf_currentTerm (snd (increaseTerm env rf)) = rf_currentTerm rf + 2 \<and>
    log_view view (m_db (snd (increaseTerm env rf))) c_currentTermKey = Some (nat_to_string (unat (rf_currentTerm rf + 1)))"
proof -
  obtain d where "log_set env c_currentTermKey (nat_to_string (unat (rf_currentTerm rf + 1))) rf = (0, rf\<lparr>m_db := d\<rparr>)"
    and "view d = (view (m_db rf))(c_stmclogTableName := (log_view view (m_db rf))
      (c_currentTermKey \<mapsto> nat_to_string (unat (rf_currentTerm rf + 1))))"
    by (rule log_set_contract [OF assms])
  then show ?thesis by (simp add: increaseTerm_def setCurrentTerm_def storage_setCurrentTerm_def)
qed

text \<open>
  Memory and database disagree on the term.  Over a storage that keeps its contract \<open>n + 1\<close> calls of
  \<^verbatim>\<open>increaseTerm\<close> raise the term in memory by \<open>2 (n + 1)\<close>, and the database holds one less than memory, so
  the term a restarted node reads is one it has already left.
\<close>

theorem increase_term_skips:
  assumes "storage_contract (le_storage env) view"
  shows "rf_currentTerm (increase_terms (Suc n) env rf) = rf_currentTerm rf + 2 * of_nat (Suc n) \<and>
    fst (getCurrentTerm env (increase_terms (Suc n) env rf)) =
      Some (rf_currentTerm (increase_terms (Suc n) env rf) - 1)"
proof -
  have mem: "rf_currentTerm (increase_terms k env rf) = rf_currentTerm rf + 2 * of_nat k" for k
    by (induction k) (simp_all add: increaseTerm_contract [OF assms] algebra_simps)
  let ?rf = "increase_terms (Suc n) env rf"
  have v: "log_view view (m_db ?rf) c_currentTermKey =
      Some (nat_to_string (unat (rf_currentTerm (increase_terms n env rf) + 1)))"
    and t: "rf_currentTerm ?rf = rf_currentTerm (increase_terms n env rf) + 2"
    using increaseTerm_contract [OF assms, of "increase_terms n env rf"] by auto
  have "fst (log_get env c_currentTermKey ?rf) = (0, nat_to_string (unat (rf_currentTerm (increase_terms n env rf) + 1)))"
    by (rule log_get_contract [OF assms, of c_currentTermKey ?rf]) (use v in simp)
  then have "fst (getCurrentTerm env ?rf) = Some (rf_currentTerm (increase_terms n env rf) + 1)"
    by (simp add: getCurrentTerm_def split_beta del: increase_terms.simps)
  then show ?thesis using mem [of "Suc n"] t by simp
qed

lemma increase_term_skips_witness:
  "rf_currentTerm (increase_terms 2 ex_raft_env (Raft_new ''a'' [])) = 4 \<and>
   fst (getCurrentTerm ex_raft_env (increase_terms 2 ex_raft_env (Raft_new ''a'' []))) = Some 3"
  using increase_term_skips [OF ex_raft_contract, of 1 "Raft_new ''a'' []"]
  by (simp add: numeral_2_eq_2 Raft_new_def del: increase_terms.simps)

section \<open>No election, no vote\<close>

text \<open>The states of a node: it starts, is initialised, handles messages and runs the election thread,
  while its peer-to-peer service takes steps of its own.\<close>

inductive raft_reachable :: "'d raft_env \<Rightarrow> 'd raft_node \<Rightarrow> bool" for env where
  start: "raft_reachable env (Raft_new n db, svc)"
| init: "raft_reachable env (rf, svc) \<Longrightarrow> Raft_init env rf = Inr (ret, rf') \<Longrightarrow> raft_reachable env (rf', svc)"
| thread: "raft_reachable env (rf, svc) \<Longrightarrow> raft_reachable env (initElectionThread now timeout rf, svc)"
| tick: "raft_reachable env node \<Longrightarrow> election_tick env now timeout1 timeout2 node = Inr node' \<Longrightarrow>
    raft_reachable env node'"
| message: "raft_reachable env node \<Longrightarrow> raft_handleMessage env from data node = Inr (ret, node') \<Longrightarrow>
    raft_reachable env node'"
| service: "raft_reachable env (rf, svc) \<Longrightarrow> raft_reachable env (rf, svc')"

inductive_cases raft_reachableE: "raft_reachable env node"

definition idle_node :: "'d raft \<Rightarrow> bool" where
  "idle_node rf \<longleftrightarrow> rf_identity rf = Follower \<and> rf_voteFor rf = [] \<and> no_nodes rf"

lemma idle_scan: "scan_frame rf rf' \<Longrightarrow> idle_node rf \<Longrightarrow> idle_node rf'"
  by (simp add: scan_frame_def idle_node_def)

lemma idle_log: "stmc_log.more rf' = stmc_log.more (rf :: 'd raft) \<Longrightarrow> idle_node rf \<Longrightarrow> idle_node (rf' :: 'd raft)"
  by (rule idle_scan [OF scan_frame_log])

lemma increaseTerm_fields:
  "increaseTerm env rf = (ret, rf') \<Longrightarrow>
   rf_identity rf' = rf_identity rf \<and> rf_voteFor rf' = rf_voteFor rf \<and> rf_configurations rf' = rf_configurations rf \<and>
   rf_nodeId rf' = rf_nodeId rf \<and> (ret = 0 \<or> ret = -1)"
  by (auto simp: increaseTerm_def setCurrentTerm_def storage_setCurrentTerm_def log_set_def split: prod.splits if_splits)

text \<open>An election of a node without cluster nodes ends at the first write or at a null pointer.\<close>

lemma lastConfiguration_idle:
  assumes "no_nodes rf" and "lastConfiguration rf = Inr (i, cc)"
  shows "clusterNode n cc = None"
proof -
  have "i \<in> set (keys (rf_configurations rf))" and cc: "cc = the (map_of (rf_configurations rf) i)"
    using assms(2) Max_in [of "set (keys (rf_configurations rf))"]
    by (auto simp: lastConfiguration_def Let_def split: if_splits)
  then obtain cc' where "map_of (rf_configurations rf) i = Some cc'"
    by (metis in_set_conv_nth map_of_eq_None_iff list.set_map not_None_eq)
  then have "(i, cc) \<in> set (rf_configurations rf)" using cc by (simp add: map_of_SomeD)
  then have "cc_nodes cc = []" using assms(1) by (force simp: no_nodes_def)
  then show ?thesis by (simp add: clusterNode_def)
qed

lemma startElection_idle:
  assumes "idle_node rf"
  shows "startElection env timeout (rf, svc) =
    (case increaseTerm env rf of (ret, rf1) \<Rightarrow>
       if ret \<noteq> 0 then Inr (-1, rf1, svc)
       else if rf_configurations rf = [] then Inl OutOfBounds else Inl NullDeref)"
proof -
  obtain r rf1 where i: "increaseTerm env rf = (r, rf1)" by force
  let ?rf2 = "rf1\<lparr>rf_identity := Candidate\<rparr>"
  have n: "no_nodes ?rf2" and c: "rf_configurations ?rf2 = rf_configurations rf"
    using increaseTerm_fields [OF i] assms by (simp_all add: idle_node_def no_nodes_def)
  show ?thesis
  proof (cases "rf_configurations rf = []")
    case True
    then show ?thesis using i c by (simp add: startElection_def Let_def lastConfiguration_def)
  next
    case False
    then obtain k cc where l: "lastConfiguration ?rf2 = Inr (k, cc)"
      using c by (auto simp: lastConfiguration_def Let_def)
    have "clusterNode m cc = None" for m by (rule lastConfiguration_idle [OF n l])
    then show ?thesis using i l False by (simp add: startElection_def Let_def)
  qed
qed

lemma startElection_keeps_idle:
  assumes "idle_node rf" and "startElection env timeout (rf, svc) = Inr (ret, rf', svc')"
  shows "idle_node rf'"
  using assms(2) unfolding startElection_idle [OF assms(1)]
  by (auto simp: idle_node_def no_nodes_def dest!: increaseTerm_fields split: prod.splits if_splits)
    (use assms(1) in \<open>auto simp: idle_node_def no_nodes_def\<close>)

lemma idle_init:
  assumes "idle_node rf" and "Raft_init env rf = Inr (ret, rf')"
  shows "idle_node rf'"
proof -
  obtain r rf1 where i: "initClusterConfiguration env rf = Inr (r, rf1)"
    using assms(2) by (auto simp: Raft_init_def and_then_Inr)
  have 1: "idle_node rf1" using initClusterConfiguration_frame [OF i] assms(1) by (rule idle_scan)
  obtain r v rf2 where g: "log_get env c_currentTermKey rf1 = ((r, v), rf2)" by (metis surj_pair)
  have "idle_node rf2" using log_get_frame [of env c_currentTermKey rf1] g 1 by (simp add: idle_log)
  then show ?thesis
    using assms(2) i g 1
    by (auto simp: Raft_init_def initState_def PersistentState_init_def getCurrentTerm_def
        idle_node_def no_nodes_def split: if_splits)
qed

lemma idle_tick:
  assumes "idle_node (fst node)" and "election_tick env now t1 t2 node = Inr node'"
  shows "idle_node (fst node')"
proof -
  obtain rf svc where n: "node = (rf, svc)" by force
  show ?thesis
    using assms startElection_keeps_idle [of rf env t1 svc] unfolding n
    by (auto simp: election_tick_def and_then_Inr idle_node_def split: node_identity.splits if_splits)
qed

text \<open>What a vote request does to the node: at most the end index is read.\<close>

lemma handleRequestVote_result:
  assumes "handleRequestVoteMessage env from msg (rf, svc) = Inr (ret, rf', svc')"
  shows "stmc_log.more rf' = stmc_log.more rf \<and>
    (if fst (ps_currentTerm 0 rf) \<noteq> 0 then ret = -1 \<and> svc' = svc
     else (ret = 0 \<and> svc' = svc) \<or>
       (\<exists>r. sendMessageToNode env from (M_RequestVoteReply \<lparr>rr_term = 0, rr_voteGranted = False\<rparr>) svc = Inr (r, svc') \<and>
          ret = (if r \<noteq> 0 then -1 else 0)))"
proof -
  obtain n rf1 where e: "log_endIndex env rf = (n, rf1)" by force
  have "stmc_log.more rf1 = stmc_log.more rf" using log_endIndex_frame [of env rf] e by simp
  then show ?thesis
    using assms e
    by (auto simp: handleRequestVoteMessage_def ps_currentTerm_def and_then_Inr Let_def split: if_splits)
qed

lemma idle_message:
  assumes "idle_node (fst node)" and "raft_handleMessage env from data node = Inr (ret, node')"
  shows "idle_node (fst node')"
proof -
  obtain rf svc where n: "node = (rf, svc)" by force
  obtain rf' svc' where n': "node' = (rf', svc')" by force
  have "stmc_log.more rf' = stmc_log.more rf"
    using assms(2) unfolding n n'
    by (auto simp: raft_handleMessage_def and_then_Inr Let_def dest!: handleRequestVote_result split: if_splits)
  then show ?thesis using assms(1) unfolding n n' by (simp add: idle_log)
qed

lemma raft_reachable_idle: "raft_reachable env node \<Longrightarrow> idle_node (fst node)"
proof (induction rule: raft_reachable.induct)
  case (start n db svc)
  show ?case by (simp add: idle_node_def no_nodes_def Raft_new_def)
next
  case (thread rf svc now timeout)
  then show ?case by (simp add: initElectionThread_def idle_node_def no_nodes_def)
next
  case (init rf svc ret rf')
  then show ?case using idle_init by simp blast
qed (auto intro: idle_tick idle_message)

text \<open>
  C36: A node never becomes a candidate, let alone a leader.  In every state a node reaches through
  initialisation, messages and turns of its election thread it is a follower that has voted for nobody,
  and an election it starts sends nothing: it returns -1 when the storage refuses the new term, runs off
  the empty map of configurations, or dereferences the null pointer of its own cluster node, which no
  code creates.
\<close>

theorem raft_never_elects:
  assumes "raft_reachable env (rf, svc)"
  shows "rf_identity rf = Follower \<and> rf_voteFor rf = [] \<and>
    startElection env timeout (rf, svc) =
      (case increaseTerm env rf of (ret, rf1) \<Rightarrow>
         if ret \<noteq> 0 then Inr (-1, rf1, svc)
         else if rf_configurations rf = [] then Inl OutOfBounds else Inl NullDeref)"
  using raft_reachable_idle [OF assms] startElection_idle [of rf env timeout svc]
  by (simp add: idle_node_def)

definition ex_raft_svc :: p2p_service where
  "ex_raft_svc = P2PService_new 2 ''a'' (HostEndPointInfo ''h'' 1) HostsInfoManager_new"

lemma raft_never_elects_witness:
  "startElection ex_raft_env 200 (Raft_new ''a'' [], ex_raft_svc) = Inl OutOfBounds"
  using raft_never_elects [OF raft_reachable.start [of ex_raft_env "''a''" "[]" ex_raft_svc], of 200]
    increaseTerm_contract [OF ex_raft_contract, of "Raft_new ''a'' []"]
  by (simp add: split_beta Raft_new_def)

lemma sendModuleMessage_result:
  "sendModuleMessageByNodeId n m data svc = Inr (r, svc') \<Longrightarrow> r = 0 \<or> r = -1"
  by (auto simp: sendModuleMessageByNodeId_def and_then_Inr split: option.splits if_splits)

abbreviation (input) rejection :: raft_message where
  "rejection \<equiv> M_RequestVoteReply \<lparr>rr_term = 0, rr_voteGranted = False\<rparr>"

text \<open>
  C34: No vote request is ever granted.  A message that is not a request changes nothing.  A request to a
  node whose term has a low half other than zero fails unanswered, since \<^verbatim>\<open>currentTerm\<close> returns the term
  where its caller expects a result code.  With such a term of zero the node keeps silent or sends one
  rejection of term 0 to the sender.  No request makes the node remember a vote.
\<close>

theorem raft_never_grants:
  assumes "raft_handleMessage env from data (rf, svc) = Inr (ret, rf', svc')"
  shows "rf_voteFor rf' = rf_voteFor rf \<and>
    (if rp_messageType (snd (pb_parse (pb_raftPack env) data)) \<noteq> c_RequestVote
     then ret = 0 \<and> rf' = rf \<and> svc' = svc
     else if sint (int_of_size (rf_currentTerm rf)) \<noteq> 0 then ret = -1 \<and> svc' = svc
     else ret = 0 \<and> svc' = svc \<or> sendMessageToNode env from rejection svc = Inr (ret, svc'))"
proof (cases "rp_messageType (snd (pb_parse (pb_raftPack env) data)) = c_RequestVote")
  case True
  then obtain r msg where h: "handleRequestVoteMessage env from msg (rf, svc) = Inr (r, rf', svc')"
    and ret: "ret = (if r \<noteq> 0 then -1 else 0)"
    using assms by (auto simp: raft_handleMessage_def and_then_Inr Let_def)
  note res = handleRequestVote_result [OF h]
  then have "rf_voteFor rf' = rf_voteFor rf" by (simp add: raft_more_eq)
  moreover have "sendMessageToNode env from rejection svc = Inr (q, svc') \<Longrightarrow> q = (if q \<noteq> 0 then -1 else 0)" for q
    using sendModuleMessage_result [of "from" M_raft _ svc q svc'] by (auto simp: sendMessageToNode_def)
  ultimately show ?thesis using res ret True by (auto simp: ps_currentTerm_def split: if_splits)
next
  case False
  then show ?thesis using assms by (simp add: raft_handleMessage_def Let_def)
qed

lemma raft_never_grants_witness:
  "raft_handleMessage ex_raft_env ''b'' [0] (ex_raft [], ex_raft_svc) = Inr (-1, ex_raft [], ex_raft_svc) \<and>
   sendMessageToNode ex_raft_env ''b'' rejection ex_raft_svc = Inr (-1, ex_raft_svc)"
proof -
  have s: "sendModuleMessageByNodeId ''b'' M_raft [0] ex_raft_svc = Inr (-1, ex_raft_svc)"
    by (simp add: sendModuleMessageByNodeId_def encode_module_bytes ex_raft_svc_def P2PService_new_def
        getSessionId_def HostsInfoManager_new_def)
  have h: "raft_handleMessage ex_raft_env ''b'' [0] (ex_raft [], ex_raft_svc) = Inr (-1, ex_raft [], ex_raft_svc)"
    using s by (simp add: raft_handleMessage_def handleRequestVoteMessage_def ps_currentTerm_def Let_def
        sendMessageToNode_def encode_raft_message_def log_endIndex_def ex_raft_def Raft_new_def ex_raft_env_def
        c_RequestVote_def RequestVote_new_def int_of_size_def)
  then show ?thesis
    using raft_never_grants [OF h]
    by (simp add: ex_raft_env_def c_RequestVote_def ex_raft_def Raft_new_def int_of_size_def)
qed

text \<open>A node handles messages one after the other; a service sends the same message repeatedly.\<close>

fun handle_all :: "'d raft_env \<Rightarrow> node_id \<Rightarrow> u8 list list \<Rightarrow> 'd raft_node \<Rightarrow> 'd raft_node run" where
  "handle_all env from [] node = Inr node"
| "handle_all env from (m # ms) node =
     and_then (raft_handleMessage env from m node) (\<lambda>(_, node1). handle_all env from ms node1)"

fun send_times :: "nat \<Rightarrow> node_id \<Rightarrow> u8 list \<Rightarrow> p2p_service \<Rightarrow> p2p_service run" where
  "send_times 0 n data svc = Inr svc"
| "send_times (Suc k) n data svc =
     and_then (sendModuleMessageByNodeId n M_raft data svc) (\<lambda>(_, svc1). send_times k n data svc1)"

lemma rejection_echo_once:
  assumes "pb_parse (pb_raftPack env) (encode_raft_message env rejection) =
      (True, \<lparr>rp_messageType = c_RequestVote, rp_payload = message_bytes env rejection\<rparr>)"
    and "pb_parse (pb_requestVote env) (message_bytes env rejection) = (True, RequestVote_new)"
    and "sint (int_of_size (rf_currentTerm rf)) = 0" and "m_endIndex rf \<noteq> 0"
  shows "raft_handleMessage env from (encode_raft_message env rejection) (rf, svc) =
    and_then (sendModuleMessageByNodeId from M_raft (encode_raft_message env rejection) svc)
      (\<lambda>(ret, svc1). Inr (if ret \<noteq> 0 then -1 else 0, rf, svc1))"
proof -
  have e: "log_endIndex env rf = (m_endIndex rf, rf)" using assms(4) by (simp add: log_endIndex_def)
  have "0 < m_endIndex rf" using assms(4) by (simp add: word_neq_0_conv)
  then show ?thesis
    using assms(1,2,3) e
    by (cases "sendModuleMessageByNodeId from M_raft (encode_raft_message env rejection) svc")
      (auto simp: raft_handleMessage_def handleRequestVoteMessage_def ps_currentTerm_def Let_def
        RequestVote_new_def sendMessageToNode_def)
qed

text \<open>
  Two nodes never stop rejecting each other.  A rejection is encoded with the type of a request, and
  decodes to a request with an empty log: a node of term 0 with a log answers it with the same
  rejection.  So \<open>k\<close> rejections received are \<open>k\<close> rejections sent, and every exchange goes on for ever.
\<close>

theorem rejections_never_stop:
  assumes "pb_parse (pb_raftPack env) (encode_raft_message env rejection) =
      (True, \<lparr>rp_messageType = c_RequestVote, rp_payload = message_bytes env rejection\<rparr>)"
    and "pb_parse (pb_requestVote env) (message_bytes env rejection) = (True, RequestVote_new)"
    and "sint (int_of_size (rf_currentTerm rf)) = 0" and "m_endIndex rf \<noteq> 0"
  shows "handle_all env from (replicate k (encode_raft_message env rejection)) (rf, svc) =
    and_then (send_times k from (encode_raft_message env rejection) svc) (\<lambda>svc1. Inr (rf, svc1))"
proof (induction k arbitrary: svc)
  case (Suc k)
  then show ?case
    by (cases "sendModuleMessageByNodeId from M_raft (encode_raft_message env rejection) svc")
      (auto simp: rejection_echo_once [OF assms])
qed simp

lemma rejections_never_stop_witness:
  "handle_all ex_raft_env ''b'' (replicate 9 (encode_raft_message ex_raft_env rejection)) (ex_raft [], ex_raft_svc) =
   and_then (send_times 9 ''b'' (encode_raft_message ex_raft_env rejection) ex_raft_svc) (\<lambda>svc1. Inr (ex_raft [], svc1))"
proof (rule rejections_never_stop)
  show "pb_parse (pb_raftPack ex_raft_env) (encode_raft_message ex_raft_env rejection) =
      (True, \<lparr>rp_messageType = c_RequestVote, rp_payload = message_bytes ex_raft_env rejection\<rparr>)"
    by (simp add: ex_raft_env_def encode_raft_message_def c_RequestVote_def)
  show "pb_parse (pb_requestVote ex_raft_env) (message_bytes ex_raft_env rejection) = (True, RequestVote_new)"
    by (simp add: ex_raft_env_def)
qed (simp_all add: ex_raft_def Raft_new_def int_of_size_def)

end
