(* ===== verification/Server.thy ===== *)
theory Server
  imports P2P
begin

text \<open>
  \<^verbatim>\<open>ServerService\<close>, the service of the TCP RPC server: sessions are accepted, watched and closed as in
  \<^verbatim>\<open>P2PService\<close>, but there are no nodes; heartbeats are answered, and every other packet goes to the handler
  registered by the owner.  Its state is that of the peer-to-peer service without the node tables, and
  the packets handed to the owner's handler.
\<close>

section \<open>The service\<close>

record server_service =
  ss_parts :: p2p_service
  ss_hasHandler :: bool
  ss_handled :: "(session_id \<times> packet) list"

definition ServerService_new :: "nat \<Rightarrow> server_service" where
  "ServerService_new n =
     \<lparr>ss_parts = P2PService_new n [] (HostEndPointInfo [] 0) HostsInfoManager_new,
      ss_hasHandler = False, ss_handled = []\<rparr>"

definition registerPacketHandler :: "server_service \<Rightarrow> server_service" where
  "registerPacketHandler sv = sv\<lparr>ss_hasHandler := True\<rparr>"

text \<open>\<^verbatim>\<open>SlaveReactor::sendData\<close> on a session, which need not be in the reactor's table.\<close>

definition sr_sendSession :: "p2p_session \<Rightarrow> u8 list \<Rightarrow> reactor \<Rightarrow> int \<times> reactor" where
  "sr_sendSession s data r =
     (if length data > unat c_p2pSessionWriteBufferSize then (-1, r)
      else if ps_isWaitingDisconnect s then (-1, r)
      else (0, r\<lparr>sr_sendTasks := sr_sendTasks r @ [(ps_sessionId s, data)]\<rparr>))"

text \<open>
  The acceptor's callback, run by the dispatching thread between the choice of the reactor and its count.
  The session is moved into one argument of \<^verbatim>\<open>addSession\<close> and captured by the lambda that is the other;
  the language does not say which happens first.  \<open>moved_first\<close> is the compiler's choice: when it is true
  the lambda holds a null pointer, which its first line follows.
\<close>

definition server_newClient :: "bool \<Rightarrow> bool \<Rightarrow> p2p_session \<Rightarrow> p2p_service \<Rightarrow> p2p_service run" where
  "server_newClient moved_first epoll_ok s st =
     and_then (dispatch_index (ps_sessionId s) (sv_dispatcher st)) (\<lambda>(index, d1).
       if moved_first then Inl NullDeref else (let st1 = (set_session s st)\<lparr>sv_dispatcher := d1\<rparr>
        in case slaveReactor index st1 of
             None \<Rightarrow> Inl AssertFailed
           | Some r \<Rightarrow>
               (let (ret, r') = sr_addSession epoll_ok (ps_sessionId s) r;
                    st2 = (if ret = -1 then release (ps_sessionId s) st1
                           else (let st3 = set_session (s\<lparr>ps_slaveReactorIndex := index\<rparr>) (set_reactor index r' st1)
                                 in st3\<lparr>sv_alive := snd (alive_addSession (ps_sessionId s) (ps_sessionId s) (sv_alive st3))\<rparr>))
                in and_then (dispatch_count index (sv_dispatcher st2)) (\<lambda>d2. Inr (st2\<lparr>sv_dispatcher := d2\<rparr>)))))"

text \<open>The destroy handler.  It logs a session that is gone through the null pointer.\<close>

definition server_destroyHandler :: "bool \<Rightarrow> destroy_info \<Rightarrow> p2p_service \<Rightarrow> p2p_service run" where
  "server_destroyHandler epoll_ok info st =
     (case lock_session (di_session info) st of
        None \<Rightarrow> Inl NullDeref
      | Some s \<Rightarrow>
          (let s1 = s\<lparr>ps_isWaitingDisconnect := True\<rparr>;
               st1 = set_session s1 st;
               st2 = (if di_isFromAliveChecker info then st1
                      else st1\<lparr>sv_alive := snd (alive_removeSession (ps_sessionId s1) (sv_alive st1))\<rparr>)
           in case slaveReactor (ps_slaveReactorIndex s1) st2 of
                None \<Rightarrow> Inl NullDeref
              | Some r \<Rightarrow>
                  (let st3 = set_reactor (ps_slaveReactorIndex s1)
                         (snd (sr_removeClient epoll_ok (ps_sessionId s1) r)) st2;
                       st4 = st3\<lparr>sv_dispatcher :=
                         snd (removeSessionIdSlaveReactorRelation (ps_sessionId s1) (sv_dispatcher st3))\<rparr>
                   in Inr (release (ps_sessionId s1) st4))))"

definition server_onHeartBeat :: "session_id \<Rightarrow> p2p_service \<Rightarrow> (int \<times> p2p_service) run" where
  "server_onHeartBeat sid st =
     (case lock_session sid st of
        None \<Rightarrow> Inr (-1, st)
      | Some s \<Rightarrow>
          (let s1 = refreshHeartbeat s;
               st1 = set_session s1 st
           in case slaveReactor (ps_slaveReactorIndex s1) st1 of
                None \<Rightarrow> Inl AssertFailed
              | Some r \<Rightarrow>
                  and_then (encode_empty PT_HeartBeatReply) (\<lambda>buffer.
                    (let (ret, r') = sr_sendSession s1 buffer r
                     in Inr (ret, set_reactor (ps_slaveReactorIndex s1) r' st1)))))"

text \<open>The decoder's packet callback: heartbeats are queued, the rest is handed over at once.\<close>

definition server_route :: "session_id \<Rightarrow> packet \<Rightarrow> server_service \<Rightarrow> server_service" where
  "server_route sid p sv =
     (if header_type (fst p) = PT_HeartBeat
      then sv\<lparr>ss_parts := (ss_parts sv)\<lparr>sv_serviceQueue := sv_serviceQueue (ss_parts sv) @ [(sid, p)]\<rparr>\<rparr>
      else if ss_hasHandler sv then sv\<lparr>ss_handled := ss_handled sv @ [(sid, p)]\<rparr> else sv)"

definition server_turn :: "p2p_service \<Rightarrow> p2p_service run" where
  "server_turn st =
     (case sv_serviceQueue st of
        [] \<Rightarrow> Inr st
      | (sid, p) # rest \<Rightarrow>
          (let st1 = st\<lparr>sv_serviceQueue := rest\<rparr>
           in if header_type (fst p) = PT_HeartBeat
              then and_then (server_onHeartBeat sid st1) (\<lambda>(_, st2). Inr st2) else Inr st1))"

definition server_destroy_next :: "bool \<Rightarrow> p2p_service \<Rightarrow> p2p_service run" where
  "server_destroy_next epoll_ok st =
     (case destroyer_pop (sv_destroyer st) of
        None \<Rightarrow> Inr st
      | Some (info, rest) \<Rightarrow> server_destroyHandler epoll_ok info (st\<lparr>sv_destroyer := rest\<rparr>))"

section \<open>Steps\<close>

datatype server_event =
    S_Accepted bool bool p2p_session
  | S_Register
  | S_Arrived session_id packet
  | S_ServiceTurn
  | S_PeerLost session_id
  | S_AliveTick
  | S_DestroyTurn bool
  | S_TasksDone nat

definition on_parts :: "(p2p_service \<Rightarrow> p2p_service run) \<Rightarrow> server_service \<Rightarrow> server_service run" where
  "on_parts f sv = and_then (f (ss_parts sv)) (\<lambda>st. Inr (sv\<lparr>ss_parts := st\<rparr>))"

fun server_step :: "server_event \<Rightarrow> server_service \<Rightarrow> server_service run" where
  "server_step (S_Accepted mv ok s) sv = on_parts (server_newClient mv ok s) sv"
| "server_step S_Register sv = Inr (registerPacketHandler sv)"
| "server_step (S_Arrived sid p) sv = Inr (server_route sid p sv)"
| "server_step S_ServiceTurn sv = on_parts server_turn sv"
| "server_step (S_PeerLost sid) sv = on_parts (\<lambda>st. Inr (disconnectHandler sid st)) sv"
| "server_step S_AliveTick sv = on_parts (\<lambda>st. Inr (alive_tick st)) sv"
| "server_step (S_DestroyTurn ok) sv = on_parts (server_destroy_next ok) sv"
| "server_step (S_TasksDone i) sv = on_parts (\<lambda>st. Inr (tasks_done i st)) sv"

inductive server_reachable :: "server_service \<Rightarrow> bool" where
  server_start: "2 \<le> n \<Longrightarrow> server_reachable (ServerService_new n)"
| server_next: "server_reachable sv \<Longrightarrow> server_step e sv = Inr sv' \<Longrightarrow>
    (\<forall>mv ok s. e = S_Accepted mv ok s \<longrightarrow> map_of (sv_heap (ss_parts sv)) (ps_sessionId s) = None) \<Longrightarrow>
    server_reachable sv'"

section \<open>The parts it shares with the peer-to-peer service\<close>

text \<open>Where the reactor of the choice exists, accepting is what \<^verbatim>\<open>P2PService\<close> does.\<close>

lemma server_newClient_eq:
  assumes "svc_ok st"
  shows "server_newClient False epoll_ok s st = newClientCallback epoll_ok s st"
proof -
  let ?d = "(sv_dispatcher st)\<lparr>sd_relation := AList.update (ps_sessionId s) 0 (sd_relation (sv_dispatcher st))\<rparr>"
  have "slaveReactor 0 ((set_session s st)\<lparr>sv_dispatcher := ?d\<rparr>) \<noteq> None"
    using svc_okD(4) [OF assms] by (simp add: slaveReactor_def set_session_def split: if_splits)
  then show ?thesis
    using dispatch_index_ok [OF svc_okD(1) [OF assms], of "ps_sessionId s"]
    by (auto simp: server_newClient_def newClientCallback_def Let_def)
qed

lemma server_newClient_moved:
  "svc_ok st \<Longrightarrow> server_newClient True epoll_ok s st = Inl NullDeref"
  using dispatch_index_ok [OF svc_okD(1), of st "ps_sessionId s"] by (auto simp: server_newClient_def)

text \<open>Closing a session is what \<^verbatim>\<open>P2PService\<close> does for a reply code that concerns no node.\<close>

lemma server_destroyHandler_eq:
  "server_destroyHandler epoll_ok info st = destroyHandler epoll_ok (info\<lparr>di_flag := -3\<rparr>) st"
  by (cases "lock_session (di_session info) st")
    (auto simp: server_destroyHandler_def destroyHandler_def disconnectClient_def Let_def cong: if_cong
      split: option.splits)

lemma reactor_ok_sendSession:
  assumes "reactor_ok heap r" and "map_of heap (ps_sessionId s) \<noteq> None"
  shows "reactor_ok heap (snd (sr_sendSession s data r))"
  using assms by (auto simp: sr_sendSession_def reactor_ok_def held_def)

lemma server_onHeartBeat_ok:
  assumes "svc_ok st"
  shows "\<exists>ret st'. server_onHeartBeat sid st = Inr (ret, st') \<and> svc_ok st'"
proof (cases "lock_session sid st")
  case None
  then show ?thesis using assms by (simp add: server_onHeartBeat_def)
next
  case (Some s)
  let ?s = "refreshHeartbeat s"
  have keep: "ps_slaveReactorIndex ?s = 0" "ps_sessionId ?s = sid"
    using session_keeps [OF assms Some] svc_okD(2) [OF assms] Some
    by (auto simp: refreshHeartbeat_def lock_session_def heap_ok_def)
  have ok: "svc_ok (set_session ?s st)" by (rule svc_ok_set_session [OF assms keep(1)])
  have "map_of (sv_heap (set_session ?s st)) (ps_sessionId ?s) \<noteq> None"
    by (simp add: set_session_def alist_simps)
  then have "svc_ok (set_reactor 0 (snd (sr_sendSession ?s data (sv_reactors (set_session ?s st) ! 0))) (set_session ?s st))" for data
    by (intro svc_ok_set_reactor [OF ok] reactor_ok_sendSession svc_okD(5) [OF ok])
  then show ?thesis
    using Some keep svc_okD(4) [OF ok]
    by (simp add: server_onHeartBeat_def encode_empty_bytes Let_def split_beta)
qed

lemma server_turn_safe: "svc_ok st \<Longrightarrow> safe (server_turn st)"
proof -
  assume ok: "svc_ok st"
  show ?thesis
  proof (cases "sv_serviceQueue st")
    case (Cons q rest)
    obtain sid p where q: "q = (sid, p)" by (cases q)
    obtain ret st' where "server_onHeartBeat sid (st\<lparr>sv_serviceQueue := rest\<rparr>) = Inr (ret, st')" "svc_ok st'"
      using server_onHeartBeat_ok [of "st\<lparr>sv_serviceQueue := rest\<rparr>" sid] ok by auto
    then show ?thesis using ok by (simp add: server_turn_def Cons q Let_def)
  qed (simp add: server_turn_def ok)
qed

lemma server_destroy_faults:
  "svc_ok st \<Longrightarrow> faults_iff (destroy_fault st) (server_destroy_next ok st)"
proof (cases "sv_destroyer st")
  case (Cons info rest)
  assume svc: "svc_ok st"
  let ?st = "st\<lparr>sv_destroyer := rest\<rparr>"
  have l: "lock_session w ?st = lock_session w st" for w by (simp add: lock_session_def)
  show ?thesis
    using destroyHandler_result [of ?st "info\<lparr>di_flag := -3\<rparr>" _ ok] svc
    by (cases "lock_session (di_session info) st")
      (auto simp: faults_iff_def destroy_fault_def server_destroy_next_def destroyer_pop_def Cons l safe_def
        server_destroyHandler_eq destroyHandler_def)
qed (simp add: faults_iff_def destroy_fault_def server_destroy_next_def destroyer_pop_def)

definition server_fault :: "server_event \<Rightarrow> server_service \<Rightarrow> bool" where
  "server_fault e sv \<longleftrightarrow> (case e of S_DestroyTurn ok \<Rightarrow> destroy_fault (ss_parts sv)
      | S_Accepted mv ok s \<Rightarrow> mv
      | _ \<Rightarrow> False)"

text \<open>A step faults exactly in that case, and otherwise leaves the shared parts well formed.\<close>

lemma server_step_result:
  assumes "svc_ok (ss_parts sv)"
    and "\<And>mv ok s. e = S_Accepted mv ok s \<Longrightarrow> map_of (sv_heap (ss_parts sv)) (ps_sessionId s) = None"
  shows "if server_fault e sv then \<exists>f. server_step e sv = Inl f
    else \<exists>sv'. server_step e sv = Inr sv' \<and> svc_ok (ss_parts sv')"
proof (cases e)
  case (S_Accepted mv ok s)
  then show ?thesis
    using safe_newClient [OF assms(1) assms(2) [OF S_Accepted], of ok] server_newClient_eq [OF assms(1), of ok s]
      server_newClient_moved [OF assms(1), of ok s]
    by (cases mv) (auto simp: server_fault_def on_parts_def safe_def)
next
  case S_ServiceTurn
  then show ?thesis using server_turn_safe [OF assms(1)] by (auto simp: server_fault_def on_parts_def safe_def)
next
  case (S_DestroyTurn ok)
  then show ?thesis
    using server_destroy_faults [OF assms(1), of ok] by (auto simp: server_fault_def on_parts_def faults_iff_def safe_def)
qed (use assms(1) in \<open>simp_all add: server_fault_def on_parts_def registerPacketHandler_def server_route_def
      disconnectHandler_def queue_destroy_def svc_ok_aliveTick svc_ok_tasksDone\<close>)

lemma server_reachable_ok: "server_reachable sv \<Longrightarrow> svc_ok (ss_parts sv)"
proof (induction rule: server_reachable.induct)
  case (server_next sv e sv')
  then show ?case using server_step_result [of sv e] by (auto split: if_splits)
qed (simp add: ServerService_new_def svc_ok_new)

text \<open>
  The server crashes in exactly two situations.  In every state it reaches with at least two reactors,
  a step faults if and only if the destroying thread takes up a session that is already gone, or a client
  is accepted by a build whose compiler moves the session before the lambda captures it; heartbeats,
  packets of any kind, lost peers, the watchdog and sending never fault.
\<close>

theorem server_faults_exactly:
  assumes "server_reachable sv"
    and "\<And>mv ok s. e = S_Accepted mv ok s \<Longrightarrow> map_of (sv_heap (ss_parts sv)) (ps_sessionId s) = None"
  shows "(\<exists>f. server_step e sv = Inl f) \<longleftrightarrow> server_fault e sv"
proof -
  have "if server_fault e sv then \<exists>f. server_step e sv = Inl f
    else \<exists>sv'. server_step e sv = Inr sv' \<and> svc_ok (ss_parts sv')"
    by (rule server_step_result [OF server_reachable_ok [OF assms(1)]]) (rule assms(2))
  then show ?thesis by (auto split: if_splits)
qed

text \<open>Two destroy orders for one session: the peer is lost and, independently, lost again.\<close>

fun server_run :: "server_event list \<Rightarrow> server_service \<Rightarrow> server_service option" where
  "server_run [] sv = Some sv"
| "server_run (e # es) sv =
     (case server_step e sv of Inl f \<Rightarrow> None
      | Inr sv' \<Rightarrow> if (case e of S_Accepted mv ok s \<Rightarrow> map_of (sv_heap (ss_parts sv)) (ps_sessionId s) = None | _ \<Rightarrow> True)
                  then server_run es sv' else None)"

lemma server_run_reachable: "server_reachable sv \<Longrightarrow> server_run es sv = Some sv' \<Longrightarrow> server_reachable sv'"
proof (induction es sv rule: server_run.induct)
  case (2 e es sv)
  then obtain sv1 where e: "server_step e sv = Inr sv1" and r: "server_run es sv1 = Some sv'"
    and a: "case e of S_Accepted mv ok s \<Rightarrow> map_of (sv_heap (ss_parts sv)) (ps_sessionId s) = None | _ \<Rightarrow> True"
    by (auto split: sum.splits if_splits)
  have "server_reachable sv1" by (rule server_next [OF "2.prems"(1) e]) (use a in auto)
  then show ?case using "2.IH" [OF e a] r by blast
qed simp

definition ex_lost_twice :: "server_event list" where
  "ex_lost_twice = [S_Accepted False True (ex_accepted 1), S_PeerLost 1, S_PeerLost 1, S_DestroyTurn True]"

lemma server_faults_exactly_witness:
  "\<exists>sv. server_run ex_lost_twice (ServerService_new 2) = Some sv \<and>
     (\<exists>f. server_step (S_DestroyTurn True) sv = Inl f) \<and> (\<exists>f. server_step (S_Accepted True True (ex_accepted 2)) sv = Inl f) \<and>
     \<not> (\<exists>f. server_step S_AliveTick sv = Inl f)"
proof -
  have "case server_run ex_lost_twice (ServerService_new 2) of
      Some sv \<Rightarrow> server_fault (S_DestroyTurn True) sv \<and>
        map_of (sv_heap (ss_parts sv)) (ps_sessionId (ex_accepted 2)) = None | None \<Rightarrow> False"
    by code_simp
  then obtain sv where r: "server_run ex_lost_twice (ServerService_new 2) = Some sv"
    and f: "server_fault (S_DestroyTurn True) sv"
    and n: "map_of (sv_heap (ss_parts sv)) (ps_sessionId (ex_accepted 2)) = None"
    by (auto split: option.splits)
  have "server_reachable sv" by (rule server_run_reachable [OF server_start r]) simp
  then show ?thesis
    using server_faults_exactly [of sv "S_DestroyTurn True"] server_faults_exactly [of sv S_AliveTick]
      server_faults_exactly [of sv "S_Accepted True True (ex_accepted 2)"] f n r
    by (simp add: server_fault_def)
qed

end
