(* ===== verification/Workers.thy ===== *)
theory Workers
  imports Prelude "HOL-Library.Sublist"
begin

text \<open>
  The thread pool of \<^verbatim>\<open>csm-utilities/ThreadPool.cpp\<close>, which runs the jobs of the decoder and of the module
  processor.  A task is the value of type \<open>'a\<close> it was pushed with; a worker takes it off the queue and
  runs it.
\<close>

section \<open>State and operations\<close>

text \<open>
  \<open>tp_threads\<close> holds for every thread object ever made whether it can still be joined, and \<open>tp_done\<close> the
  tasks that have been run, in the order they were taken.
\<close>

record 'a thread_pool =
  tp_threadNum :: u64
  tp_isTerminate :: bool
  tp_threads :: "bool list"
  tp_tasks :: "'a list"
  tp_done :: "'a list"

definition ThreadPool_new :: "u64 \<Rightarrow> 'a thread_pool" where
  "ThreadPool_new threadNum =
     \<lparr>tp_threadNum = threadNum, tp_isTerminate = False, tp_threads = [], tp_tasks = [], tp_done = []\<rparr>"

definition pool_start :: "'a thread_pool \<Rightarrow> int \<times> 'a thread_pool" where
  "pool_start p =
     (if tp_threadNum p < 1 then (-1, p)
      else (0, p\<lparr>tp_isTerminate := False,
        tp_threads := tp_threads p @ replicate (unat (tp_threadNum p)) True\<rparr>))"

text \<open>Joining a thread twice throws; the threads before it have been joined by then.\<close>

definition pool_stop :: "'a thread_pool \<Rightarrow> (int \<times> 'a thread_pool) run" where
  "pool_stop p =
     (if tp_isTerminate p then Inr (0, p)
      else if list_all id (tp_threads p)
      then Inr (0, p\<lparr>tp_isTerminate := True, tp_threads := map (\<lambda>t. False) (tp_threads p)\<rparr>)
      else Inl Uncaught)"

definition pool_push :: "'a \<Rightarrow> 'a thread_pool \<Rightarrow> 'a thread_pool" where
  "pool_push task p = p\<lparr>tp_tasks := tp_tasks p @ [task]\<rparr>"

text \<open>One round of a worker, if there is one and it is not told to end.\<close>

definition pool_work :: "'a thread_pool \<Rightarrow> 'a thread_pool" where
  "pool_work p =
     (if tp_isTerminate p \<or> \<not> list_ex id (tp_threads p) then p
      else case tp_tasks p of [] \<Rightarrow> p
        | task # rest \<Rightarrow> p\<lparr>tp_tasks := rest, tp_done := tp_done p @ [task]\<rparr>)"

section \<open>Runs\<close>

datatype 'a pool_event = P_Start | P_Stop | P_Push 'a | P_Work

fun pool_step :: "'a pool_event \<Rightarrow> 'a thread_pool \<Rightarrow> 'a thread_pool run" where
  "pool_step P_Start p = Inr (snd (pool_start p))"
| "pool_step P_Stop p = and_then (pool_stop p) (\<lambda>(_, p'). Inr p')"
| "pool_step (P_Push t) p = Inr (pool_push t p)"
| "pool_step P_Work p = Inr (pool_work p)"

fun pool_run :: "'a pool_event list \<Rightarrow> 'a thread_pool \<Rightarrow> 'a thread_pool run" where
  "pool_run [] p = Inr p"
| "pool_run (e # es) p = and_then (pool_step e p) (pool_run es)"

definition pushed :: "'a pool_event list \<Rightarrow> 'a list" where
  "pushed es = concat (map (\<lambda>e. case e of P_Push t \<Rightarrow> [t] | _ \<Rightarrow> []) es)"

section \<open>Every task is run once, in order\<close>

lemma pool_step_tasks:
  assumes "pool_step e p = Inr p'"
  shows "tp_done p' @ tp_tasks p' = tp_done p @ tp_tasks p @ pushed [e]" and "tp_threadNum p' = tp_threadNum p"
    and "\<exists>more. tp_done p' = tp_done p @ more"
  using assms
  by (cases e; auto simp: pool_start_def pool_stop_def pool_push_def pool_work_def pushed_def and_then_Inr
      split: if_splits list.splits)+

text \<open>
  Tasks are neither lost nor repeated nor reordered.  Whatever the pool is told to do, the tasks that have
  been run followed by those in the queue are the tasks pushed, in that order.  In particular stopping
  discards nothing, although the comment on \<^verbatim>\<open>stop\<close> says that waiting tasks are dropped: they are run
  after the next start.
\<close>

theorem pool_tasks_conserved:
  assumes "pool_run es (ThreadPool_new n) = Inr p"
  shows "tp_done p @ tp_tasks p = pushed es"
proof -
  have "tp_done p @ tp_tasks p = tp_done q @ tp_tasks q @ pushed es" if "pool_run es q = Inr p" for q
    using that
  proof (induction es arbitrary: q)
    case (Cons e es)
    obtain q' where q: "pool_step e q = Inr q'" "pool_run es q' = Inr p"
      using Cons.prems by (auto simp: and_then_Inr)
    then show ?case using Cons.IH [OF q(2)] pool_step_tasks(1) [OF q(1)] by (simp add: pushed_def)
  qed (simp add: pushed_def)
  from this [OF assms] show ?thesis by (simp add: ThreadPool_new_def)
qed

definition ex_pool_events :: "nat pool_event list" where
  "ex_pool_events = [P_Push 1, P_Start, P_Push 2, P_Work, P_Stop, P_Work, P_Push 3, P_Start, P_Work]"

lemma pool_tasks_conserved_witness:
  "\<exists>p. pool_run ex_pool_events (ThreadPool_new 1) = Inr p \<and> tp_done p = [1, 2] \<and> tp_done p @ tp_tasks p = [1, 2, 3]"
proof -
  obtain p where p: "pool_run ex_pool_events (ThreadPool_new 1) = Inr p" "tp_done p = [1, 2]"
    by (simp add: ex_pool_events_def ThreadPool_new_def pool_start_def pool_stop_def pool_push_def pool_work_def)
  moreover have "pushed ex_pool_events = [1, 2, 3]" by (simp add: pushed_def ex_pool_events_def)
  ultimately show ?thesis using pool_tasks_conserved [OF p(1)] by auto
qed

section \<open>Starting and stopping\<close>

text \<open>
  The life of a pool with at least one thread: no thread yet, running, stopped, and started again, when
  it holds both joined and running threads.
\<close>

fun pool_phase :: "nat \<Rightarrow> 'a thread_pool \<Rightarrow> bool" where
  "pool_phase 0 p \<longleftrightarrow> tp_threads p = []"
| "pool_phase (Suc 0) p \<longleftrightarrow> tp_threads p \<noteq> [] \<and> list_all id (tp_threads p) \<and> \<not> tp_isTerminate p"
| "pool_phase (Suc (Suc 0)) p \<longleftrightarrow> tp_threads p \<noteq> [] \<and> \<not> list_ex id (tp_threads p) \<and> tp_isTerminate p"
| "pool_phase _ p \<longleftrightarrow> \<not> list_all id (tp_threads p) \<and> \<not> tp_isTerminate p"

definition restart :: "'a pool_event list" where
  "restart = [P_Start, P_Stop, P_Start, P_Stop]"

text \<open>The event that ends the phase \<open>k\<close> leads to the next, and no other changes the phase.\<close>

lemma pool_phase_step:
  assumes "pool_phase k p" and "k < 4" and "1 \<le> tp_threadNum p"
  shows "if e = restart ! k then (if k = 3 then pool_step e p = Inl Uncaught
      else \<exists>p'. pool_step e p = Inr p' \<and> pool_phase (Suc k) p')
    else \<exists>p'. pool_step e p = Inr p' \<and> pool_phase k p'"
proof -
  have n: "unat (tp_threadNum p) \<noteq> 0" "\<not> tp_threadNum p < 1" using assms(3) by (auto simp: unat_eq_zero)
  have k: "k = 0 \<or> k = Suc 0 \<or> k = Suc (Suc 0) \<or> k = Suc (Suc (Suc 0))" using assms(2) by arith
  have all: "list_all id ts \<longleftrightarrow> False \<notin> set ts" and ex: "list_ex id ts \<longleftrightarrow> True \<in> set ts" for ts
    by (induction ts) auto
  have joined: "\<not> list_ex id (map (\<lambda>t. False) ts)" for ts by (induction ts) simp_all
  have some: "ts \<noteq> [] \<Longrightarrow> True \<notin> set ts \<Longrightarrow> False \<in> set ts" for ts by (cases ts) (auto split: if_splits)
  show ?thesis
    using k assms(1) n
    by (elim disjE; cases e;
      simp add: restart_def pool_start_def pool_stop_def pool_push_def pool_work_def all ex some joined numeral_3_eq_3
        split: list.split)
qed

lemma pool_run_faults:
  "pool_phase k p \<Longrightarrow> k < 4 \<Longrightarrow> 1 \<le> tp_threadNum p \<Longrightarrow>
   (\<exists>f. pool_run es p = Inl f) \<longleftrightarrow> subseq (drop k restart) es"
proof (induction es arbitrary: k p)
  case Nil
  then show ?case by (auto simp: restart_def)
next
  case (Cons e es)
  have d: "drop k restart = restart ! k # drop (Suc k) (restart :: 'a pool_event list)"
    by (rule Cons_nth_drop_Suc [symmetric]) (use Cons.prems(2) in \<open>simp add: restart_def\<close>)
  note step = pool_phase_step [OF Cons.prems, of e]
  show ?case
  proof (cases "e = restart ! k \<and> k = 3")
    case True
    then show ?thesis using step d by (auto simp: restart_def)
  next
    case False
    then obtain p' k' where p': "pool_step e p = Inr p'" "pool_phase k' p'" "k' < 4"
      and k': "k' = (if e = restart ! k then Suc k else k)"
      using step Cons.prems(2) by (auto split: if_splits)
    have "1 \<le> tp_threadNum p'" using pool_step_tasks(2) [OF p'(1)] Cons.prems(3) by simp
    from Cons.IH [OF p'(2,3) this] show ?thesis using p'(1) k' d by (auto split: if_splits)
  qed
qed

lemma pool_idle:
  "tp_threadNum p = 0 \<Longrightarrow> tp_threads p = [] \<Longrightarrow> \<exists>p'. pool_run es p = Inr p' \<and> tp_done p' = tp_done p"
proof (induction es arbitrary: p)
  case (Cons e es)
  obtain p1 where p1: "pool_step e p = Inr p1" "tp_threadNum p1 = 0" "tp_threads p1 = []" "tp_done p1 = tp_done p"
    using Cons.prems by (cases e; cases "tp_isTerminate p") (simp_all add: pool_start_def pool_stop_def pool_push_def pool_work_def)
  show ?case using Cons.IH [OF p1(2,3)] p1(1,4) by auto
qed simp

text \<open>
  A pool ends the process exactly when it is stopped a second time.  In a pool of at least one thread
  some operation throws if and only if start, stop, start and stop occur in this order among the
  operations: \<^verbatim>\<open>stop\<close> keeps the threads it has joined, and joins them again.  A pool of no threads never
  throws and never runs a task, and the \<^verbatim>\<open>-1\<close> of its \<^verbatim>\<open>start\<close> is not looked at by its two owners.
\<close>

theorem pool_faults_exactly:
  "(\<exists>f. pool_run es (ThreadPool_new n) = Inl f) \<longleftrightarrow> 1 \<le> n \<and> subseq [P_Start, P_Stop, P_Start, P_Stop] es"
proof (cases "1 \<le> n")
  case True
  then show ?thesis
    using pool_run_faults [of 0 "ThreadPool_new n" es] by (simp add: ThreadPool_new_def restart_def)
next
  case False
  then have "n = 0" by (metis linorder_not_le word_less_1)
  then show ?thesis using pool_idle [of "ThreadPool_new n" es] by (auto simp: ThreadPool_new_def)
qed

end
