(* ===== verification/NodeConf.thy ===== *)
theory NodeConf
  imports StmcLog
begin

text \<open>
  The node configuration of \<^verbatim>\<open>csm-tool/NodeConfig.cpp\<close>.  The INI parser and the JSON reader are
  parameters: the first is seen through the sections it makes of the file, the second as in \<open>StmcLog\<close>.
\<close>

section \<open>State\<close>

datatype log_type = Log_Trace | Log_Debug | Log_Info | Log_Warning | Log_Error

type_synonym ini = "(string, (string, string) umap) umap"

record node_config =
  nc_configDir :: string
  nc_nodeId :: node_id
  nc_clusterServerIds :: "node_id list"
  nc_minRandomVoteTimeout :: u32
  nc_maxRandomVoteTimeout :: u32
  nc_httpRpcIp :: string
  nc_httpRpcPort :: u16
  nc_tcpRpcIp :: string
  nc_tcpRpcPort :: u16
  nc_p2pIp :: string
  nc_p2pPort :: u16
  nc_nodesFile :: string
  nc_sessionDataDecodeWorkerNum :: u64
  nc_moduleDataProcessWorkerNum :: u64
  nc_routingAlgorithm :: string
  nc_slaveReactorNum :: u64
  nc_redispatchInterval :: u64
  nc_enableFileLog :: bool
  nc_consoleOutput :: bool
  nc_logType :: log_type
  nc_logPath :: string

definition NodeConfig_new :: node_config where
  "NodeConfig_new =
     \<lparr>nc_configDir = [], nc_nodeId = [], nc_clusterServerIds = [], nc_minRandomVoteTimeout = 150,
      nc_maxRandomVoteTimeout = 300, nc_httpRpcIp = ''127.0.0.1'', nc_httpRpcPort = 8200,
      nc_tcpRpcIp = ''127.0.0.1'', nc_tcpRpcPort = 20200, nc_p2pIp = ''127.0.0.1'', nc_p2pPort = 30200,
      nc_nodesFile = ''nodes.json'', nc_sessionDataDecodeWorkerNum = 4, nc_moduleDataProcessWorkerNum = 8,
      nc_routingAlgorithm = ''distance_vector'', nc_slaveReactorNum = 8, nc_redispatchInterval = 50,
      nc_enableFileLog = True, nc_consoleOutput = False, nc_logType = Log_Info, nc_logPath = ''./logs''\<rparr>"

section \<open>Values\<close>

text \<open>
  \<^verbatim>\<open>getValue<T>\<close>; \<open>convert\<close> is \<^verbatim>\<open>convertFromString<T>\<close>, that is, the identity for strings, \<open>to_bool\<close> for
  \<^verbatim>\<open>bool\<close> and \<open>string_to_unsigned\<close> for the unsigned types, which leaves the uninitialised value
  \<open>junk\<close> when the text is blank.
\<close>

definition getValue :: "(string \<Rightarrow> 'a) \<Rightarrow> ini \<Rightarrow> string \<Rightarrow> string \<Rightarrow> 'a \<Rightarrow> 'a" where
  "getValue convert ini sectionName key defaultValue =
     (case map_of ini sectionName of
        None \<Rightarrow> defaultValue
      | Some entries \<Rightarrow> (case map_of entries key of None \<Rightarrow> defaultValue | Some v \<Rightarrow> convert v))"

definition to_bool :: "string \<Rightarrow> bool" where
  "to_bool v \<longleftrightarrow> v = ''true''"

abbreviation get_string :: "ini \<Rightarrow> string \<Rightarrow> string \<Rightarrow> string \<Rightarrow> string" where
  "get_string \<equiv> getValue (\<lambda>v. v)"

text \<open>
  \<^verbatim>\<open>s[0]\<close> of an empty string is the terminating zero, \<^verbatim>\<open>s.back()\<close> of one is undefined.  A path that does
  not begin with a slash, and does not end with one, is taken relative to the directory of the file.
\<close>

definition relative_to :: "string \<Rightarrow> string \<Rightarrow> string run" where
  "relative_to dir path =
     (if path \<noteq> [] \<and> hd path = CHR ''/'' then Inr path
      else if path = [] then Inl OutOfBounds
      else if last path = CHR ''/'' then Inr path
      else Inr (dir @ ''/'' @ path))"

section \<open>The sections\<close>

text \<open>The ids before one that is not a string are kept.\<close>

fun add_servers :: "json list \<Rightarrow> node_config \<Rightarrow> int \<times> node_config" where
  "add_servers [] c = (0, c)"
| "add_servers (v # vs) c =
     (case v of
        J_string s \<Rightarrow> add_servers vs
          (c\<lparr>nc_clusterServerIds := nc_clusterServerIds c @ [s]\<rparr>)
      | _ \<Rightarrow> (-1, c))"

definition parseClusterConfig :: "json_lib \<Rightarrow> ini \<Rightarrow> node_config \<Rightarrow> int \<times> node_config" where
  "parseClusterConfig js ini c =
     (let c1 = c\<lparr>nc_nodeId := get_string ini ''cluster'' ''id'' (nc_nodeId c)\<rparr>;
          servers = get_string ini ''cluster'' ''servers'' []
      in case js_parse js servers of
           None \<Rightarrow> (-1, c1)
         | Some root \<Rightarrow> add_servers (j_elements root) c1)"

definition parseRpcConfig :: "u16 \<Rightarrow> ini \<Rightarrow> node_config \<Rightarrow> int \<times> node_config" where
  "parseRpcConfig junk ini c =
     (let c1 = c\<lparr>nc_httpRpcIp := get_string ini ''rpc'' ''http_listen_ip'' (nc_httpRpcIp c)\<rparr>;
          c2 = c1\<lparr>nc_httpRpcPort := getValue (string_to_unsigned junk) ini ''rpc'' ''http_listen_port'' (nc_httpRpcPort c1)\<rparr>;
          c3 = c2\<lparr>nc_tcpRpcIp := get_string ini ''rpc'' ''tcp_listen_ip'' (nc_httpRpcIp c2)\<rparr>;
          c4 = c3\<lparr>nc_tcpRpcPort := getValue (string_to_unsigned junk) ini ''rpc'' ''tcp_listen_port'' (nc_httpRpcPort c3)\<rparr>
      in (0, c4))"

definition parseNetworkConfig :: "u16 \<Rightarrow> u64 \<Rightarrow> ini \<Rightarrow> node_config \<Rightarrow> (int \<times> node_config) run" where
  "parseNetworkConfig junk16 junk64 ini c =
     (let size = getValue (string_to_unsigned junk64) ini ''network'';
          c1 = c\<lparr>nc_p2pIp := get_string ini ''network'' ''ip'' (nc_p2pIp c),
                 nc_p2pPort := getValue (string_to_unsigned junk16) ini ''network'' ''port'' (nc_p2pPort c),
                 nc_nodesFile := get_string ini ''network'' ''nodes_file'' (nc_nodesFile c),
                 nc_sessionDataDecodeWorkerNum := size ''packet_decode_worker_num'' (nc_sessionDataDecodeWorkerNum c),
                 nc_moduleDataProcessWorkerNum := size ''packet_process_worker_num'' (nc_moduleDataProcessWorkerNum c),
                 nc_slaveReactorNum := size ''slave_reactor'' (nc_slaveReactorNum c),
                 nc_redispatchInterval := size ''redispatch_interval'' (nc_redispatchInterval c),
                 nc_routingAlgorithm := get_string ini ''network'' ''routing_algorithm'' (nc_routingAlgorithm c)\<rparr>
      in and_then (relative_to (nc_configDir c1) (nc_nodesFile c1)) (\<lambda>path.
           Inr (0, c1\<lparr>nc_nodesFile := path\<rparr>)))"

definition log_type_of :: "string \<Rightarrow> log_type option" where
  "log_type_of level =
     (if level = ''trace'' then Some Log_Trace
      else if level = ''debug'' then Some Log_Debug
      else if level = ''info'' then Some Log_Info
      else if level = ''warning'' then Some Log_Warning
      else if level = ''error'' then Some Log_Error
      else None)"

definition parseLogConfig :: "ini \<Rightarrow> node_config \<Rightarrow> (int \<times> node_config) run" where
  "parseLogConfig ini c =
     (let c1 = c\<lparr>nc_enableFileLog := getValue to_bool ini ''logger'' ''enable_file_log'' (nc_enableFileLog c),
                 nc_consoleOutput := getValue to_bool ini ''logger'' ''console_output'' (nc_consoleOutput c)\<rparr>
      in case log_type_of (get_string ini ''logger'' ''level'' ''info'') of
           None \<Rightarrow> Inr (-1, c1)
         | Some t \<Rightarrow>
             (let c2 = c1\<lparr>nc_logType := t\<rparr>;
                  path = get_string ini ''logger'' ''path'' (nc_logPath c2);
                  path = (if path = [] then ''./logs'' else path)
              in and_then (relative_to (nc_configDir c2) path) (\<lambda>p. Inr (0, c2\<lparr>nc_logPath := p\<rparr>))))"

section \<open>Loading\<close>

text \<open>
  \<open>file\<close> is what the INI parser makes of the file, \<open>None\<close> when it cannot be opened, and \<open>dir\<close> the
  directory of its absolute path.  The results of the four parsers are not looked at.
\<close>

definition NodeConfig_init :: "json_lib \<Rightarrow> u16 \<Rightarrow> u64 \<Rightarrow> string \<Rightarrow> ini option \<Rightarrow> node_config \<Rightarrow>
    (int \<times> node_config) run" where
  "NodeConfig_init js junk16 junk64 dir file c =
     (case file of
        None \<Rightarrow> Inr (-1, c)
      | Some ini \<Rightarrow>
          (let c0 = c\<lparr>nc_configDir := dir\<rparr>;
               (_, c1) = parseClusterConfig js ini c0;
               (_, c2) = parseRpcConfig junk16 ini c1
           in and_then (parseNetworkConfig junk16 junk64 ini c2) (\<lambda>(_, c3).
              and_then (parseLogConfig ini c3) (\<lambda>(_, c4). Inr (0, c4)))))"

definition loadLogConfig :: "ini option \<Rightarrow> node_config \<Rightarrow> (int \<times> node_config) run" where
  "loadLogConfig file c =
     (case file of
        None \<Rightarrow> Inr (-1, c)
      | Some ini \<Rightarrow> and_then (parseLogConfig ini c) (\<lambda>(_, c1). Inr (0, c1)))"

section \<open>What loading does\<close>

lemma relative_to_fault: "relative_to dir path = Inl f \<longleftrightarrow> path = [] \<and> f = OutOfBounds"
  by (auto simp: relative_to_def)

lemma relative_to_cases:
  assumes "relative_to dir path = Inr p"
  shows "path \<noteq> [] \<and> (p = path \<and> (hd path = CHR ''/'' \<or> last path = CHR ''/'') \<or> p = dir @ ''/'' @ path)"
  using assms by (auto simp: relative_to_def split: if_splits)

text \<open>Resolving a path that has been resolved changes nothing.\<close>

lemma relative_to_again:
  assumes "relative_to dir path = Inr p" and "hd dir = CHR ''/''" and "dir \<noteq> []"
  shows "relative_to dir p = Inr p"
  using relative_to_cases [OF assms(1)] assms(2,3) by (auto simp: relative_to_def)

lemma add_servers_frame: "nc_nodesFile (snd (add_servers vs c)) = nc_nodesFile c \<and>
    nc_configDir (snd (add_servers vs c)) = nc_configDir c"
  by (induction vs c rule: add_servers.induct) (simp_all split: json.split)

lemma parseClusterConfig_frame: "nc_nodesFile (snd (parseClusterConfig js ini c)) = nc_nodesFile c \<and>
    nc_configDir (snd (parseClusterConfig js ini c)) = nc_configDir c"
  by (simp add: parseClusterConfig_def Let_def add_servers_frame split: option.split)

lemma parseRpcConfig_frame: "nc_nodesFile (snd (parseRpcConfig junk ini c)) = nc_nodesFile c \<and>
    nc_configDir (snd (parseRpcConfig junk ini c)) = nc_configDir c"
  by (simp add: parseRpcConfig_def Let_def)

lemma parseNetworkConfig_cases:
  "parseNetworkConfig j16 j64 ini c =
     (if get_string ini ''network'' ''nodes_file'' (nc_nodesFile c) = [] then Inl OutOfBounds
      else Inr (0, snd (projr (parseNetworkConfig j16 j64 ini c)))) \<and>
   (parseNetworkConfig j16 j64 ini c = Inr (r, c') \<longrightarrow> nc_configDir c' = nc_configDir c)"
  by (auto simp: parseNetworkConfig_def Let_def relative_to_def)

lemma parseLogConfig_total: "\<exists>r c'. parseLogConfig ini c = Inr (r, c')"
  by (auto simp: parseLogConfig_def Let_def relative_to_def split: option.split)

text \<open>
  A configuration file that can be opened is always accepted.  Whatever it holds, \<^verbatim>\<open>init\<close> returns 0,
  since the results of the four section parsers are dropped; the one exception is an empty \<^verbatim>\<open>nodes_file\<close>,
  of which the last character is read.
\<close>

theorem config_always_accepted:
  "if get_string ini ''network'' ''nodes_file'' ''nodes.json'' = []
   then NodeConfig_init js junk16 junk64 dir (Some ini) NodeConfig_new = Inl OutOfBounds
   else \<exists>c. NodeConfig_init js junk16 junk64 dir (Some ini) NodeConfig_new = Inr (0, c)"
proof -
  let ?c1 = "snd (parseClusterConfig js ini (NodeConfig_new\<lparr>nc_configDir := dir\<rparr>))"
  let ?c2 = "snd (parseRpcConfig junk16 ini ?c1)"
  have n: "nc_nodesFile ?c2 = ''nodes.json''"
    by (simp add: parseClusterConfig_frame parseRpcConfig_frame NodeConfig_new_def)
  note net = parseNetworkConfig_cases [of junk16 junk64 ini ?c2, THEN conjunct1, unfolded n]
  show ?thesis
  proof (cases "get_string ini ''network'' ''nodes_file'' ''nodes.json'' = []")
    case True
    then show ?thesis using net by (simp add: NodeConfig_init_def split_beta)
  next
    case False
    then obtain r3 c3 where "parseNetworkConfig junk16 junk64 ini ?c2 = Inr (r3, c3)"
      using net by (metis (full_types))
    moreover obtain r4 c4 where "parseLogConfig ini c3 = Inr (r4, c4)" using parseLogConfig_total by blast
    ultimately show ?thesis using False by (simp add: NodeConfig_init_def split_beta)
  qed
qed

lemma getValue_again [simp]:
  "getValue f ini s k (getValue f ini s k d) = getValue f ini s k d"
  by (simp add: getValue_def split: option.split)

text \<open>A key is present, or its value is the default.\<close>

lemma getValue_present: "(\<forall>d'. getValue f ini s k d' = getValue f ini s k d) \<or> (\<forall>d'. getValue f ini s k d' = d')"
  by (auto simp: getValue_def split: option.split)

lemma parseLogConfig_again:
  assumes "parseLogConfig ini c = Inr (r, c')" and "hd (nc_configDir c) = CHR ''/''" and "nc_configDir c \<noteq> []"
  shows "parseLogConfig ini c' = Inr (r, c')"
proof (cases "log_type_of (get_string ini ''logger'' ''level'' ''info'')")
  case None
  then show ?thesis using assms(1) by (auto simp: parseLogConfig_def Let_def)
next
  case (Some t)
  let ?path = "get_string ini ''logger'' ''path''"
  let ?fix = "\<lambda>p. if p = [] then ''./logs'' else p"
  obtain p where p: "relative_to (nc_configDir c) (?fix (?path (nc_logPath c))) = Inr p"
    and c': "nc_logPath c' = p" "nc_configDir c' = nc_configDir c" "nc_logType c' = t"
      "nc_enableFileLog c' = getValue to_bool ini ''logger'' ''enable_file_log'' (nc_enableFileLog c)"
      "nc_consoleOutput c' = getValue to_bool ini ''logger'' ''console_output'' (nc_consoleOutput c)" "r = 0"
    using assms(1) Some by (auto simp: parseLogConfig_def Let_def and_then_Inr cong: if_cong)
  have ne: "p \<noteq> []" using relative_to_cases [OF p] by auto
  have again: "relative_to (nc_configDir c) p = Inr p"
    by (rule relative_to_again [OF p assms(2,3)])
  have "relative_to (nc_configDir c) (?fix (?path p)) = Inr p"
    using getValue_present [of "\<lambda>v. v" ini "''logger''" "''path''" "nc_logPath c"]
  proof
    assume "\<forall>d'. ?path d' = ?path (nc_logPath c)"
    then have "?path p = ?path (nc_logPath c)" by (rule spec)
    then show ?thesis using p by (simp only:)
  next
    assume "\<forall>d'. ?path d' = d'"
    then show ?thesis using again ne by simp
  qed
  then show ?thesis using c' Some by (simp add: parseLogConfig_def Let_def cong: if_cong)
qed

text \<open>
  Reloading the log settings from the file a configuration was loaded from changes nothing, although
  the paths of the loaded configuration have been resolved and serve as the defaults of the second
  pass.
\<close>

theorem config_reload_idempotent:
  assumes "NodeConfig_init js junk16 junk64 dir (Some ini) c = Inr (ret, c')"
    and "hd dir = CHR ''/''" and "dir \<noteq> []"
  shows "loadLogConfig (Some ini) c' = Inr (0, c')"
proof -
  let ?c1 = "snd (parseClusterConfig js ini (c\<lparr>nc_configDir := dir\<rparr>))"
  let ?c2 = "snd (parseRpcConfig junk16 ini ?c1)"
  obtain r3 c3 r4 where 3: "parseNetworkConfig junk16 junk64 ini ?c2 = Inr (r3, c3)"
    and 4: "parseLogConfig ini c3 = Inr (r4, c')"
    using assms(1) by (auto simp: NodeConfig_init_def split_beta and_then_Inr)
  have "nc_configDir c3 = dir"
    using parseNetworkConfig_cases [of junk16 junk64 ini ?c2 r3 c3] 3
    by (simp add: parseClusterConfig_frame parseRpcConfig_frame)
  then have "parseLogConfig ini c' = Inr (r4, c')" using parseLogConfig_again [OF 4] assms(2,3) by simp
  then show ?thesis by (simp add: loadLogConfig_def)
qed

definition ex_ini :: ini where
  "ex_ini = [(''logger'', [(''level'', ''debug''), (''path'', ''out/logs'')]), (''cluster'', [(''id'', ''a'')])]"

definition ex_config :: node_config where
  "ex_config = snd (projr (NodeConfig_init \<lparr>js_write = (\<lambda>v. []), js_parse = (\<lambda>s. None)\<rparr> 0 0 ''/etc''
     (Some ex_ini) NodeConfig_new))"

lemma config_reload_idempotent_witness:
  "loadLogConfig (Some ex_ini) ex_config = Inr (0, ex_config) \<and> nc_logPath ex_config = ''/etc/out/logs''"
proof -
  obtain c where c: "NodeConfig_init \<lparr>js_write = (\<lambda>v. []), js_parse = (\<lambda>s. None)\<rparr> 0 0 ''/etc''
      (Some ex_ini) NodeConfig_new = Inr (0, c)" and p: "nc_logPath c = ''/etc/out/logs''"
    by (auto simp: NodeConfig_init_def ex_ini_def NodeConfig_new_def parseClusterConfig_def parseRpcConfig_def
        parseNetworkConfig_def parseLogConfig_def getValue_def relative_to_def log_type_of_def Let_def)
  then have "ex_config = c" by (simp add: ex_config_def)
  then show ?thesis using config_reload_idempotent [OF c] p by simp
qed

text \<open>Without keys of its own the TCP server is given the address and port of the HTTP server.\<close>

lemma tcp_defaults_to_http:
  assumes "map_of ini ''rpc'' = None"
  shows "nc_tcpRpcPort (snd (parseRpcConfig junk ini c)) = nc_httpRpcPort c"
  using assms by (simp add: parseRpcConfig_def getValue_def Let_def)

end
