(* ===== verification/Logging.thy ===== *)
theory Logging
  imports NodeConf
begin

text \<open>
  The logger of \<^verbatim>\<open>csm-utilities/Logger.cpp\<close>, its writing thread, and \<^verbatim>\<open>AppLogInitializer\<close>.  Lines are
  appended to a buffer under a lock; the thread swaps the buffer out and appends it to the file.  The file
  system and the clock are parameters.
\<close>

section \<open>Text\<close>

text \<open>The order of \<^verbatim>\<open>LogType\<close> is the order of its constants.\<close>

instantiation log_type :: linorder
begin

fun log_rank :: "log_type \<Rightarrow> nat" where
  "log_rank Log_Trace = 0"
| "log_rank Log_Debug = 1"
| "log_rank Log_Info = 2"
| "log_rank Log_Warning = 3"
| "log_rank Log_Error = 4"

definition less_eq_log_type :: "log_type \<Rightarrow> log_type \<Rightarrow> bool" where
  "less_eq_log_type a b \<longleftrightarrow> log_rank a \<le> log_rank b"

definition less_log_type :: "log_type \<Rightarrow> log_type \<Rightarrow> bool" where
  "less_log_type a b \<longleftrightarrow> log_rank a < log_rank b"

instance
proof
  fix a b :: log_type
  assume "a \<le> b" and "b \<le> a"
  then show "a = b" by (cases a; cases b) (simp_all add: less_eq_log_type_def)
qed (auto simp: less_eq_log_type_def less_log_type_def)

end

text \<open>The arguments of \<^verbatim>\<open>write\<close> are strings and integers; \<^verbatim>\<open>convertToString\<close> prints the latter in decimal.\<close>

datatype log_arg = A_string string | A_int int

definition int_to_string :: "int \<Rightarrow> string" where
  "int_to_string i = (if i < 0 then CHR ''-'' # nat_to_string (nat (- i)) else nat_to_string (nat i))"

fun convertToString :: "log_arg \<Rightarrow> string" where
  "convertToString (A_int i) = int_to_string i"
| "convertToString (A_string s) = s"

fun mergeToString :: "string \<Rightarrow> log_arg list \<Rightarrow> string" where
  "mergeToString result [] = result"
| "mergeToString result (value # args) = mergeToString (result @ convertToString value) args"

fun getLogTypeString :: "log_type \<Rightarrow> string" where
  "getLogTypeString Log_Trace = ''[Trace]''"
| "getLogTypeString Log_Debug = ''[Debug]''"
| "getLogTypeString Log_Info = ''[Info]''"
| "getLogTypeString Log_Warning = ''[Warning]''"
| "getLogTypeString Log_Error = ''[Error]''"

text \<open>The name of the file is made of the local time, the path of the directory and the name.\<close>

record tm =
  tm_year :: int
  tm_mon :: int
  tm_mday :: int
  tm_hour :: int
  tm_min :: int

definition setw :: "nat \<Rightarrow> int \<Rightarrow> string" where
  "setw w i = replicate (w - length (int_to_string i)) CHR ''0'' @ int_to_string i"

definition generateLogFilename :: "tm \<Rightarrow> string" where
  "generateLogFilename t =
     ''log_'' @ setw 4 (tm_year t + 1900) @ setw 2 (tm_mon t + 1) @ setw 2 (tm_mday t) @ setw 2 (tm_hour t) @
     ''.'' @ setw 2 (tm_min t) @ ''.log''"

definition generateLogFullFilename :: "string \<Rightarrow> string \<Rightarrow> string" where
  "generateLogFullFilename logDirPath logFilename =
     (if logDirPath = [] then ''./'' @ logFilename
      else if last logDirPath = CHR ''/'' then logDirPath @ logFilename
      else logDirPath @ ''/'' @ logFilename)"

section \<open>The logger\<close>

text \<open>
  \<open>lg_file\<close> is the open file, its name and contents; \<open>lg_out\<close> is what \<^verbatim>\<open>std::cout\<close> has been given.  The
  thread is at the top of its loop, inside the wait for data, or at its end; \<open>lg_stopping\<close> is its stop
  token and \<open>lg_isStart\<close> the flag of \<^verbatim>\<open>Thread\<close>.
\<close>

datatype writer = W_Idle | W_Top | W_Waiting | W_Done

record logger =
  lg_enableFileLog :: bool
  lg_logDirPath :: string
  lg_bufferSize :: u64
  lg_file :: "(string \<times> string) option"
  lg_buffer :: string
  lg_consoleOutput :: bool
  lg_logLevel :: log_type
  lg_isStart :: bool
  lg_stopping :: bool
  lg_writer :: writer
  lg_out :: string

definition c_defaultBufferSize :: u64 where
  "c_defaultBufferSize = 32 * 1024 * 1024"

definition Logger_new :: logger where
  "Logger_new =
     \<lparr>lg_enableFileLog = True, lg_logDirPath = ''./log'', lg_bufferSize = c_defaultBufferSize, lg_file = None,
      lg_buffer = [], lg_consoleOutput = False, lg_logLevel = Log_Info, lg_isStart = False, lg_stopping = False,
      lg_writer = W_Idle, lg_out = []\<rparr>"

definition log_write :: "log_type \<Rightarrow> log_arg list \<Rightarrow> logger \<Rightarrow> int \<times> logger" where
  "log_write logType args lg =
     (if logType < lg_logLevel lg then (0, lg)
      else (let result = mergeToString (getLogTypeString logType) args;
                lg1 = (if lg_enableFileLog lg then lg\<lparr>lg_buffer := lg_buffer lg @ result @ [CHR 0x0A]\<rparr> else lg);
                lg2 = (if lg_consoleOutput lg then lg1\<lparr>lg_out := lg_out lg1 @ result @ [CHR 0x0A]\<rparr> else lg1)
            in (0, lg2)))"

text \<open>The thread swaps the buffer out and appends it to the file.\<close>

definition write_out :: "logger \<Rightarrow> logger" where
  "write_out lg = lg\<lparr>lg_file := map_option (\<lambda>(name, text). (name, text @ lg_buffer lg)) (lg_file lg), lg_buffer := []\<rparr>"

definition writer_step :: "logger \<Rightarrow> logger" where
  "writer_step lg =
     (case lg_writer lg of
        W_Top \<Rightarrow> if lg_stopping lg then lg\<lparr>lg_writer := W_Done\<rparr> else lg\<lparr>lg_writer := W_Waiting\<rparr>
      | W_Waiting \<Rightarrow> if lg_buffer lg \<noteq> [] \<or> lg_stopping lg then (write_out lg)\<lparr>lg_writer := W_Top\<rparr> else lg
      | _ \<Rightarrow> lg)"

text \<open>
  \<^verbatim>\<open>Thread::start\<close> does nothing when the thread has been started and not stopped; otherwise the new
  thread takes the place of the old one, which is joined and finishes the round it is in.
\<close>

definition Thread_start :: "logger \<Rightarrow> logger" where
  "Thread_start lg =
     (if lg_isStart lg then lg
      else (if lg_writer lg = W_Waiting then write_out lg else lg)
        \<lparr>lg_isStart := True, lg_stopping := False, lg_writer := W_Top\<rparr>)"

definition Thread_stop :: "logger \<Rightarrow> logger" where
  "Thread_stop lg = (if lg_isStart lg then lg\<lparr>lg_stopping := True, lg_isStart := False\<rparr> else lg)"

text \<open>\<^verbatim>\<open>create_directory\<close> throws when it fails; \<^verbatim>\<open>open\<close> with \<^verbatim>\<open>std::ios::out\<close> empties an existing file.\<close>

record file_system =
  fs_createDirectory :: "string \<Rightarrow> bool"
  fs_open :: "string \<Rightarrow> bool"

definition resize :: "nat \<Rightarrow> string \<Rightarrow> string" where
  "resize n s = take n s @ replicate (n - length s) (CHR 0x00)"

definition Logger_init :: "file_system \<Rightarrow> tm \<Rightarrow> logger \<Rightarrow> (int \<times> logger) run" where
  "Logger_init fs t lg =
     (if lg_enableFileLog lg then
        (if \<not> fs_createDirectory fs (lg_logDirPath lg) then Inl Uncaught
         else (let name = generateLogFullFilename (lg_logDirPath lg) (generateLogFilename t)
               in if \<not> fs_open fs name then Inr (-1, lg)
                  else Inr (0, Thread_start (lg\<lparr>lg_file := Some (name, []),
                    lg_buffer := resize (unat (lg_bufferSize lg)) (lg_buffer lg), lg_isStart := False,
                    lg_stopping := False, lg_writer := W_Idle\<rparr>))))
      else Inr (0, lg))"

definition Logger_start :: "logger \<Rightarrow> int \<times> logger" where
  "Logger_start lg = (0, if lg_enableFileLog lg then Thread_start lg else lg)"

definition Logger_stop :: "logger \<Rightarrow> int \<times> logger" where
  "Logger_stop lg = (0, if lg_enableFileLog lg then Thread_stop lg else lg)"

section \<open>The initializer\<close>

definition AppLogInitializer_init :: "file_system \<Rightarrow> tm \<Rightarrow> node_config \<Rightarrow> logger \<Rightarrow> (int \<times> logger) run" where
  "AppLogInitializer_init fs t c lg =
     (let lg1 = lg\<lparr>lg_enableFileLog := nc_enableFileLog c, lg_logDirPath := nc_logPath c\<rparr>
      in and_then (Logger_init fs t lg1) (\<lambda>(ret, lg2).
           if ret = -1 then Inr (-1, lg2)
           else Inr (0, snd (log_write Log_Info [A_string ''register SIGUSR2 for reload log config'']
             (lg2\<lparr>lg_logLevel := nc_logType c, lg_consoleOutput := nc_consoleOutput c\<rparr>)))))"

text \<open>The handler of \<^verbatim>\<open>SIGUSR2\<close>; the result of loading is not looked at.\<close>

definition reload_log_config :: "ini option \<Rightarrow> node_config \<Rightarrow> logger \<Rightarrow> (node_config \<times> logger) run" where
  "reload_log_config file c lg =
     and_then (loadLogConfig file c) (\<lambda>(_, c1).
       (let lg1 = lg\<lparr>lg_logLevel := nc_logType c1, lg_consoleOutput := nc_consoleOutput c1\<rparr>
        in Inr (c1, snd (log_write Log_Info [A_string ''reload log config successfully, log level: '',
             A_int (int (log_rank (nc_logType c1)))] lg1))))"

section \<open>Runs\<close>

text \<open>What the threads of the program do to the logger once it is initialised.\<close>

datatype log_event =
    L_Write log_type "log_arg list"
  | L_Writer
  | L_Reload log_type bool
  | L_Start
  | L_Stop

fun log_step :: "log_event \<Rightarrow> logger \<Rightarrow> logger" where
  "log_step (L_Write t args) lg = snd (log_write t args lg)"
| "log_step L_Writer lg = writer_step lg"
| "log_step (L_Reload t b) lg = lg\<lparr>lg_logLevel := t, lg_consoleOutput := b\<rparr>"
| "log_step L_Start lg = snd (Logger_start lg)"
| "log_step L_Stop lg = snd (Logger_stop lg)"

definition log_run :: "log_event list \<Rightarrow> logger \<Rightarrow> logger" where
  "log_run es lg = fold log_step es lg"

text \<open>The lines that are at or above the level of their time, which is all a run should add to the file.\<close>

definition log_line :: "log_type \<Rightarrow> log_arg list \<Rightarrow> string" where
  "log_line t args = getLogTypeString t @ concat (map convertToString args) @ [CHR 0x0A]"

fun logged :: "log_type \<Rightarrow> log_event list \<Rightarrow> string" where
  "logged level [] = []"
| "logged level (L_Write t args # es) = (if t < level then [] else log_line t args) @ logged level es"
| "logged level (L_Reload t b # es) = logged t es"
| "logged level (_ # es) = logged level es"

definition file_text :: "logger \<Rightarrow> string" where
  "file_text lg = (case lg_file lg of None \<Rightarrow> [] | Some (name, text) \<Rightarrow> text)"

lemma mergeToString_concat: "mergeToString result args = result @ concat (map convertToString args)"
  by (induction result args rule: mergeToString.induct) simp_all

lemma file_text_write_out:
  "lg_file lg \<noteq> None \<Longrightarrow> file_text (write_out lg) = file_text lg @ lg_buffer lg"
  by (auto simp: file_text_def write_out_def)

text \<open>The logger is ready: logging to an open file.\<close>

definition ready :: "logger \<Rightarrow> bool" where
  "ready lg \<longleftrightarrow> lg_enableFileLog lg \<and> lg_file lg \<noteq> None"

lemma log_step_text:
  assumes "ready lg"
  shows "ready (log_step e lg) \<and>
    file_text (log_step e lg) @ lg_buffer (log_step e lg) = file_text lg @ lg_buffer lg @ logged (lg_logLevel lg) [e] \<and>
    logged (lg_logLevel lg) (e # es) = logged (lg_logLevel lg) [e] @ logged (lg_logLevel (log_step e lg)) es"
  using assms
  by (cases e)
    (auto simp: ready_def log_write_def Let_def mergeToString_concat log_line_def writer_step_def Thread_start_def
      Thread_stop_def Logger_start_def Logger_stop_def write_out_def file_text_def split: writer.splits)

lemma log_run_text:
  "ready lg \<Longrightarrow> file_text (log_run es lg) @ lg_buffer (log_run es lg) =
     file_text lg @ lg_buffer lg @ logged (lg_logLevel lg) es"
proof (induction es arbitrary: lg)
  case (Cons e es)
  note s = log_step_text [OF Cons.prems, of e es]
  then show ?case using Cons.IH [of "log_step e lg"] by (simp add: log_run_def del: logged.simps)
qed (simp add: log_run_def)

text \<open>A round of the thread writes all of the buffer or nothing.\<close>

definition prefix_written :: "string \<Rightarrow> logger \<Rightarrow> bool" where
  "prefix_written z lg \<longleftrightarrow>
     (file_text lg = [] \<and> (\<exists>r. lg_buffer lg = z @ r)) \<or> (\<exists>r. file_text lg = z @ r)"

lemma prefix_written_step: "ready lg \<Longrightarrow> prefix_written z lg \<Longrightarrow> prefix_written z (log_step e lg)"
  by (cases e)
    (auto simp: ready_def prefix_written_def log_write_def Let_def mergeToString_concat writer_step_def Thread_start_def
      Thread_stop_def Logger_start_def Logger_stop_def write_out_def file_text_def split: writer.splits)

lemma prefix_written_run: "ready lg \<Longrightarrow> prefix_written z lg \<Longrightarrow> prefix_written z (log_run es lg)"
proof (induction es arbitrary: lg)
  case (Cons e es)
  then show ?case
    using Cons.IH [of "log_step e lg"] log_step_text [of lg e] prefix_written_step [of lg z e]
    by (simp add: log_run_def)
qed (simp add: log_run_def)

text \<open>
  C37: The log file is exact but for what it begins with.  After \<^verbatim>\<open>init\<close> on a fresh logger and any sequence of
  writes, rounds of the writing thread, reloads, starts and stops, the file followed by what is still
  buffered is \<^verbatim>\<open>m_bufferSize\<close> zero bytes, which \<^verbatim>\<open>resize\<close> has put there where \<^verbatim>\<open>reserve\<close> was meant, and then
  exactly the lines at or above the level of their time, in order.  A file that is not empty holds all of
  the zeros.
\<close>

theorem log_file_exact:
  assumes "Logger_init fs t lg = Inr (0, lg1)" and "lg_enableFileLog lg" and "lg_buffer lg = []"
  shows "file_text (log_run es lg1) @ lg_buffer (log_run es lg1) =
      replicate (unat (lg_bufferSize lg)) (CHR 0x00) @ logged (lg_logLevel lg) es \<and>
    (file_text (log_run es lg1) = [] \<or>
     (\<exists>r. file_text (log_run es lg1) = replicate (unat (lg_bufferSize lg)) (CHR 0x00) @ r))"
proof -
  have 1: "ready lg1" "file_text lg1 = []" "lg_buffer lg1 = replicate (unat (lg_bufferSize lg)) (CHR 0x00)"
    "lg_logLevel lg1 = lg_logLevel lg"
    using assms by (auto simp: Logger_init_def Let_def Thread_start_def ready_def file_text_def resize_def
        split: if_splits)
  then have pw: "prefix_written (replicate (unat (lg_bufferSize lg)) (CHR 0x00)) lg1" by (simp add: prefix_written_def)
  then show ?thesis
    using log_run_text [OF 1(1), of es, unfolded 1(2,3,4)] prefix_written_run [OF 1(1) pw, of es] 1(3,4)
    by (auto simp: prefix_written_def 1(2))
qed

definition ex_fs :: file_system where
  "ex_fs = \<lparr>fs_createDirectory = (\<lambda>d. True), fs_open = (\<lambda>f. True)\<rparr>"

definition ex_tm :: tm where
  "ex_tm = \<lparr>tm_year = 125, tm_mon = 0, tm_mday = 9, tm_hour = 7, tm_min = 5\<rparr>"

definition ex_log_events :: "log_event list" where
  "ex_log_events = [L_Writer, L_Write Log_Debug [A_string ''no''], L_Write Log_Info [A_string ''n='', A_int (- 3)],
     L_Writer, L_Writer, L_Write Log_Error [A_int 7]]"

lemma log_file_exact_witness:
  "\<exists>lg1. Logger_init ex_fs ex_tm (Logger_new\<lparr>lg_bufferSize := 2\<rparr>) = Inr (0, lg1) \<and>
     file_text (log_run ex_log_events lg1) = [CHR 0x00, CHR 0x00] @ ''[Info]n=-3'' @ [CHR 0x0A] \<and>
     file_text (log_run ex_log_events lg1) @ lg_buffer (log_run ex_log_events lg1) =
       [CHR 0x00, CHR 0x00] @ ''[Info]n=-3'' @ [CHR 0x0A] @ ''[Error]7'' @ [CHR 0x0A]"
proof -
  let ?lg = "Logger_new\<lparr>lg_bufferSize := 2\<rparr>"
  have two: "replicate 2 (CHR 0x00) = [CHR 0x00, CHR 0x00]" by (simp add: numeral_2_eq_2)
  have three: "int_to_string (- 3) = ''-3''" and seven: "int_to_string 7 = ''7''" by code_simp+
  obtain lg1 where i: "Logger_init ex_fs ex_tm ?lg = Inr (0, lg1)"
    and 1: "lg_file lg1 = Some (generateLogFullFilename ''./log'' (generateLogFilename ex_tm), [])"
      "lg_buffer lg1 = [CHR 0x00, CHR 0x00]" "lg_writer lg1 = W_Top" "\<not> lg_stopping lg1" "lg_enableFileLog lg1"
      "lg_logLevel lg1 = Log_Info" "\<not> lg_consoleOutput lg1"
    by (simp add: Logger_init_def ex_fs_def Logger_new_def Let_def Thread_start_def resize_def two)
  have f: "file_text (log_run ex_log_events lg1) = [CHR 0x00, CHR 0x00] @ ''[Info]n=-3'' @ [CHR 0x0A]"
    by (simp add: log_run_def ex_log_events_def log_write_def writer_step_def write_out_def file_text_def
        less_log_type_def three 1)
  have l: "logged Log_Info ex_log_events = ''[Info]n=-3'' @ [CHR 0x0A] @ ''[Error]7'' @ [CHR 0x0A]"
    by (simp add: ex_log_events_def log_line_def less_log_type_def three seven)
  have n: "lg_enableFileLog ?lg" "lg_buffer ?lg = []" "lg_logLevel ?lg = Log_Info"
    "replicate (unat (lg_bufferSize ?lg)) (CHR 0x00) = [CHR 0x00, CHR 0x00]"
    by (simp_all add: Logger_new_def two)
  show ?thesis
    by (intro exI [of _ lg1] conjI i f) (simp only: log_file_exact [OF i n(1,2), THEN conjunct1] n(3,4) l append.assoc)
qed

section \<open>File names\<close>

lemma digits_value_zeros: "digits_value (replicate k (CHR ''0'') @ s) = digits_value s"
  by (induction k) (simp_all add: digits_value_def)

lemma length_nat_to_string: "n < 10 ^ w \<Longrightarrow> 0 < w \<Longrightarrow> length (nat_to_string n) \<le> w"
proof (induction n arbitrary: w rule: nat_to_string.induct)
  case (1 n)
  show ?case
  proof (cases "n < 10")
    case True
    then show ?thesis using 1 by (subst nat_to_string.simps) simp
  next
    case False
    obtain v where v: "w = Suc v" using "1.prems"(2) by (cases w) auto
    moreover have "v \<noteq> 0" using "1.prems"(1) False v by (cases v) auto
    ultimately have w: "w = Suc v" "0 < v" by simp_all
    then have "n div 10 < 10 ^ v" using "1.prems"(1) by (simp add: less_mult_imp_div_less mult.commute)
    then show ?thesis using "1.IH" [OF False _ w(2)] False w by (subst nat_to_string.simps) simp
  qed
qed

lemma setw_fixed:
  assumes "0 \<le> i" and "i < 10 ^ w" and "0 < w"
  shows "length (setw w i) = w" and "digits_value (setw w i) = nat i"
proof -
  have "nat i < 10 ^ w" using assms by (simp add: nat_less_iff)
  then show "length (setw w i) = w"
    using length_nat_to_string [of "nat i" w] assms by (simp add: setw_def int_to_string_def)
  show "digits_value (setw w i) = nat i"
    using assms by (simp add: setw_def int_to_string_def digits_value_zeros digits_value_to_string)
qed

lemma setw_inj:
  assumes "0 \<le> i" "i < 10 ^ w" "0 \<le> j" "j < 10 ^ w" "0 < w"
  shows "setw w i = setw w j \<longleftrightarrow> i = j"
  using setw_fixed(2) [of i w] setw_fixed(2) [of j w] assms by auto

definition valid_tm :: "tm \<Rightarrow> bool" where
  "valid_tm t \<longleftrightarrow> 0 \<le> tm_year t + 1900 \<and> tm_year t + 1900 < 10000 \<and> 0 \<le> tm_mon t \<and> tm_mon t < 12 \<and>
     1 \<le> tm_mday t \<and> tm_mday t \<le> 31 \<and> 0 \<le> tm_hour t \<and> tm_hour t < 24 \<and> 0 \<le> tm_min t \<and> tm_min t < 60"

text \<open>
  One log file per minute.  For local times of four-digit years the file names of two runs are equal
  exactly when the runs are started in the same minute; the second then empties the file of the first.
\<close>

theorem log_filename_per_minute:
  assumes "valid_tm t" and "valid_tm t'"
  shows "generateLogFullFilename dir (generateLogFilename t) = generateLogFullFilename dir (generateLogFilename t') \<longleftrightarrow>
    t = t'"
proof -
  have b: "0 \<le> tm_year u + 1900 \<and> tm_year u + 1900 < 10 ^ 4 \<and> 0 \<le> tm_mon u + 1 \<and> tm_mon u + 1 < 10 ^ 2 \<and>
      0 \<le> tm_mday u \<and> tm_mday u < 10 ^ 2 \<and> 0 \<le> tm_hour u \<and> tm_hour u < 10 ^ 2 \<and> 0 \<le> tm_min u \<and> tm_min u < 10 ^ 2"
    if "valid_tm u" for u
    using that by (simp add: valid_tm_def)
  note b1 = b [OF assms(1)] and b2 = b [OF assms(2)]
  have "generateLogFilename t = generateLogFilename t' \<longleftrightarrow> t = t'"
    using b1 b2 by (cases t; cases t') (auto simp: generateLogFilename_def setw_fixed setw_inj)
  then show ?thesis by (simp add: generateLogFullFilename_def)
qed

lemma log_filename_per_minute_witness:
  "generateLogFullFilename ''./logs'' (generateLogFilename ex_tm) \<noteq>
     generateLogFullFilename ''./logs'' (generateLogFilename (ex_tm\<lparr>tm_min := 50\<rparr>))"
proof -
  have "valid_tm ex_tm" "valid_tm (ex_tm\<lparr>tm_min := 50\<rparr>)" by (simp_all add: valid_tm_def ex_tm_def)
  then show ?thesis
    using log_filename_per_minute [of ex_tm "ex_tm\<lparr>tm_min := 50\<rparr>" "''./logs''"] by (simp add: ex_tm_def)
qed

end
