(* ===== verification/Acceptor.thy ===== *)
theory Acceptor
  imports P2P
begin

text \<open>
  The listening side: \<^verbatim>\<open>Socket.cpp\<close> and the sockets of \<^verbatim>\<open>initServer\<close>, \<^verbatim>\<open>Acceptor.cpp\<close> with its thread,
  \<^verbatim>\<open>SelectListenner.cpp\<close> and the numbering of sessions by \<^verbatim>\<open>P2PSessionFactory\<close>.  The answers of the kernel
  are parameters.
\<close>

section \<open>The listening socket\<close>

text \<open>
  \<open>k_pton\<close> is \<^verbatim>\<open>inet_pton\<close> for IPv4: 1 and the address, or 0 for a text that is no address; -1 stands for an
  address family it does not know.
\<close>

record kernel =
  k_socket :: int
  k_setNonBlock :: bool
  k_setReuseAddr :: bool
  k_pton :: "string \<Rightarrow> int \<times> u32"
  k_bind :: "u16 \<times> u32 \<Rightarrow> bool"
  k_listen :: bool

definition inet_pton_documented :: "kernel \<Rightarrow> bool" where
  "inet_pton_documented k \<longleftrightarrow> (\<forall>s. fst (k_pton k s) = 0 \<or> fst (k_pton k s) = 1)"

text \<open>The address stays zero, that is any address, unless \<^verbatim>\<open>inet_pton\<close> stores one.\<close>

definition Socket_bind :: "kernel \<Rightarrow> string \<Rightarrow> u32 \<Rightarrow> int \<times> (u16 \<times> u32)" where
  "Socket_bind k ip port =
     (let sin_port = ucast port;
          (ret, a) = k_pton k ip;
          addr = (sin_port, if ret = 1 then a else 0)
      in if ret = -1 then (-1, addr) else if \<not> k_bind k addr then (-1, addr) else (0, addr))"

definition Socket_listen :: "kernel \<Rightarrow> int" where
  "Socket_listen k = 0"

text \<open>
  What is left of \<^verbatim>\<open>initServer\<close>: its result, whether the socket is open, its address and whether it listens.
\<close>

record listen_socket =
  ls_ret :: int
  ls_open :: bool
  ls_addr :: "(u16 \<times> u32) option"
  ls_listening :: bool

definition initServer :: "kernel \<Rightarrow> string \<Rightarrow> u16 \<Rightarrow> listen_socket" where
  "initServer k listenIp listenPort =
     (if k_socket k = -1 then \<lparr>ls_ret = -1, ls_open = False, ls_addr = None, ls_listening = False\<rparr>
      else if \<not> k_setNonBlock k then \<lparr>ls_ret = -1, ls_open = True, ls_addr = None, ls_listening = False\<rparr>
      else if \<not> k_setReuseAddr k then \<lparr>ls_ret = -1, ls_open = False, ls_addr = None, ls_listening = False\<rparr>
      else (let (bound, addr) = Socket_bind k listenIp (ucast listenPort)
            in if bound = -1 then \<lparr>ls_ret = -1, ls_open = False, ls_addr = None, ls_listening = False\<rparr>
               else if Socket_listen k = -1
               then \<lparr>ls_ret = -1, ls_open = False, ls_addr = None, ls_listening = False\<rparr>
               else \<lparr>ls_ret = 0, ls_open = True, ls_addr = Some addr, ls_listening = k_listen k\<rparr>))"

definition listen_addr :: "kernel \<Rightarrow> string \<Rightarrow> u16 \<Rightarrow> u16 \<times> u32" where
  "listen_addr k ip port = (port, if fst (k_pton k ip) = 1 then snd (k_pton k ip) else 0)"

definition socket_up :: "kernel \<Rightarrow> string \<Rightarrow> u16 \<Rightarrow> bool" where
  "socket_up k ip port \<longleftrightarrow>
     k_socket k \<noteq> -1 \<and> k_setNonBlock k \<and> k_setReuseAddr k \<and> k_bind k (listen_addr k ip port)"

lemma init_server_result:
  assumes "inet_pton_documented k"
  shows "initServer k ip port =
    (if socket_up k ip port
     then \<lparr>ls_ret = 0, ls_open = True, ls_addr = Some (listen_addr k ip port), ls_listening = k_listen k\<rparr>
     else \<lparr>ls_ret = -1, ls_open = k_socket k \<noteq> -1 \<and> \<not> k_setNonBlock k, ls_addr = None, ls_listening = False\<rparr>)"
proof -
  have "fst (k_pton k ip) \<noteq> -1" using assms(1) by (auto simp: inet_pton_documented_def dest: spec [of _ ip])
  moreover have "ucast (ucast port :: u32) = port" by transfer simp
  ultimately show ?thesis
    by (simp add: socket_up_def initServer_def Socket_bind_def Socket_listen_def listen_addr_def split_beta Let_def)
qed

text \<open>
  Two failures of the listening socket are not noticed and one leaves it open.  \<^verbatim>\<open>initServer\<close> returns 0
  exactly when the socket can be made, set up and bound; whether \<^verbatim>\<open>listen\<close> succeeds does not matter, since
  \<^verbatim>\<open>Socket::listen\<close> always returns 0.  A configured address that is no IPv4 address is not refused: the
  service then binds its port on all interfaces.  It fails with the socket left open exactly when the
  socket cannot be made non-blocking.
\<close>

theorem init_server_exact:
  assumes "inet_pton_documented k"
  shows "(ls_ret (initServer k ip port) = 0 \<longleftrightarrow>
      k_socket k \<noteq> -1 \<and> k_setNonBlock k \<and> k_setReuseAddr k \<and> k_bind k (listen_addr k ip port)) \<and>
    (ls_ret (initServer k ip port) = 0 \<longrightarrow>
      ls_addr (initServer k ip port) = Some (listen_addr k ip port) \<and> ls_listening (initServer k ip port) = k_listen k) \<and>
    (ls_ret (initServer k ip port) = -1 \<and> ls_open (initServer k ip port) \<longleftrightarrow>
      k_socket k \<noteq> -1 \<and> \<not> k_setNonBlock k)"
  by (simp add: init_server_result [OF assms] socket_up_def)

definition ex_kernel :: kernel where
  "ex_kernel = \<lparr>k_socket = 3, k_setNonBlock = True, k_setReuseAddr = True,
     k_pton = (\<lambda>s. if s = ''10.0.0.1'' then (1, 0x0100000A) else (0, 0)), k_bind = (\<lambda>a. True), k_listen = False\<rparr>"

lemma init_server_exact_witness:
  "ls_ret (initServer ex_kernel ''localhost'' 80) = 0 \<and> ls_addr (initServer ex_kernel ''localhost'' 80) = Some (80, 0) \<and>
   \<not> ls_listening (initServer ex_kernel ''localhost'' 80) \<and>
   ls_open (initServer (ex_kernel\<lparr>k_setNonBlock := False\<rparr>) ''10.0.0.1'' 80)"
proof -
  have "inet_pton_documented ex_kernel" "inet_pton_documented (ex_kernel\<lparr>k_setNonBlock := False\<rparr>)"
    by (simp_all add: inet_pton_documented_def ex_kernel_def)
  from init_server_exact [OF this(1), of "''localhost''" 80] init_server_exact [OF this(2), of "''10.0.0.1''" 80]
  show ?thesis by (simp add: ex_kernel_def listen_addr_def)
qed

section \<open>Session numbers\<close>

text \<open>
  The counter of \<^verbatim>\<open>P2PSessionFactory\<close> is atomic, but \<^verbatim>\<open>create\<close> reads it and increments it in two steps, and
  the acceptor and the connector share one factory.
\<close>

datatype factory_event = F_Read nat | F_Increment nat

fun factory_run :: "factory_event list \<Rightarrow> session_id \<Rightarrow> session_id list" where
  "factory_run [] n = []"
| "factory_run (F_Read t # es) n = n # factory_run es n"
| "factory_run (F_Increment t # es) n = factory_run es (n + 1)"

lemma factory_run_bound:
  "w \<in> set (factory_run es n) \<Longrightarrow> \<exists>k \<le> length es. w = n + of_nat k"
proof (induction es n rule: factory_run.induct)
  case (2 t es n)
  then show ?case by (auto intro: exI [of _ 0] le_SucI)
next
  case (3 t es n)
  then obtain k where "k \<le> length es" "w = n + 1 + of_nat k" by auto
  then show ?case by (intro exI [of _ "Suc k"]) (simp add: ac_simps)
qed simp

lemma factory_run_fresh:
  assumes "length es < 2 ^ 64 - 1"
  shows "n \<notin> set (factory_run es (n + 1))"
proof
  assume "n \<in> set (factory_run es (n + 1))"
  then obtain k where k: "k \<le> length es" "n = n + 1 + of_nat k" using factory_run_bound by blast
  then have "of_nat (Suc k) = (0 :: u64)" by (simp add: ac_simps)
  then have "2 ^ 64 dvd Suc k" by (simp add: word_of_nat_eq_0_iff del: of_nat_Suc)
  then have "2 ^ 64 \<le> Suc k" by (rule dvd_imp_le) simp
  then show False using k(1) assms by simp
qed

text \<open>
  Two sessions get the same number exactly when one thread reads the counter between another's reading
  and incrementing it.  This is possible whenever a client is accepted while a peer is being dialled, and
  the tables of the service are keyed by these numbers.
\<close>

theorem factory_ids_distinct:
  assumes "length es < 2 ^ 64 - 1"
  shows "distinct (factory_run es n) \<longleftrightarrow> \<not> (\<exists>xs t u ys. es = xs @ F_Read t # F_Read u # ys)"
  using assms
proof (induction es n rule: factory_run.induct)
  case (2 t es n)
  have split: "(\<exists>xs t' u ys. F_Read t # es = xs @ F_Read t' # F_Read u # ys) \<longleftrightarrow>
      (\<exists>u ys. es = F_Read u # ys) \<or> (\<exists>xs t' u ys. es = xs @ F_Read t' # F_Read u # ys)"
    by (metis (no_types, lifting) append_Cons append_Nil list.inject neq_Nil_conv)
  show ?case
  proof (cases es)
    case Nil
    then show ?thesis by auto
  next
    case (Cons e es')
    then show ?thesis
      using 2 factory_run_fresh [of es' n] split by (cases e) auto
  qed
next
  case (3 t es n)
  have "(\<exists>xs t' u ys. F_Increment t # es = xs @ F_Read t' # F_Read u # ys) \<longleftrightarrow>
      (\<exists>xs t' u ys. es = xs @ F_Read t' # F_Read u # ys)"
    by (metis append_Cons append_Nil factory_event.distinct(1) list.inject neq_Nil_conv)
  then show ?case using 3 by simp
qed simp

lemma factory_ids_distinct_witness:
  "distinct (factory_run [F_Read 1, F_Increment 1, F_Read 2, F_Increment 2] 1) \<and>
   \<not> distinct (factory_run [F_Read 1, F_Read 2, F_Increment 1, F_Increment 2] 1)"
proof -
  have "\<not> (\<exists>xs t u ys. [F_Read 1, F_Increment 1, F_Read 2, F_Increment 2] = xs @ F_Read t # F_Read u # ys)"
    by (auto simp: Cons_eq_append_conv)
  moreover have "\<exists>xs t u ys. [F_Read 1, F_Read 2, F_Increment 1, F_Increment 2] = xs @ F_Read t # F_Read u # ys"
    by (intro exI [of _ "[]"]) simp
  ultimately show ?thesis
    using factory_ids_distinct [of "[F_Read 1, F_Increment 1, F_Read 2, F_Increment 2]" 1]
      factory_ids_distinct [of "[F_Read 1, F_Read 2, F_Increment 1, F_Increment 2]" 1] by simp
qed

section \<open>Accepting\<close>

text \<open>
  A turn of the acceptor's loop once it is woken: clients are accepted until the kernel has none, or the
  thread is told to stop.  An answer of the kernel comes with the stop token read after it; \<open>next\<close> is the
  counter of the session factory.  The list of answers ends before the loop does in the case \<open>None\<close>.
\<close>

datatype accept_answer = Connection int bool | TryAgain | AcceptError

fun accept_loop :: "u64 \<times> u16 \<Rightarrow> (accept_answer \<times> bool) list \<Rightarrow> session_id \<Rightarrow>
    (p2p_session list \<times> int list \<times> session_id) option" where
  "accept_loop junk [] next = None"
| "accept_loop junk ((Connection connfd recv_ok, stop) # answers) next =
     (let (made, closed, next1) =
        (if recv_ok then (let (s, n) = P2PSessionFactory_create junk connfd c_p2pSessionReadBufferSize
              c_p2pSessionWriteBufferSize next in ([s], [], n))
         else ([], [connfd], next))
      in if connfd > 0 \<and> \<not> stop
         then map_option (\<lambda>(ss, cs, n). (made @ ss, closed @ cs, n)) (accept_loop junk answers next1)
         else Some (made, closed, next1))"
| "accept_loop junk ((_, stop) # answers) next = Some ([], [], next)"

text \<open>The dispatching thread then runs the service's callback for each session.\<close>

fun dispatch_all :: "bool \<Rightarrow> p2p_session list \<Rightarrow> p2p_service \<Rightarrow> p2p_service run" where
  "dispatch_all epoll_ok [] st = Inr st"
| "dispatch_all epoll_ok (s # ss) st = and_then (newClientCallback epoll_ok s st) (dispatch_all epoll_ok ss)"

text \<open>The pending clients: those whose receive buffer can be set are served.\<close>

definition backlog_answers :: "(int \<times> bool) list \<Rightarrow> (accept_answer \<times> bool) list" where
  "backlog_answers clients = map (\<lambda>(fd, ok). (Connection fd ok, False)) clients @ [(TryAgain, False)]"

definition served :: "(int \<times> bool) list \<Rightarrow> int list" where
  "served clients = map fst (filter snd clients)"

fun numbered_sessions :: "u64 \<times> u16 \<Rightarrow> int list \<Rightarrow> session_id \<Rightarrow> p2p_session list" where
  "numbered_sessions junk [] next = []"
| "numbered_sessions junk (fd # fds) next =
     P2PSession_new junk fd next (rb_new c_p2pSessionReadBufferSize) (rb_new c_p2pSessionWriteBufferSize) #
     numbered_sessions junk fds (next + 1)"

lemma accept_loop_backlog:
  "\<forall>(fd, ok) \<in> set clients. fd > 0 \<Longrightarrow> accept_loop junk (backlog_answers clients) next =
     Some (numbered_sessions junk (served clients) next, map fst (filter (\<lambda>c. \<not> snd c) clients),
       next + of_nat (length (served clients)))"
proof (induction clients arbitrary: "next")
  case (Cons c clients)
  obtain fd ok where c: "c = (fd, ok)" by (cases c)
  show ?case
    using Cons.IH Cons.prems
    by (auto simp: c backlog_answers_def served_def P2PSessionFactory_create_def Let_def
        ac_simps)
qed (simp add: backlog_answers_def served_def)

text \<open>A session with a number of its own ends up in reactor 0, and the others stay as they are.\<close>

definition registered :: "p2p_session \<Rightarrow> p2p_service \<Rightarrow> bool" where
  "registered s st \<longleftrightarrow> lock_session (ps_sessionId s) st = Some s \<and>
     sr_getP2PSession (ps_sessionId s) (sv_reactors st ! 0) = Some (ps_sessionId s)"

lemma newClient_registers:
  assumes ok: "svc_ok st" and fresh: "map_of (sv_heap st) (ps_sessionId s) = None" and i: "ps_slaveReactorIndex s = 0"
  obtains st' where "newClientCallback True s st = Inr st'" and "svc_ok st'" and "registered s st'"
    and "\<And>w. w \<noteq> ps_sessionId s \<Longrightarrow> map_of (sv_heap st') w = map_of (sv_heap st) w"
    and "\<And>t. registered t st \<Longrightarrow> registered t st'"
proof -
  obtain st' where st': "newClientCallback True s st = Inr st'" "svc_ok st'"
    using safe_newClient [OF ok fresh, of True] by (auto simp: safe_def)
  obtain r rs where rs: "sv_reactors st = r # rs"
    using svc_okD(3,4) [OF ok] by (cases "sv_reactors st") auto
  have "map_of (sr_sessions r) (ps_sessionId s) = None"
    using svc_okD(5) [OF ok] fresh rs by (auto simp: reactor_ok_def held_def)
  have s: "s\<lparr>ps_slaveReactorIndex := 0\<rparr> = s" using i by (cases s) simp
  note dispatch_index_ok [OF svc_okD(1) [OF ok], of "ps_sessionId s"]
  then have h: "sv_heap st' = AList.update (ps_sessionId s) s (AList.update (ps_sessionId s) s (sv_heap st))"
    and q: "sr_sessions (sv_reactors st' ! 0) = emplace (ps_sessionId s) (ps_sessionId s) (sr_sessions r)"
    using st'(1) by (auto simp: newClientCallback_def Let_def and_then_Inr slaveReactor_def set_session_def set_reactor_def
      sr_addSession_def rs s split: if_splits)
  have "map_of (sv_heap st') = (map_of (sv_heap st))(ps_sessionId s \<mapsto> s)" by (simp add: h alist_simps)
  moreover have "map_of (sr_sessions (sv_reactors st' ! 0)) =
      (map_of (sr_sessions (sv_reactors st ! 0)))(ps_sessionId s \<mapsto> ps_sessionId s)"
    using \<open>map_of (sr_sessions r) (ps_sessionId s) = None\<close> by (simp add: q rs alist_simps)
  ultimately show ?thesis
    using fresh by (intro that [OF st']) (auto simp: registered_def lock_session_def sr_getP2PSession_def)
qed

lemma dispatch_all_registers:
  assumes "svc_ok st" and "length fds < 2 ^ 64"
    and "\<forall>i < length fds. map_of (sv_heap st) (next + of_nat i) = None"
  shows "\<exists>st'. dispatch_all True (numbered_sessions (0, port) fds next) st = Inr st' \<and> svc_ok st' \<and>
    (\<forall>s \<in> set (numbered_sessions (0, port) fds next). registered s st') \<and> (\<forall>t. registered t st \<longrightarrow> registered t st')"
  using assms
proof (induction fds arbitrary: st "next")
  case (Cons fd fds)
  let ?s = "P2PSession_new (0, port) fd next (rb_new c_p2pSessionReadBufferSize) (rb_new c_p2pSessionWriteBufferSize)"
  have s: "ps_sessionId ?s = next" "ps_slaveReactorIndex ?s = 0" by (simp_all add: P2PSession_new_def)
  have fresh: "map_of (sv_heap st) (ps_sessionId ?s) = None" using Cons.prems(3) s(1) by (auto dest: spec [of _ 0])
  obtain st1 where st1: "newClientCallback True ?s st = Inr st1" "svc_ok st1" "registered ?s st1"
    "\<And>w. w \<noteq> ps_sessionId ?s \<Longrightarrow> map_of (sv_heap st1) w = map_of (sv_heap st) w"
    "\<And>t. registered t st \<Longrightarrow> registered t st1"
    using newClient_registers [OF Cons.prems(1) fresh s(2)] by blast
  have "map_of (sv_heap st1) (next + 1 + of_nat i) = None" if i: "i < length fds" for i
  proof -
    have "of_nat (Suc i) \<noteq> (0 :: u64)"
      using i Cons.prems(2) by (auto simp: word_of_nat_eq_0_iff simp del: of_nat_Suc dest!: dvd_imp_le)
    then have "next + of_nat (Suc i) \<noteq> next" by simp
    moreover have "map_of (sv_heap st) (next + of_nat (Suc i)) = None"
      using Cons.prems(3) i by (auto simp del: of_nat_Suc)
    ultimately have "map_of (sv_heap st1) (next + of_nat (Suc i)) = None"
      using st1(4) s(1) by (simp del: of_nat_Suc)
    then show ?thesis by (simp add: ac_simps)
  qed
  then have free: "\<forall>i < length fds. map_of (sv_heap st1) (next + 1 + of_nat i) = None" by blast
  have "length fds < 2 ^ 64" using Cons.prems(2) by simp
  from Cons.IH [OF st1(2) this free]
  obtain st2 where "dispatch_all True (numbered_sessions (0, port) fds (next + 1)) st1 = Inr st2" "svc_ok st2"
    "\<forall>s \<in> set (numbered_sessions (0, port) fds (next + 1)). registered s st2" "\<forall>t. registered t st1 \<longrightarrow> registered t st2"
    by blast
  then show ?case using st1(1,3,5) by simp
qed simp

text \<open>
  C16: Every pending client is served.  When the acceptor is woken with the clients of \<open>clients\<close> pending, it
  accepts all of them in one turn, closes those whose receive buffer cannot be set and numbers the
  sessions of the others consecutively.  If these numbers are free, the dispatching thread then registers
  each of them in reactor 0 without a fault, keeps the service well formed and leaves the sessions that
  were registered before as they are.
\<close>

theorem pending_clients_served:
  assumes "svc_ok st" and "\<forall>(fd, ok) \<in> set clients. fd > 0" and "length clients < 2 ^ 64"
    and "\<forall>i < length clients. map_of (sv_heap st) (next + of_nat i) = None"
  shows "\<exists>sessions st'. accept_loop (0, port) (backlog_answers clients) next =
      Some (sessions, map fst (filter (\<lambda>c. \<not> snd c) clients), next + of_nat (length sessions)) \<and>
    map ps_fd sessions = served clients \<and>
    map ps_sessionId sessions = map (\<lambda>i. next + of_nat i) [0..<length sessions] \<and>
    dispatch_all True sessions st = Inr st' \<and> svc_ok st' \<and> (\<forall>s \<in> set sessions. registered s st') \<and>
    (\<forall>t. registered t st \<longrightarrow> registered t st')"
proof -
  have n: "length (served clients) \<le> length clients" by (simp add: served_def)
  have ids: "map ps_fd (numbered_sessions junk fds k) = fds \<and>
      map ps_sessionId (numbered_sessions junk fds k) = map (\<lambda>i. k + of_nat i) [0..<length fds] \<and>
      length (numbered_sessions junk fds k) = length fds" for junk fds k
    by (induction fds arbitrary: k)
      (simp_all add: P2PSession_new_def map_upt_Suc ac_simps del: upt_Suc)
  show ?thesis
    using accept_loop_backlog [OF assms(2), of "(0, port)" "next"] ids [of "(0, port)" "served clients" "next"]
      dispatch_all_registers [of st "served clients" "next" port] assms(1,3,4) n
    by fastforce
qed

definition ex_clients :: "(int \<times> bool) list" where
  "ex_clients = [(5, True), (6, False), (7, True)]"

lemma pending_clients_served_witness:
  "\<exists>sessions st'. accept_loop (0, 0) (backlog_answers ex_clients) 1 = Some (sessions, [6], 3) \<and>
     map ps_sessionId sessions = [1, 2] \<and>
     dispatch_all True sessions (P2PService_new 2 ''me'' (HostEndPointInfo ''h'' 1) HostsInfoManager_new) = Inr st' \<and>
     (\<forall>s \<in> set sessions. registered s st')"
proof -
  let ?st = "P2PService_new 2 ''me'' (HostEndPointInfo ''h'' 1) HostsInfoManager_new"
  have "sv_heap ?st = []" by (simp add: P2PService_new_def)
  moreover have "\<forall>(fd, ok) \<in> set ex_clients. fd > 0" "length ex_clients < 2 ^ 64" "served ex_clients = [5, 7]"
    "map fst (filter (\<lambda>c. \<not> snd c) ex_clients) = [6]"
    by (simp_all add: ex_clients_def served_def)
  ultimately obtain sessions st' where
    *: "accept_loop (0, 0) (backlog_answers ex_clients) 1 = Some (sessions, [6], 1 + of_nat (length sessions))"
    "map ps_fd sessions = [5, 7]" "map ps_sessionId sessions = map (\<lambda>i. 1 + of_nat i) [0..<length sessions]"
    "dispatch_all True sessions ?st = Inr st'" "\<forall>s \<in> set sessions. registered s st'"
    using pending_clients_served [of ?st ex_clients 1 0] svc_ok_new [of 2] by auto
  have "length sessions = 2" using arg_cong [OF *(2), of length] by simp
  then show ?thesis using * by (auto simp: upt_rec)
qed

section \<open>The threads\<close>

text \<open>
  The acceptor's thread as a state machine: it tests its stop token, waits for the condition variable
  without a condition, and accepts.  A notification reaches it only while it waits.  \<open>AC_About\<close> is the point
  between the test and the wait.  The listening thread notifies as long as a client is pending; stopping
  the service ends that thread, requests the acceptor to stop and notifies it; stopping it again notifies
  it again.
\<close>

datatype acceptor_phase = AC_Top | AC_About | AC_Waiting | AC_Woken | AC_Accepting | AC_Ended

record acceptor =
  ac_phase :: acceptor_phase
  ac_stop :: bool
  ac_notified :: bool
  ac_listening :: bool
  ac_backlog :: nat
  ac_served :: nat

definition Acceptor_new :: acceptor where
  "Acceptor_new = \<lparr>ac_phase = AC_Top, ac_stop = False, ac_notified = False, ac_listening = True,
     ac_backlog = 0, ac_served = 0\<rparr>"

definition notify :: "acceptor \<Rightarrow> acceptor" where
  "notify a = (if ac_phase a = AC_Waiting then a\<lparr>ac_phase := AC_Woken\<rparr> else a)"

text \<open>
  The threads' own steps.  \<open>nonblocking\<close> tells whether the listening socket is, as in \<^verbatim>\<open>P2PService\<close>, or is
  not, as in \<^verbatim>\<open>ServerService\<close>: then \<^verbatim>\<open>accept\<close> waits for a client.
\<close>

inductive acceptor_step :: "bool \<Rightarrow> acceptor \<Rightarrow> acceptor \<Rightarrow> bool" for nonblocking where
  ac_end: "ac_phase a = AC_Top \<Longrightarrow> ac_stop a \<Longrightarrow> acceptor_step nonblocking a (a\<lparr>ac_phase := AC_Ended\<rparr>)"
| ac_round: "ac_phase a = AC_Top \<Longrightarrow> \<not> ac_stop a \<Longrightarrow> acceptor_step nonblocking a (a\<lparr>ac_phase := AC_About\<rparr>)"
| ac_wait: "ac_phase a = AC_About \<Longrightarrow> acceptor_step nonblocking a (a\<lparr>ac_phase := AC_Waiting\<rparr>)"
| ac_connect: "ac_listening a \<Longrightarrow> 0 < ac_backlog a \<Longrightarrow> acceptor_step nonblocking a (notify a)"
| ac_return: "ac_phase a = AC_Woken \<Longrightarrow> ac_stop a \<Longrightarrow> acceptor_step nonblocking a (a\<lparr>ac_phase := AC_Top\<rparr>)"
| ac_enter: "ac_phase a = AC_Woken \<Longrightarrow> \<not> ac_stop a \<Longrightarrow>
    acceptor_step nonblocking a (a\<lparr>ac_phase := AC_Accepting\<rparr>)"
| ac_accept: "ac_phase a = AC_Accepting \<Longrightarrow> 0 < ac_backlog a \<Longrightarrow> acceptor_step nonblocking a
    (a\<lparr>ac_backlog := ac_backlog a - 1, ac_served := ac_served a + 1,
       ac_phase := if ac_stop a then AC_Top else AC_Accepting\<rparr>)"
| ac_empty: "ac_phase a = AC_Accepting \<Longrightarrow> ac_backlog a = 0 \<Longrightarrow> nonblocking \<Longrightarrow>
    acceptor_step nonblocking a (a\<lparr>ac_phase := AC_Top\<rparr>)"

text \<open>The steps of the others: clients connect, and the service stops.\<close>

inductive acceptor_env :: "acceptor \<Rightarrow> acceptor \<Rightarrow> bool" where
  env_client: "acceptor_env a (a\<lparr>ac_backlog := Suc (ac_backlog a)\<rparr>)"
| env_unlisten: "acceptor_env a (a\<lparr>ac_listening := False\<rparr>)"
| env_stop: "\<not> ac_listening a \<Longrightarrow> acceptor_env a (a\<lparr>ac_stop := True\<rparr>)"
| env_notify: "ac_stop a \<Longrightarrow> acceptor_env a ((notify a)\<lparr>ac_notified := True\<rparr>)"

inductive acceptor_reachable :: "bool \<Rightarrow> acceptor \<Rightarrow> bool" for nonblocking where
  ac_start: "acceptor_reachable nonblocking Acceptor_new"
| ac_own: "acceptor_reachable nonblocking a \<Longrightarrow> acceptor_step nonblocking a b \<Longrightarrow> acceptor_reachable nonblocking b"
| ac_other: "acceptor_reachable nonblocking a \<Longrightarrow> acceptor_env a b \<Longrightarrow> acceptor_reachable nonblocking b"

inductive_cases acceptor_stepE: "acceptor_step nonblocking a b"
inductive_cases acceptor_envE: "acceptor_env a b"

abbreviation acceptor_steps :: "bool \<Rightarrow> acceptor \<Rightarrow> acceptor \<Rightarrow> bool" where
  "acceptor_steps nonblocking \<equiv> (acceptor_step nonblocking)\<^sup>*\<^sup>*"

text \<open>Stopping is complete once the notification has been sent.\<close>

lemma acceptor_stop_order:
  "acceptor_reachable nonblocking a \<Longrightarrow> (ac_stop a \<longrightarrow> \<not> ac_listening a) \<and> (ac_notified a \<longrightarrow> ac_stop a)"
proof (induction rule: acceptor_reachable.induct)
  case (ac_own a b)
  then show ?case by (auto simp: notify_def elim!: acceptor_stepE split: if_splits)
next
  case (ac_other a b)
  then show ?case by (auto simp: notify_def elim!: acceptor_envE split: if_splits)
qed (simp add: Acceptor_new_def)

text \<open>The places at which a stopped thread stays for ever if no one else moves.\<close>

definition lost :: "bool \<Rightarrow> acceptor \<Rightarrow> bool" where
  "lost nonblocking a \<longleftrightarrow> ac_phase a \<in> {AC_About, AC_Waiting} \<or>
     \<not> nonblocking \<and> ac_phase a = AC_Accepting \<and> ac_backlog a = 0"

lemma lost_step:
  "acceptor_step nonblocking a b \<Longrightarrow> \<not> ac_listening a \<Longrightarrow> lost nonblocking a \<Longrightarrow> lost nonblocking b \<and> \<not> ac_listening b"
  by (auto simp: lost_def elim!: acceptor_stepE)

lemma lost_steps:
  "acceptor_steps nonblocking a b \<Longrightarrow> \<not> ac_listening a \<Longrightarrow> lost nonblocking a \<Longrightarrow> lost nonblocking b"
proof (induction rule: converse_rtranclp_induct)
  case (step a a')
  then show ?case using lost_step by blast
qed

lemma stopped_ends:
  assumes "ac_stop a" and "\<not> lost nonblocking a"
  shows "\<exists>b. acceptor_steps nonblocking a b \<and> ac_phase b = AC_Ended"
proof -
  have top: "\<exists>b. acceptor_steps nonblocking c b \<and> ac_phase b = AC_Ended" if "ac_phase c = AC_Top" "ac_stop c" for c
    using ac_end [OF that] by (intro exI [of _ "c\<lparr>ac_phase := AC_Ended\<rparr>"]) auto
  have via: "\<exists>b. acceptor_steps nonblocking a b \<and> ac_phase b = AC_Ended"
    if "acceptor_step nonblocking a c" "ac_phase c = AC_Top" "ac_stop c" for c
    using top [OF that(2,3)] that(1) by (blast intro: converse_rtranclp_into_rtranclp)
  show ?thesis
  proof (cases "ac_phase a")
    case AC_Top
    then show ?thesis using top assms(1) by blast
  next
    case AC_Woken
    then show ?thesis using via [OF ac_return] assms(1) by simp
  next
    case AC_Accepting
    then show ?thesis
      using via [OF ac_accept] via [OF ac_empty] assms by (cases "ac_backlog a") (auto simp: lost_def)
  next
    case AC_Ended
    then show ?thesis by blast
  qed (use assms(2) in \<open>simp_all add: lost_def\<close>)
qed

lemma acceptor_ends_iff:
  assumes "ac_stop a" and "\<not> ac_listening a"
  shows "(\<exists>b. acceptor_steps nonblocking a b \<and> ac_phase b = AC_Ended) \<longleftrightarrow> \<not> lost nonblocking a"
proof -
  have "ac_phase b \<noteq> AC_Ended" if "lost nonblocking b" for b using that by (auto simp: lost_def)
  then show ?thesis using assms stopped_ends lost_steps by blast
qed

text \<open>
  C17: Stopping the acceptor may hang.  Once \<^verbatim>\<open>stop\<close> is complete, the thread can still end by itself exactly
  when it is not at one of three places: waiting, or between testing its token and waiting, so that the
  one notification came too early; or, on the blocking socket of the server, inside \<^verbatim>\<open>accept\<close> with no
  client pending.  Every one of them is reached, so the process may never get past the destructor that
  joins the thread.
\<close>

theorem acceptor_stop_exact:
  assumes "acceptor_reachable nonblocking a" and "ac_notified a"
  shows "(\<exists>b. acceptor_steps nonblocking a b \<and> ac_phase b = AC_Ended) \<longleftrightarrow> \<not> lost nonblocking a"
proof -
  have "ac_stop a" "\<not> ac_listening a" using acceptor_stop_order [OF assms(1)] assms(2) by auto
  then show ?thesis by (rule acceptor_ends_iff)
qed

definition ex_lost_stop :: acceptor where
  "ex_lost_stop = \<lparr>ac_phase = AC_Waiting, ac_stop = True, ac_notified = True, ac_listening = False,
     ac_backlog = 0, ac_served = 0\<rparr>"

definition ex_lost_accept :: acceptor where
  "ex_lost_accept = \<lparr>ac_phase = AC_Accepting, ac_stop = True, ac_notified = True, ac_listening = False,
     ac_backlog = 0, ac_served = 1\<rparr>"

lemma ex_lost_stop_reachable: "acceptor_reachable True ex_lost_stop"
proof -
  let ?a = "Acceptor_new\<lparr>ac_phase := AC_About\<rparr>"
  have "acceptor_reachable True ?a"
    using ac_own [OF ac_start ac_round] by (simp add: Acceptor_new_def)
  from ac_other [OF this env_unlisten]
  have "acceptor_reachable True (?a\<lparr>ac_listening := False\<rparr>)" .
  from ac_other [OF this env_stop]
  have "acceptor_reachable True (?a\<lparr>ac_listening := False, ac_stop := True\<rparr>)" by simp
  from ac_other [OF this env_notify]
  have "acceptor_reachable True (?a\<lparr>ac_listening := False, ac_stop := True, ac_notified := True\<rparr>)"
    by (simp add: Acceptor_new_def notify_def)
  from ac_own [OF this ac_wait] show ?thesis by (simp add: ex_lost_stop_def Acceptor_new_def)
qed

lemma ex_lost_accept_reachable: "acceptor_reachable False ex_lost_accept"
proof -
  let ?a = "Acceptor_new\<lparr>ac_phase := AC_About\<rparr>"
  have "acceptor_reachable False ?a"
    using ac_own [OF ac_start ac_round] by (simp add: Acceptor_new_def)
  from ac_own [OF this ac_wait] have "acceptor_reachable False (?a\<lparr>ac_phase := AC_Waiting\<rparr>)" by simp
  from ac_other [OF this env_client]
  have "acceptor_reachable False (?a\<lparr>ac_phase := AC_Waiting, ac_backlog := 1\<rparr>)" by (simp add: Acceptor_new_def)
  from ac_own [OF this ac_connect]
  have "acceptor_reachable False (?a\<lparr>ac_phase := AC_Woken, ac_backlog := 1\<rparr>)" by (simp add: Acceptor_new_def notify_def)
  from ac_own [OF this ac_enter]
  have "acceptor_reachable False (?a\<lparr>ac_phase := AC_Accepting, ac_backlog := 1\<rparr>)" by (simp add: Acceptor_new_def)
  from ac_own [OF this ac_accept]
  have "acceptor_reachable False (?a\<lparr>ac_phase := AC_Accepting, ac_backlog := 0, ac_served := 1\<rparr>)"
    by (simp add: Acceptor_new_def)
  from ac_other [OF ac_other [OF this env_unlisten] env_stop]
  have "acceptor_reachable False (ex_lost_accept\<lparr>ac_notified := False\<rparr>)"
    by (simp add: ex_lost_accept_def Acceptor_new_def)
  from ac_other [OF this env_notify] show ?thesis by (simp add: ex_lost_accept_def notify_def)
qed

lemma acceptor_stop_exact_witness:
  "\<not> (\<exists>b. acceptor_steps True ex_lost_stop b \<and> ac_phase b = AC_Ended) \<and>
   \<not> (\<exists>b. acceptor_steps False ex_lost_accept b \<and> ac_phase b = AC_Ended)"
  using acceptor_stop_exact [OF ex_lost_stop_reachable] acceptor_stop_exact [OF ex_lost_accept_reachable]
  by (simp add: lost_def ex_lost_stop_def ex_lost_accept_def)

text \<open>Until the service stops, the two threads of the listening side serve whoever is pending.\<close>

lemma accepting_drains:
  "ac_phase a = AC_Accepting \<Longrightarrow> \<not> ac_stop a \<Longrightarrow> \<exists>b. acceptor_steps nonblocking a b \<and>
     ac_backlog b = 0 \<and> ac_served b = ac_served a + ac_backlog a \<and> \<not> ac_stop b \<and> ac_phase b = AC_Accepting"
proof (induction "ac_backlog a" arbitrary: a)
  case 0
  then show ?case by (intro exI [of _ a]) simp
next
  case (Suc n)
  let ?c = "a\<lparr>ac_backlog := ac_backlog a - 1, ac_served := ac_served a + 1, ac_phase := AC_Accepting\<rparr>"
  have "acceptor_step nonblocking a ?c"
    using ac_accept [OF Suc.prems(1), of nonblocking] Suc.hyps(2) Suc.prems(2) by simp
  moreover have n: "n = ac_backlog ?c" using Suc.hyps(2) by simp
  obtain b where "acceptor_steps nonblocking ?c b" "ac_backlog b = 0"
    "ac_served b = ac_served ?c + ac_backlog ?c" "\<not> ac_stop b" "ac_phase b = AC_Accepting"
    using Suc.hyps(1) [OF n] Suc.prems by auto
  ultimately show ?case using Suc.hyps(2)
    by (intro exI [of _ b]) (auto intro: converse_rtranclp_into_rtranclp)
qed

lemma acceptor_enters:
  assumes "\<not> ac_stop a" and "ac_listening a" and "0 < ac_backlog a" and "ac_phase a \<noteq> AC_Ended"
  shows "\<exists>b. acceptor_steps nonblocking a b \<and> ac_phase b = AC_Accepting \<and> \<not> ac_stop b \<and>
    ac_backlog b = ac_backlog a \<and> ac_served b = ac_served a"
proof -
  let ?enter = "\<lambda>b c. acceptor_steps nonblocking b c \<and> ac_phase c = AC_Accepting \<and> \<not> ac_stop c \<and>
    ac_backlog c = ac_backlog a \<and> ac_served c = ac_served a"
  have accepting: "\<exists>c. ?enter (a\<lparr>ac_phase := AC_Accepting\<rparr>) c"
    using assms(1) by (intro exI [of _ "a\<lparr>ac_phase := AC_Accepting\<rparr>"]) simp
  have chain: "\<exists>c. ?enter b c" if "acceptor_step nonblocking b b'" "\<exists>c. ?enter b' c" for b b'
    using that by (blast intro: converse_rtranclp_into_rtranclp)
  have woken: "\<exists>c. ?enter (a\<lparr>ac_phase := AC_Woken\<rparr>) c"
    by (rule chain [OF _ accepting]) (use ac_enter [of "a\<lparr>ac_phase := AC_Woken\<rparr>"] assms(1) in simp)
  have waiting: "\<exists>c. ?enter (a\<lparr>ac_phase := AC_Waiting\<rparr>) c"
    by (rule chain [OF _ woken]) (use ac_connect [of "a\<lparr>ac_phase := AC_Waiting\<rparr>"] assms in \<open>simp add: notify_def\<close>)
  have about: "\<exists>c. ?enter (a\<lparr>ac_phase := AC_About\<rparr>) c"
    by (rule chain [OF _ waiting]) (use ac_wait [of "a\<lparr>ac_phase := AC_About\<rparr>"] in simp)
  have top: "\<exists>c. ?enter (a\<lparr>ac_phase := AC_Top\<rparr>) c"
    by (rule chain [OF _ about]) (use ac_round [of "a\<lparr>ac_phase := AC_Top\<rparr>"] assms(1) in simp)
  have "a\<lparr>ac_phase := ac_phase a\<rparr> = a" by simp
  then show ?thesis
    using accepting woken waiting about top assms(4) by (cases "ac_phase a") (simp_all only:, simp)
qed

text \<open>
  No client waits for ever.  In every reachable state in which the listening thread runs and the acceptor
  has not been told to stop, whatever place the acceptor is at, the steps of these two threads alone lead
  to a state in which every client that was pending is served.
\<close>

theorem acceptor_serves_all:
  assumes "acceptor_reachable nonblocking a" and "ac_listening a" and "0 < ac_backlog a"
  shows "\<exists>b. acceptor_steps nonblocking a b \<and> ac_backlog b = 0 \<and> ac_served b = ac_served a + ac_backlog a"
proof -
  have ended: "ac_phase a = AC_Ended \<longrightarrow> ac_stop a"
    using assms(1)
  proof (induction rule: acceptor_reachable.induct)
    case (ac_own a b)
    then show ?case by (auto simp: notify_def elim!: acceptor_stepE split: if_splits)
  next
    case (ac_other a b)
    then show ?case by (auto simp: notify_def elim!: acceptor_envE split: if_splits)
  qed (simp add: Acceptor_new_def)
  have run: "\<not> ac_stop a" using acceptor_stop_order [OF assms(1)] assms(2) by auto
  obtain b where b: "acceptor_steps nonblocking a b" "ac_phase b = AC_Accepting" "\<not> ac_stop b"
    "ac_backlog b = ac_backlog a" "ac_served b = ac_served a"
    using acceptor_enters [OF run assms(2,3)] ended run by blast
  obtain c where "acceptor_steps nonblocking b c" "ac_backlog c = 0" "ac_served c = ac_served b + ac_backlog b"
    using accepting_drains [OF b(2,3)] by blast
  then show ?thesis using b by (intro exI [of _ c]) auto
qed

lemma acceptor_serves_all_witness:
  "\<exists>b. acceptor_steps True (Acceptor_new\<lparr>ac_backlog := 1\<rparr>) b \<and> ac_backlog b = 0 \<and> ac_served b = 1"
proof -
  have "acceptor_reachable True (Acceptor_new\<lparr>ac_backlog := 1\<rparr>)"
    using ac_other [OF ac_start env_client] by (simp add: Acceptor_new_def)
  from acceptor_serves_all [OF this] show ?thesis by (simp add: Acceptor_new_def)
qed

end
