(* ===== verification/ReactorLoop.thy ===== *)
theory ReactorLoop
  imports P2P
begin

text \<open>
  What the event loop of \<^verbatim>\<open>SlaveReactor.cpp\<close> does with the descriptors themselves: the one that wakes it, the
  edge-triggered sockets, and the eventfd counter that several threads write.
\<close>

section \<open>Setting up\<close>

text \<open>\<^verbatim>\<open>init\<close> and \<^verbatim>\<open>createSendTaskEpollFd\<close>, by the results of the three calls; the descriptor on success.\<close>

definition createSendTaskEpollFd :: "int \<Rightarrow> bool \<Rightarrow> int" where
  "createSendTaskEpollFd eventfd ctl_ok = (if eventfd = -1 then -1 else if \<not> ctl_ok then -1 else 0)"

definition SlaveReactor_init :: "int \<Rightarrow> int \<Rightarrow> bool \<Rightarrow> int" where
  "SlaveReactor_init epfd eventfd ctl_ok =
     (if epfd = -1 then -1 else if createSendTaskEpollFd eventfd ctl_ok \<noteq> 0 then -1 else 0)"

lemma SlaveReactor_init_exact:
  "SlaveReactor_init epfd eventfd ctl_ok = 0 \<longleftrightarrow> epfd \<noteq> -1 \<and> eventfd \<noteq> -1 \<and> ctl_ok"
  by (simp add: SlaveReactor_init_def createSendTaskEpollFd_def)

section \<open>The number of the wake-up descriptor\<close>

fun call_session :: "reactor_call \<Rightarrow> session_id" where
  "call_session (DisconnectCall sid) = sid"
| "call_session (DataCall sid bytes) = sid"

text \<open>What a reactor's world knows of one session.\<close>

definition session_view :: "session_id \<Rightarrow> reactor_world \<Rightarrow> p2p_session option \<times> u8 list \<times> reactor_call list" where
  "session_view sid w =
     (map_of (rw_heap w) sid, rw_wire w sid, filter (\<lambda>c. call_session c = sid) (rw_calls w))"

lemma on_session_view:
  assumes "on_session f sid w = Some (Inr w')" and "t \<noteq> sid"
  shows "session_view t w' = session_view t w"
  using assms by (auto simp: on_session_def commit_def session_view_def alist_simps split: option.splits sum.splits)

lemma sr_event_view:
  assumes "sr_event wakeup r ev w = Some (Inr w')" and "wakeup \<noteq> ev_sid ev" and "t \<noteq> ev_sid ev"
  shows "session_view t w' = session_view t w"
proof -
  define session where "session = (case sr_getP2PSession (ev_sid ev) r of None \<Rightarrow> None | Some p \<Rightarrow> map_of (rw_heap w) p)"
  show ?thesis
  proof (cases "handleReady session (ev_err ev) (ev_in ev)")
    case (Received bytes)
    let ?w = "w\<lparr>rw_calls := rw_calls w @ [DataCall (ev_sid ev) bytes]\<rparr>"
    have "session_view t ?w = session_view t w" using assms(3) by (auto simp: session_view_def)
    then show ?thesis
      using assms Received on_session_view [of _ "ev_sid ev" ?w w' t]
      by (auto simp: sr_event_def Let_def session_def [symmetric] split: option.splits)
  next
    case Nothing
    then show ?thesis
      using assms on_session_view [of _ "ev_sid ev" w w' t]
      by (auto simp: sr_event_def Let_def session_def [symmetric] split: option.splits)
  qed (use assms in \<open>auto simp: sr_event_def Let_def session_def [symmetric] session_view_def alist_simps\<close>)
qed


definition ex_deaf_world :: reactor_world where
  "ex_deaf_world = \<lparr>rw_heap = [(9, P2PSession_new (0, 0) 20 9 (rb_new 8) (rb_new 8)),
       (8, P2PSession_new (0, 0) 19 8 (rb_new 8) (rb_new 8))],
     rw_wire = (\<lambda>_. []), rw_calls = []\<rparr>"

definition ex_deaf_events :: "ready_event list" where
  "ex_deaf_events = [\<lparr>ev_sid = 9, ev_err = False, ev_in = Some (RecvData [1, 2]), ev_out = None\<rparr>,
     \<lparr>ev_sid = 8, ev_err = False, ev_in = Some (RecvData [3]), ev_out = None\<rparr>]"


section \<open>Edge-triggered reading\<close>

text \<open>
  Sockets are registered with \<^verbatim>\<open>EPOLLET\<close>: an event comes when bytes arrive, and the loop calls \<^verbatim>\<open>recv\<close> once for
  it, with a buffer of \<^verbatim>\<open>c_defaultSocketRecvBufferSize\<close> bytes.  What the kernel holds beyond that waits for
  the next arrival.  A step is the arrival of some bytes and the reading they cause.
\<close>

definition c_defaultSocketRecvBufferSize :: nat where
  "c_defaultSocketRecvBufferSize = 32 * 1024"

definition read_edge :: "u8 list \<Rightarrow> u8 list \<Rightarrow> u8 list \<times> u8 list" where
  "read_edge arrived left =
     (take c_defaultSocketRecvBufferSize (left @ arrived), drop c_defaultSocketRecvBufferSize (left @ arrived))"

fun read_edges :: "u8 list list \<Rightarrow> u8 list \<Rightarrow> u8 list list \<times> u8 list" where
  "read_edges [] left = ([], left)"
| "read_edges (arrived # rest) left =
     (let (chunk, left1) = read_edge arrived left;
          (chunks, left2) = read_edges rest left1
      in (chunk # chunks, left2))"

text \<open>The bytes that are left behind after each arrival.\<close>

definition backlog :: "nat \<Rightarrow> nat \<Rightarrow> nat" where
  "backlog left n = left + n - c_defaultSocketRecvBufferSize"

text \<open>
  The reactor loses no byte but may leave some unread.  The chunks it hands over and what the kernel
  still holds are the bytes that arrived, in order; after every arrival exactly the bytes beyond 32768
  stay behind, and they are not read before something arrives again, although the socket is not empty.
\<close>

theorem edge_reading_exact:
  "concat (fst (read_edges arrivals left)) @ snd (read_edges arrivals left) = left @ concat arrivals \<and>
   length (snd (read_edges arrivals left)) = foldl backlog (length left) (map length arrivals)"
proof (induction arrivals arbitrary: left)
  case (Cons a arrivals)
  let ?n = c_defaultSocketRecvBufferSize
  let ?k = "drop ?n (left @ a)"
  have l: "length ?k = backlog (length left) (length a)" by (simp add: backlog_def)
  have "take ?n (left @ a) @ ?k = left @ a" by (rule append_take_drop_id)
  then have "take ?n (left @ a) @ concat (fst (read_edges arrivals ?k)) @ snd (read_edges arrivals ?k) =
      left @ a @ concat arrivals"
    using Cons.IH [of ?k] by (metis append.assoc)
  then show ?case
    using Cons.IH [of ?k] l by (simp add: read_edge_def Let_def split_beta del: take_append drop_append)
qed simp

section \<open>Waking the reactor\<close>

text \<open>
  \<^verbatim>\<open>sendData\<close> pushes a task and then writes to the eventfd; the reactor leaves \<^verbatim>\<open>epoll_wait\<close>, swaps the
  queue out, sends, and only then reads the eventfd, which sets its counter to zero.  \<open>wk_writing\<close> counts
  the senders between their two steps, \<open>wk_sent\<close> are the tasks that have been handed to \<^verbatim>\<open>handleSend\<close>, and
  \<open>wk_late\<close> those that were pushed during the last sending phase.
\<close>

datatype loop_phase = L_Waiting | L_Sending

record wake =
  wk_phase :: loop_phase
  wk_queue :: "nat list"
  wk_counter :: nat
  wk_writing :: nat
  wk_sent :: "nat list"
  wk_late :: "nat list"

definition wake_new :: wake where
  "wake_new = \<lparr>wk_phase = L_Waiting, wk_queue = [], wk_counter = 0, wk_writing = 0, wk_sent = [], wk_late = []\<rparr>"

definition take_queue :: "wake \<Rightarrow> wake" where
  "take_queue k = k\<lparr>wk_phase := L_Sending, wk_sent := wk_sent k @ wk_queue k, wk_queue := [], wk_late := []\<rparr>"

inductive wake_step :: "wake \<Rightarrow> wake \<Rightarrow> bool" where
  wake_take: "wk_phase k = L_Waiting \<Longrightarrow> 0 < wk_counter k \<Longrightarrow> wake_step k (take_queue k)"
| wake_read: "wk_phase k = L_Sending \<Longrightarrow> wake_step k 
    (k\<lparr>wk_phase := L_Waiting, wk_counter := 0, wk_late := wk_queue k\<rparr>)"

text \<open>The other threads, and the sockets, which wake the loop too.\<close>

inductive wake_other :: "wake \<Rightarrow> wake \<Rightarrow> bool" where
  other_push: "wake_other k (k\<lparr>wk_queue := wk_queue k @ [t], wk_writing := Suc (wk_writing k)\<rparr>)"
| other_write: "wk_writing k = Suc n \<Longrightarrow> wake_other k (k\<lparr>wk_writing := n, wk_counter := Suc (wk_counter k)\<rparr>)"
| other_socket: "wk_phase k = L_Waiting \<Longrightarrow> wake_other k (take_queue k)"

inductive wake_reachable :: "wake \<Rightarrow> bool" where
  wake_start: "wake_reachable wake_new"
| wake_own: "wake_reachable k \<Longrightarrow> wake_step k l \<Longrightarrow> wake_reachable l"
| wake_env: "wake_reachable k \<Longrightarrow> wake_other k l \<Longrightarrow> wake_reachable l"

inductive_cases wake_stepE: "wake_step k l"
inductive_cases wake_otherE: "wake_other k l"

text \<open>A queue that the reactor will not look at by itself.\<close>

definition stranded :: "wake \<Rightarrow> bool" where
  "stranded k \<longleftrightarrow> wk_queue k \<noteq> [] \<and> (wk_phase k = L_Waiting \<longrightarrow> wk_counter k = 0)"

lemma stranded_step: "wake_step k l \<Longrightarrow> stranded k \<Longrightarrow> stranded l \<and> wk_queue l = wk_queue k"
  by (auto simp: stranded_def take_queue_def elim!: wake_stepE)

lemma stranded_steps: "wake_step\<^sup>*\<^sup>* k l \<Longrightarrow> stranded k \<Longrightarrow> stranded l \<and> wk_queue l = wk_queue k"
proof (induction rule: converse_rtranclp_induct)
  case (step k k')
  then show ?case using stranded_step by metis
qed simp

text \<open>Tasks pushed while the reactor waits are announced, or about to be.\<close>

lemma wake_announced:
  "wake_reachable k \<Longrightarrow> wk_phase k = L_Waiting \<Longrightarrow>
   \<exists>fresh. wk_queue k = wk_late k @ fresh \<and> (fresh = [] \<or> 0 < wk_counter k \<or> 0 < wk_writing k)"
proof (induction rule: wake_reachable.induct)
  case (wake_own k l)
  then show ?case by (auto simp: take_queue_def elim!: wake_stepE)
next
  case (wake_env k l)
  then show ?case by (auto simp: take_queue_def elim!: wake_otherE)
qed (simp add: wake_new_def)

text \<open>
  C15: A message queued while the reactor is sending stays queued.  In every reachable state in which no
  sender is between its two steps, the reactor by itself empties its queue exactly when the queue is
  empty or it is asleep with a pending wake-up; a queue left behind by a
  sleeping reactor consists of the messages pushed while it was sending, whose wake-ups it has read off
  the eventfd; they wait until another message or another socket wakes the loop.
\<close>

theorem send_wakeup_exact:
  assumes "wake_reachable k" and "wk_writing k = 0"
  shows "((\<exists>l. wake_step\<^sup>*\<^sup>* k l \<and> wk_queue l = []) \<longleftrightarrow>
      wk_queue k = [] \<or> wk_phase k = L_Waiting \<and> 0 < wk_counter k) \<and>
    (wk_phase k = L_Waiting \<and> wk_counter k = 0 \<longrightarrow> wk_queue k = wk_late k)"
proof (intro conjI iffI)
  show "wk_phase k = L_Waiting \<and> wk_counter k = 0 \<longrightarrow> wk_queue k = wk_late k"
    using wake_announced [OF assms(1)] assms(2) by auto
next
  assume "\<exists>l. wake_step\<^sup>*\<^sup>* k l \<and> wk_queue l = []"
  then obtain l where l: "wake_step\<^sup>*\<^sup>* k l" "wk_queue l = []" by blast
  have "\<not> stranded k" using stranded_steps [OF l(1)] l(2) by (metis stranded_def)
  then show "wk_queue k = [] \<or> wk_phase k = L_Waiting \<and> 0 < wk_counter k"
    by (simp add: stranded_def)
next
  assume "wk_queue k = [] \<or> wk_phase k = L_Waiting \<and> 0 < wk_counter k"
  then show "\<exists>l. wake_step\<^sup>*\<^sup>* k l \<and> wk_queue l = []"
  proof
    assume "wk_phase k = L_Waiting \<and> 0 < wk_counter k"
    then have "wake_step k (take_queue k)" by (blast intro: wake_take)
    then show ?thesis by (intro exI [of _ "take_queue k"]) (auto simp: take_queue_def)
  qed blast
qed

definition ex_stranded :: wake where
  "ex_stranded = \<lparr>wk_phase = L_Waiting, wk_queue = [2], wk_counter = 0, wk_writing = 0,
     wk_sent = [1], wk_late = [2]\<rparr>"

lemma ex_stranded_reachable: "wake_reachable ex_stranded"
proof -
  let ?push = "\<lambda>t k. k\<lparr>wk_queue := wk_queue k @ [t], wk_writing := Suc (wk_writing k)\<rparr>"
  let ?writing = "\<lambda>k. k\<lparr>wk_writing := 0, wk_counter := Suc (wk_counter k)\<rparr>"
  have "wake_reachable (?writing (?push 1 wake_new))"
    by (rule wake_env [OF wake_env [OF wake_start other_push] other_write]) (simp add: wake_new_def)
  then have "wake_reachable (take_queue (?writing (?push 1 wake_new)))"
    by (rule wake_own) (rule wake_take, simp_all add: wake_new_def)
  from wake_env [OF this other_push [of _ 2]]
  have "wake_reachable (?writing (?push 2 (take_queue (?writing (?push 1 wake_new)))))"
    by (rule wake_env) (rule other_write, simp add: wake_new_def take_queue_def)
  from wake_own [OF this wake_read] show ?thesis
    by (simp add: wake_new_def take_queue_def ex_stranded_def)
qed

lemma send_wakeup_exact_witness:
  "\<not> (\<exists>l. wake_step\<^sup>*\<^sup>* ex_stranded l \<and> wk_queue l = []) \<and> wk_queue ex_stranded = wk_late ex_stranded"
  using send_wakeup_exact [OF ex_stranded_reachable] by (simp add: ex_stranded_def)

end
