(* ===== verification/Boot.thy ===== *)
theory Boot
  imports Rpc Logging Acceptor ReactorLoop
begin

text \<open>
  How a node comes up: the initializers of \<^verbatim>\<open>csm-initializer\<close>, \<^verbatim>\<open>P2PService::init\<close> as a sequence of steps
  that may fail, and \<^verbatim>\<open>main\<close>.
\<close>

section \<open>The steps\<close>

text \<open>
  Everything the start depends on: the configuration file and its libraries, the file system and clock of
  the logger, the answers of the kernel, and what the JSON reader makes of the nodes file.
\<close>

record boot_env =
  en_json :: json_lib
  en_junk16 :: u16
  en_junk64 :: u64
  en_dir :: string
  en_ini :: "ini option"
  en_fs :: file_system
  en_tm :: tm
  en_kernel :: kernel
  en_reactor :: "nat \<Rightarrow> int \<times> int \<times> bool"
  en_nodes :: "string \<Rightarrow> string list option"

text \<open>\<^verbatim>\<open>P2PServiceFactory::create\<close>; the parts without state are not shown.\<close>

definition P2PServiceFactory_create :: "node_config \<Rightarrow> p2p_service" where
  "P2PServiceFactory_create c =
     P2PService_new (unat (nc_slaveReactorNum c)) (nc_nodeId c) (HostEndPointInfo (nc_p2pIp c) (nc_p2pPort c))
       HostsInfoManager_new"

fun init_reactors :: "(nat \<Rightarrow> int \<times> int \<times> bool) \<Rightarrow> nat \<Rightarrow> int" where
  "init_reactors f 0 = 0"
| "init_reactors f (Suc n) =
     (case f n of (epfd, eventfd, ctl_ok) \<Rightarrow>
        if SlaveReactor_init epfd eventfd ctl_ok = -1 then -1 else init_reactors f n)"

definition initClient :: "boot_env \<Rightarrow> node_config \<Rightarrow> p2p_service \<Rightarrow> int \<times> p2p_service" where
  "initClient en c st =
     (let (ret, infos) = HostsInfoManager_init (en_junk16 en) (en_nodes en (nc_nodesFile c)) (sv_hostsInfo st);
          st1 = st\<lparr>sv_hostsInfo := infos\<rparr>
      in if ret = -1 then (-1, st1) else (0, st1))"

text \<open>
  \<^verbatim>\<open>P2PService::init\<close>.  The initialisers of the dispatcher, destroyer, watchdog, processors, connector,
  heartbeat service and router only create threads and return 0.
\<close>

definition P2PService_init :: "boot_env \<Rightarrow> node_config \<Rightarrow> p2p_service \<Rightarrow> int \<times> p2p_service" where
  "P2PService_init en c st =
     (if init_reactors (en_reactor en) (length (sv_reactors st)) = -1 then (-1, st)
      else if ls_ret (initServer (en_kernel en) (nc_p2pIp c) (nc_p2pPort c)) = -1 then (-1, st)
      else initClient en c st)"

definition P2PServiceInitializer_init :: "boot_env \<Rightarrow> node_config \<Rightarrow> p2p_service \<Rightarrow> int \<times> p2p_service" where
  "P2PServiceInitializer_init en c st =
     P2PService_init en c (registerModulePacketHandler M_rpc (\<lambda>nodeId data. 0) st)"

definition HttpRpcServer_init :: int where
  "HttpRpcServer_init = 0"

text \<open>The program; \<open>nd_raft\<close> is the consensus initializer, which is declared but never made.\<close>

record node =
  nd_config :: node_config
  nd_log :: logger
  nd_p2p :: "p2p_service option"
  nd_rpc :: bool
  nd_raft :: bool

definition Initializer_new :: node where
  "Initializer_new = \<lparr>nd_config = NodeConfig_new, nd_log = Logger_new, nd_p2p = None, nd_rpc = False, nd_raft = False\<rparr>"

definition Initializer_init :: "boot_env \<Rightarrow> node \<Rightarrow> (int \<times> node) run" where
  "Initializer_init en nd =
     and_then (NodeConfig_init (en_json en) (en_junk16 en) (en_junk64 en) (en_dir en) (en_ini en) NodeConfig_new)
     (\<lambda>(ret, c).
        let nd1 = nd\<lparr>nd_config := c\<rparr>
        in if ret = -1 then Inr (-1, nd1)
           else and_then (AppLogInitializer_init (en_fs en) (en_tm en) c (nd_log nd1)) (\<lambda>(ret, lg).
             let nd2 = nd1\<lparr>nd_log := lg\<rparr>
             in if ret = -1 then Inr (-1, nd2)
                else (let (started, lg1) = Logger_start lg;
                          nd3 = nd2\<lparr>nd_log := lg1\<rparr>
                      in if started = -1 then Inr (-1, nd3)
                         else (let (ret, st) = P2PServiceInitializer_init en c (P2PServiceFactory_create c);
                                   nd4 = nd3\<lparr>nd_p2p := Some st\<rparr>
                               in if ret = -1 then Inr (-1, nd4)
                                  else if HttpRpcServer_init = -1 then Inr (-1, nd4\<lparr>nd_rpc := True\<rparr>)
                                  else Inr (0, nd4\<lparr>nd_rpc := True\<rparr>)))))"

text \<open>
  \<^verbatim>\<open>main\<close> up to the loop that waits for a signal; \<^verbatim>\<open>Initializer::start\<close> starts threads and returns 0.  The
  result is the exit code, or the running node.
\<close>

definition Initializer_start :: "node \<Rightarrow> int" where
  "Initializer_start nd = 0"

definition program_main :: "nat \<Rightarrow> boot_env \<Rightarrow> (int + node) run" where
  "program_main argc en =
     (if argc < 2 then Inr (Inl (-1))
      else and_then (Initializer_init en Initializer_new) (\<lambda>(ret, nd).
        if ret = -1 then Inr (Inl (-1))
        else if Initializer_start nd = -1 then Inr (Inl (-1))
        else Inr (Inr nd)))"

section \<open>When a node comes up\<close>

definition reactors_up :: "boot_env \<Rightarrow> node_config \<Rightarrow> bool" where
  "reactors_up en c \<longleftrightarrow> (\<forall>i < unat (nc_slaveReactorNum c).
     case en_reactor en i of (epfd, eventfd, ctl_ok) \<Rightarrow> epfd \<noteq> -1 \<and> eventfd \<noteq> -1 \<and> ctl_ok)"

definition log_file_name :: "boot_env \<Rightarrow> node_config \<Rightarrow> string" where
  "log_file_name en c = generateLogFullFilename (nc_logPath c) (generateLogFilename (en_tm en))"

text \<open>The nodes file is read, and each of its entries has an address and a port.\<close>

definition nodes_up :: "boot_env \<Rightarrow> node_config \<Rightarrow> bool" where
  "nodes_up en c \<longleftrightarrow> (\<exists>hosts. en_nodes en (nc_nodesFile c) = Some hosts \<and>
     (\<forall>h \<in> set hosts. length (split_string CHR '':'' h) = 2))"

lemma init_reactors_result:
  "init_reactors f n = (if \<forall>i < n. case f i of (a, b, c) \<Rightarrow> a \<noteq> -1 \<and> b \<noteq> -1 \<and> c then 0 else -1)"
  by (induction n) (auto simp: SlaveReactor_init_def createSendTaskEpollFd_def less_Suc_eq split: prod.splits)

lemma init_hosts_result:
  "fst (init_hosts junk hs st) = (if \<forall>h \<in> set hs. length (split_string CHR '':'' h) = 2 then 0 else -1)"
  by (induction hs arbitrary: st) (auto split: list.split)

lemma HostsInfoManager_init_result:
  "fst (HostsInfoManager_init junk (en_nodes en (nc_nodesFile c)) st) = (if nodes_up en c then 0 else -1)"
  by (auto simp: HostsInfoManager_init_def nodes_up_def init_hosts_result split: option.splits)

lemma AppLog_result:
  "AppLogInitializer_init fs t c lg = (if nc_enableFileLog c \<and> \<not> fs_createDirectory fs (nc_logPath c) then Inl Uncaught
     else Inr (if nc_enableFileLog c \<and> \<not> fs_open fs (generateLogFullFilename (nc_logPath c) (generateLogFilename t)) then -1 else 0,
       snd (projr (AppLogInitializer_init fs t c lg))))"
  by (simp add: AppLogInitializer_init_def Logger_init_def Let_def)

section \<open>Modules\<close>

text \<open>The registered modules and the calls made of them; only the module processor changes the latter.\<close>

definition modules :: "p2p_service \<Rightarrow> (module_id, module_handler) umap \<times> (module_id \<times> node_id \<times> u8 list) list" where
  "modules st = (sv_moduleHandlers st, sv_delivered st)"

lemma modules_update [simp]:
  "modules (set_session s st) = modules st" "modules (set_reactor i r st) = modules st"
  "modules (st\<lparr>sv_hostsInfo := infos\<rparr>) = modules st" "modules (st\<lparr>sv_dispatcher := d\<rparr>) = modules st"
  "modules (st\<lparr>sv_alive := al\<rparr>) = modules st" "modules (st\<lparr>sv_reactors := rs\<rparr>) = modules st"
  "modules (st\<lparr>sv_heap := h\<rparr>) = modules st" "modules (st\<lparr>sv_destroyer := q\<rparr>) = modules st"
  "modules (st\<lparr>sv_serviceQueue := sq\<rparr>) = modules st" "modules (st\<lparr>sv_moduleQueue := mq\<rparr>) = modules st"
  "modules (st\<lparr>sv_connecting := cs\<rparr>) = modules st" "modules (release sid st) = modules st"
  "modules (queue_destroy info st) = modules st"
  by (simp_all add: modules_def set_session_def set_reactor_def release_def queue_destroy_def)

lemma sendData_modules: "svc_sendData sid data st = Inr (ret, st') \<Longrightarrow> modules st' = modules st"
  by (auto dest: svc_sendData_frame)

lemma send_each_modules: "send_each hosts buffer st = Inr st' \<Longrightarrow> modules st' = modules st"
  by (induction hosts buffer st rule: send_each.induct) (auto simp: and_then_Inr dest!: sendData_modules)

lemma heartbeat_modules: "heartbeat_round now hosts st = Inr st' \<Longrightarrow> modules st' = modules st"
  by (induction now hosts st rule: heartbeat_round.induct)
    (auto simp: and_then_Inr heartbeat_sender_def dest!: sendData_modules split: if_splits option.splits)

lemma newClient_modules: "newClientCallback ok s st = Inr st' \<Longrightarrow> modules st' = modules st"
  by (auto simp: newClientCallback_def and_then_Inr Let_def split_beta split: option.splits if_splits)

lemma connect_modules: "connectHandler pb ok s st = Inr st' \<Longrightarrow> modules st' = modules st"
  by (auto simp: connectHandler_def and_then_Inr Let_def split_beta
      dest!: sendData_modules split: option.splits if_splits)

lemma timeout_modules [simp]: "modules (timeoutHandler sessions st) = modules st"
  by (induction sessions st rule: timeoutHandler.induct) simp_all

lemma fold_release_modules [simp]: "modules (fold release sids st) = modules st"
  by (induction sids arbitrary: st) simp_all

lemma onClientInfo_modules: "onClientInfo pb junk sid pl st = Inr (ret, st') \<Longrightarrow> modules st' = modules st"
  by (auto simp: onClientInfo_def client_info_result_def and_then_Inr Let_def split_beta
      dest!: sendData_modules split: option.splits payload.splits if_splits)

lemma onClientInfoReply_modules: "onClientInfoReply junk sid pl st = Inr (ret, st') \<Longrightarrow> modules st' = modules st"
  by (auto simp: onClientInfoReply_def rename_other_def reply_accepted_def and_then_Inr Let_def split_beta
      split: option.splits payload.splits if_splits)

lemma service_turn_modules: "service_turn pb junk st = Inr st' \<Longrightarrow> modules st' = modules st"
  by (auto simp: service_turn_def service_handler_def onHeartBeat_def onHeartBeatReply_def and_then_Inr Let_def split_beta
      dest!: sendData_modules onClientInfo_modules onClientInfoReply_modules
      split: list.splits option.splits packet_type.splits if_splits)

lemma destroy_modules: "destroy_next ok st = Inr st' \<Longrightarrow> modules st' = modules st"
  by (auto simp: destroy_next_def destroyHandler_def disconnectClient_def and_then_Inr Let_def split_beta
      split: option.splits if_splits)

text \<open>Only registered modules are called.\<close>

lemma step_modules:
  assumes "p2p_step pb junk e st = Inr st'"
  shows "sv_moduleHandlers st' = sv_moduleHandlers st \<and>
    (sv_delivered st' = sv_delivered st \<or>
     (\<exists>m n bytes. sv_delivered st' = sv_delivered st @ [(m, n, bytes)] \<and> map_of (sv_moduleHandlers st) m \<noteq> None))"
proof (cases "e = ModuleTurn")
  case True
  then show ?thesis
    using assms
    by (auto simp: module_turn_def onModuleMessage_def and_then_Inr lock_session_def Let_def
        split: list.splits option.splits payload.splits if_splits)
next
  case False
  then have "modules st' = modules st"
    using assms
    by (cases e)
      (auto simp: and_then_Inr newClient_modules connect_modules route_packet_def disconnectHandler_def
        alive_tick_def Let_def split_beta HostsHeartbeatService_run_def heartbeat_modules boardcastModuleMessage_def
        sendModuleMessageByNodeId_def distance_sender_def tasks_done_def service_turn_modules destroy_modules
        dest!: send_each_modules sendData_modules split: option.splits if_splits)
  then show ?thesis by (simp add: modules_def)
qed

lemma run_modules:
  "p2p_run pb junk es st = Some st' \<Longrightarrow> sv_moduleHandlers st' = sv_moduleHandlers st \<and>
   (\<forall>x \<in> set (sv_delivered st'). x \<in> set (sv_delivered st) \<or> map_of (sv_moduleHandlers st) (fst x) \<noteq> None)"
proof (induction es arbitrary: st)
  case (Cons e es)
  then obtain st1 where 1: "p2p_step pb junk e st = Inr st1" "p2p_run pb junk es st1 = Some st'"
    by (auto split: if_splits sum.splits)
  have "x \<in> set (sv_delivered st1) \<Longrightarrow> x \<in> set (sv_delivered st) \<or> map_of (sv_moduleHandlers st) (fst x) \<noteq> None" for x
    using step_modules [OF 1(1)] by auto
  then show ?case using step_modules [OF 1(1)] Cons.IH [OF 1(2)] by metis
qed simp

section \<open>What comes up\<close>

lemma P2PServiceInitializer_result:
  assumes "inet_pton_documented (en_kernel en)"
  shows "\<exists>infos. P2PServiceInitializer_init en c (P2PServiceFactory_create c) =
    (if reactors_up en c \<and> socket_up (en_kernel en) (nc_p2pIp c) (nc_p2pPort c) \<and> nodes_up en c then 0 else -1,
     (P2PService_new (unat (nc_slaveReactorNum c)) (nc_nodeId c) (HostEndPointInfo (nc_p2pIp c) (nc_p2pPort c)) infos)
       \<lparr>sv_moduleHandlers := [(M_rpc, \<lambda>nodeId data. 0)]\<rparr>)"
proof -
  let ?st = "P2PService_new (unat (nc_slaveReactorNum c)) (nc_nodeId c) (HostEndPointInfo (nc_p2pIp c) (nc_p2pPort c))"
  let ?reg = "\<lambda>infos. (?st infos)\<lparr>sv_moduleHandlers := [(M_rpc, \<lambda>nodeId data. 0)]\<rparr>"
  have n: "length (sv_reactors (?reg HostsInfoManager_new)) = unat (nc_slaveReactorNum c)"
    "length (sv_reactors (?st HostsInfoManager_new)) = unat (nc_slaveReactorNum c)"
    by (simp_all add: P2PService_new_def SlaveReactorPool_new_def)
  have reg: "registerModulePacketHandler M_rpc (\<lambda>nodeId data. 0) (?st HostsInfoManager_new) = ?reg HostsInfoManager_new"
    by (simp add: registerModulePacketHandler_def P2PService_new_def)
  have r: "init_reactors (en_reactor en) (unat (nc_slaveReactorNum c)) = (if reactors_up en c then 0 else -1)"
    by (simp add: init_reactors_result reactors_up_def)
  note sock = init_server_result [OF assms, of "nc_p2pIp c" "nc_p2pPort c"]
  obtain ret infos where h: "HostsInfoManager_init (en_junk16 en) (en_nodes en (nc_nodesFile c)) HostsInfoManager_new = (ret, infos)"
    by (cases "HostsInfoManager_init (en_junk16 en) (en_nodes en (nc_nodesFile c)) HostsInfoManager_new")
  then have ret: "ret = (if nodes_up en c then 0 else -1)"
    using HostsInfoManager_init_result [of "en_junk16 en" en c HostsInfoManager_new] by simp
  have hosts: "sv_hostsInfo (?reg HostsInfoManager_new) = HostsInfoManager_new"
    "(?reg HostsInfoManager_new)\<lparr>sv_hostsInfo := infos\<rparr> = ?reg infos"
    by (simp_all add: P2PService_new_def)
  have cl: "initClient en c (?reg HostsInfoManager_new) = (if nodes_up en c then 0 else -1, ?reg infos)"
    using ret by (simp add: initClient_def hosts h Let_def del: select_convs update_convs)
  show ?thesis
    using sock
    by (auto simp: P2PServiceInitializer_init_def P2PServiceFactory_create_def P2PService_init_def reg n r cl
        simp del: select_convs update_convs)
qed

text \<open>The conditions on the log file, once its directory is there.\<close>

definition log_up :: "boot_env \<Rightarrow> node_config \<Rightarrow> bool" where
  "log_up en c \<longleftrightarrow> \<not> nc_enableFileLog c \<or> fs_open (en_fs en) (log_file_name en c)"

definition load_config :: "boot_env \<Rightarrow> (int \<times> node_config) run" where
  "load_config en =
     NodeConfig_init (en_json en) (en_junk16 en) (en_junk64 en) (en_dir en) (en_ini en) NodeConfig_new"

lemma program_main_result:
  assumes "2 \<le> argc" and "load_config en = Inr (0, c)" and "inet_pton_documented (en_kernel en)"
  shows "if nc_enableFileLog c \<and> \<not> fs_createDirectory (en_fs en) (nc_logPath c)
    then program_main argc en = Inl Uncaught
    else if log_up en c \<and> reactors_up en c \<and> socket_up (en_kernel en) (nc_p2pIp c) (nc_p2pPort c) \<and> nodes_up en c
    then \<exists>nd infos. program_main argc en = Inr (Inr nd) \<and> \<not> nd_raft nd \<and>
      nd_p2p nd = Some ((P2PService_new (unat (nc_slaveReactorNum c)) (nc_nodeId c)
        (HostEndPointInfo (nc_p2pIp c) (nc_p2pPort c)) infos)\<lparr>sv_moduleHandlers := [(M_rpc, \<lambda>nodeId data. 0)]\<rparr>)
    else program_main argc en = Inr (Inl (-1))"
proof -
  obtain infos where p: "P2PServiceInitializer_init en c (P2PServiceFactory_create c) =
    (if reactors_up en c \<and> socket_up (en_kernel en) (nc_p2pIp c) (nc_p2pPort c) \<and> nodes_up en c then 0 else -1,
     (P2PService_new (unat (nc_slaveReactorNum c)) (nc_nodeId c) (HostEndPointInfo (nc_p2pIp c) (nc_p2pPort c)) infos)
       \<lparr>sv_moduleHandlers := [(M_rpc, \<lambda>nodeId data. 0)]\<rparr>)"
    using P2PServiceInitializer_result [OF assms(3)] by blast
  obtain lg where l: "AppLogInitializer_init (en_fs en) (en_tm en) c Logger_new =
      (if nc_enableFileLog c \<and> \<not> fs_createDirectory (en_fs en) (nc_logPath c) then Inl Uncaught
       else Inr (if log_up en c then 0 else -1, lg))"
    using AppLog_result [of "en_fs en" "en_tm en" c Logger_new]
    by (auto simp: log_up_def log_file_name_def split: if_splits)
  have s: "Logger_start lg = (0, snd (Logger_start lg))" by (simp add: Logger_start_def)
  show ?thesis
    using assms(1,2)
    by (subst (asm) load_config_def) (auto simp: program_main_def Initializer_init_def Initializer_new_def
        Initializer_start_def HttpRpcServer_init_def l p Let_def split_beta Logger_start_def)
qed


text \<open>
  C33: A running node has no consensus module.  The service it starts with has a handler for the module
  \<^verbatim>\<open>rpc\<close> only, so whatever packets arrive, no handler of Raft is ever called; \<^verbatim>\<open>initP2PServiceModuleMessageHandler\<close>,
  which would register one, is not called, and the initializer it uses is never made.  With at least two
  reactors that service is a reachable state of the model of \<^verbatim>\<open>P2PService\<close>, to which its theorems apply.
\<close>

theorem consensus_never_runs:
  assumes "2 \<le> argc" and "load_config en = Inr (0, c)" and "inet_pton_documented (en_kernel en)"
    and "program_main argc en = Inr (Inr nd)"
  shows "\<not> nd_raft nd \<and> (\<exists>st. nd_p2p nd = Some st \<and>
    (2 \<le> unat (nc_slaveReactorNum c) \<longrightarrow> p2p_reachable pb junk st) \<and>
    (\<forall>es st'. p2p_run pb junk es st = Some st' \<longrightarrow> (\<forall>x \<in> set (sv_delivered st'). fst x = M_rpc)))"
proof -
  obtain infos where nd: "\<not> nd_raft nd" "nd_p2p nd = Some ((P2PService_new (unat (nc_slaveReactorNum c)) (nc_nodeId c)
      (HostEndPointInfo (nc_p2pIp c) (nc_p2pPort c)) infos)\<lparr>sv_moduleHandlers := [(M_rpc, \<lambda>nodeId data. 0)]\<rparr>)"
    using program_main_result [OF assms(1-3)] assms(4) by (auto split: if_splits)
  let ?st = "(P2PService_new (unat (nc_slaveReactorNum c)) (nc_nodeId c)
      (HostEndPointInfo (nc_p2pIp c) (nc_p2pPort c)) infos)\<lparr>sv_moduleHandlers := [(M_rpc, \<lambda>nodeId data. 0)]\<rparr>"
  have "sv_delivered ?st = []" "sv_moduleHandlers ?st = [(M_rpc, \<lambda>nodeId data. 0)]" by (simp_all add: P2PService_new_def)
  then have "fst x = M_rpc" if "p2p_run pb junk es ?st = Some st'" "x \<in> set (sv_delivered st')" for es st' x
    using run_modules [OF that(1)] that(2) by (auto split: if_splits)
  moreover have "2 \<le> unat (nc_slaveReactorNum c) \<longrightarrow> p2p_reachable pb junk ?st" by (blast intro: p2p_reachable.start)
  ultimately show ?thesis using nd by blast
qed

definition ex_boot_env :: boot_env where
  "ex_boot_env = \<lparr>en_json = \<lparr>js_write = (\<lambda>v. []), js_parse = (\<lambda>s. None)\<rparr>, en_junk16 = 0, en_junk64 = 0,
     en_dir = ''/etc'', en_ini = Some ex_ini, en_fs = ex_fs, en_tm = ex_tm, en_kernel = ex_kernel,
     en_reactor = (\<lambda>i. (5, 6, True)), en_nodes = (\<lambda>f. Some [])\<rparr>"

lemma ex_load: "load_config ex_boot_env = Inr (0, ex_config)"
proof -
  obtain c where c: "load_config ex_boot_env = Inr (0, c)"
    by (auto simp: load_config_def ex_boot_env_def NodeConfig_init_def ex_ini_def NodeConfig_new_def
        parseClusterConfig_def parseRpcConfig_def parseNetworkConfig_def parseLogConfig_def getValue_def
        relative_to_def log_type_of_def Let_def)
  then show ?thesis by (simp add: ex_config_def load_config_def ex_boot_env_def)
qed

lemma ex_boot_ok: "inet_pton_documented (en_kernel ex_boot_env)" "log_up ex_boot_env c" "reactors_up ex_boot_env c"
  "socket_up (en_kernel ex_boot_env) ip port" "nodes_up ex_boot_env c" "fs_createDirectory (en_fs ex_boot_env) d"
  by (simp_all add: inet_pton_documented_def log_up_def reactors_up_def socket_up_def nodes_up_def ex_boot_env_def
      ex_kernel_def ex_fs_def)


lemma consensus_never_runs_witness:
  "\<exists>nd. program_main 2 ex_boot_env = Inr (Inr nd) \<and> \<not> nd_raft nd \<and> nd_p2p nd \<noteq> None"
proof -
  obtain nd where nd: "program_main 2 ex_boot_env = Inr (Inr nd)"
    using program_main_result [OF _ ex_load ex_boot_ok(1), of 2] by (auto simp: ex_boot_ok)
  then show ?thesis using consensus_never_runs [OF _ ex_load ex_boot_ok(1) nd, of undefined undefined] by auto
qed

end
