(* ===== verification/Threads.thy ===== *)
theory Threads
  imports Prelude
begin

text \<open>
  \<^verbatim>\<open>csm-utilities/Thread.cpp\<close>: a thread that calls its function until it is told to stop, pausing between
  calls.  The function is a relation over the state it shares with others and its own program points, so
  that whatever others do can happen between any two of its statements.  The theory has the loop, the
  contracts that make a thread end when it is told to, and the threads that only pause.
\<close>

section \<open>The thread\<close>

text \<open>
  \<open>T_Loop\<close> is the condition of the loop, \<open>T_Pause\<close> the test behind the call, \<open>T_Sleep\<close> the timed wait, and
  \<open>T_Ended\<close> also a thread that was never started.
\<close>

datatype 'p thread_phase = T_Loop | T_Body 'p | T_Pause | T_Sleep | T_Ended | T_Crashed fault

datatype 'p outcome = Go 'p | Return | Crash fault

record ('s, 'p) threaded =
  th_shared :: 's
  th_phase :: "'p thread_phase"
  th_stop :: bool
  th_isStart :: bool

type_synonym ('s, 'p) body = "bool \<Rightarrow> 's \<Rightarrow> 'p \<Rightarrow> 's \<Rightarrow> 'p outcome \<Rightarrow> bool"

definition Thread_new :: "'s \<Rightarrow> ('s, 'p) threaded" where
  "Thread_new s = \<lparr>th_shared = s, th_phase = T_Ended, th_stop = False, th_isStart = False\<rparr>"

fun after_outcome :: "'p outcome \<Rightarrow> 'p thread_phase" where
  "after_outcome (Go p) = T_Body p"
| "after_outcome Return = T_Pause"
| "after_outcome (Crash e) = T_Crashed e"

text \<open>
  The body of the \<^verbatim>\<open>jthread\<close>: \<open>entry\<close> is where the function begins and \<open>body\<close> one of its statements, given
  what the stop token says.  The timed wait ends by itself.
\<close>

inductive thread_step :: "nat \<Rightarrow> 'p \<Rightarrow> ('s, 'p) body \<Rightarrow> ('s, 'p) threaded \<Rightarrow> ('s, 'p) threaded \<Rightarrow> bool"
  for interval entry body where
  th_enter: "th_phase t = T_Loop \<Longrightarrow> \<not> th_stop t \<Longrightarrow>
    thread_step interval entry body t (t\<lparr>th_phase := T_Body entry\<rparr>)"
| th_leave: "th_phase t = T_Loop \<Longrightarrow> th_stop t \<Longrightarrow> thread_step interval entry body t (t\<lparr>th_phase := T_Ended\<rparr>)"
| th_work: "th_phase t = T_Body p \<Longrightarrow> body (th_stop t) (th_shared t) p s r \<Longrightarrow>
    thread_step interval entry body t (t\<lparr>th_shared := s, th_phase := after_outcome r\<rparr>)"
| th_continue: "th_phase t = T_Pause \<Longrightarrow> th_stop t \<or> interval = 0 \<Longrightarrow>
    thread_step interval entry body t (t\<lparr>th_phase := T_Loop\<rparr>)"
| th_wait: "th_phase t = T_Pause \<Longrightarrow> \<not> th_stop t \<Longrightarrow> 0 < interval \<Longrightarrow>
    thread_step interval entry body t (t\<lparr>th_phase := T_Sleep\<rparr>)"
| th_awake: "th_phase t = T_Sleep \<Longrightarrow> thread_step interval entry body t (t\<lparr>th_phase := T_Loop\<rparr>)"

inductive_cases thread_stepE: "thread_step interval entry body t u"

text \<open>
  \<^verbatim>\<open>start\<close> and \<^verbatim>\<open>stop\<close>.  Starting anew makes the new thread before it joins the old one; here it happens
  only when the old one has ended.  A notification of a timed wait changes nothing but the time.
\<close>

definition can_start :: "('s, 'p) threaded \<Rightarrow> bool" where
  "can_start t \<longleftrightarrow> th_isStart t \<or> th_phase t = T_Ended"

definition start_thread :: "('s, 'p) threaded \<Rightarrow> ('s, 'p) threaded" where
  "start_thread t =
     (if th_isStart t then t else t\<lparr>th_phase := T_Loop, th_stop := False, th_isStart := True\<rparr>)"

definition stop_thread :: "('s, 'p) threaded \<Rightarrow> ('s, 'p) threaded" where
  "stop_thread t = (if \<not> th_isStart t then t else t\<lparr>th_stop := True, th_isStart := False\<rparr>)"

text \<open>What holds of the flags at any time.\<close>

definition flags_ok :: "('s, 'p) threaded \<Rightarrow> bool" where
  "flags_ok t \<longleftrightarrow> (th_isStart t \<longrightarrow> \<not> th_stop t \<and> th_phase t \<noteq> T_Ended) \<and>
     (\<not> th_isStart t \<longrightarrow> th_stop t \<or> th_phase t = T_Ended)"

lemma flags_ok_new: "flags_ok (Thread_new s)"
  by (simp add: flags_ok_def Thread_new_def)

lemma flags_ok_step: "thread_step interval entry body t u \<Longrightarrow> flags_ok t \<Longrightarrow> flags_ok u"
  by (erule thread_stepE) (auto simp: flags_ok_def elim: after_outcome.elims)

lemma flags_ok_start: "flags_ok t \<Longrightarrow> flags_ok (start_thread t)"
  and flags_ok_stop: "flags_ok t \<Longrightarrow> flags_ok (stop_thread t)"
  by (auto simp: flags_ok_def start_thread_def stop_thread_def)

lemma flags_ok_shared: "flags_ok t \<Longrightarrow> flags_ok (t\<lparr>th_shared := s\<rparr>)"
  by (simp add: flags_ok_def)

section \<open>Contracts\<close>

text \<open>
  A thread among others: \<open>own\<close> are its steps, \<open>env\<close> what others do, \<open>good\<close> an invariant of both.
\<close>

locale thread_life =
  fixes own env :: "'x \<Rightarrow> 'x \<Rightarrow> bool" and fresh good :: "'x \<Rightarrow> bool"
  assumes good_fresh: "fresh x \<Longrightarrow> good x"
    and good_own: "good x \<Longrightarrow> own x y \<Longrightarrow> good y"
    and good_env: "good x \<Longrightarrow> env x y \<Longrightarrow> good y"
begin

lemma reachable_good: "(\<lambda>x y. own x y \<or> env x y)\<^sup>*\<^sup>* x y \<Longrightarrow> fresh x \<Longrightarrow> good y"
  by (induction rule: rtranclp_induct) (auto intro: good_fresh good_own good_env)

lemma own_steps_good: "own\<^sup>*\<^sup>* x y \<Longrightarrow> good x \<Longrightarrow> good y"
  by (induction rule: rtranclp_induct) (auto intro: good_own)

end

text \<open>
  The contract of stopping: once the thread has been \<open>told\<close>, it is never at a loss for a step before it has
  ended, and each step brings the end nearer.  Then it ends, however its own choices fall.
\<close>

locale stoppable = thread_life own env fresh good
  for own env :: "'x \<Rightarrow> 'x \<Rightarrow> bool" and fresh good :: "'x \<Rightarrow> bool" +
  fixes told ended :: "'x \<Rightarrow> bool" and rank :: "'x \<Rightarrow> nat"
  assumes told_own: "good x \<Longrightarrow> told x \<Longrightarrow> own x y \<Longrightarrow> told y"
    and not_stuck: "good x \<Longrightarrow> told x \<Longrightarrow> \<not> ended x \<Longrightarrow> \<exists>y. own x y"
    and nearer: "good x \<Longrightarrow> told x \<Longrightarrow> own x y \<Longrightarrow> rank y < rank x"
begin

lemma ends: "good x \<Longrightarrow> told x \<Longrightarrow> \<exists>y. own\<^sup>*\<^sup>* x y \<and> ended y"
proof (induction "rank x" arbitrary: x rule: less_induct)
  case less
  show ?case
  proof (cases "ended x")
    case False
    with less.prems obtain y where y: "own x y" using not_stuck by blast
    from less.hyps [OF nearer [OF less.prems y] good_own [OF less.prems(1) y] told_own [OF less.prems y]]
    obtain z where "own\<^sup>*\<^sup>* y z" "ended z" by blast
    with y show ?thesis by (blast intro: converse_rtranclp_into_rtranclp)
  qed blast
qed

lemma at_most: "(own ^^ n) x y \<Longrightarrow> good x \<Longrightarrow> told x \<Longrightarrow> n + rank y \<le> rank x"
proof (induction n arbitrary: y)
  case (Suc n)
  from Suc.prems(1) obtain z where z: "(own ^^ n) x z" "own z y" by auto
  have "good z" "told z"
  proof -
    have "good w \<and> told w" if "(own ^^ k) x w" for k w
      using that
    proof (induction k arbitrary: w)
      case (Suc k)
      then show ?case by (auto dest: good_own) (blast dest: told_own)+
    qed (use Suc.prems in simp)
    with z show "good z" "told z" by blast+
  qed
  with nearer [OF _ _ z(2)] Suc.IH [OF z(1) Suc.prems(2,3)] show ?case by fastforce
qed simp

end

text \<open>
  A thread that others cannot keep from ending: what they do between its steps does not send it back.
  \<open>disturbed\<close> is one step of its own after any number of others', none of which takes the word back.
\<close>

locale undisturbed = stoppable own env fresh good told ended rank
  for own env :: "'x \<Rightarrow> 'x \<Rightarrow> bool" and fresh good told ended :: "'x \<Rightarrow> bool" and rank :: "'x \<Rightarrow> nat" +
  assumes env_rank: "good x \<Longrightarrow> told x \<Longrightarrow> env x y \<Longrightarrow> told y \<Longrightarrow> rank y \<le> rank x"
begin

lemma env_steps_rank:
  "(\<lambda>x y. env x y \<and> told y)\<^sup>*\<^sup>* x y \<Longrightarrow> good x \<Longrightarrow> told x \<Longrightarrow> good y \<and> told y \<and> rank y \<le> rank x"
proof (induction rule: rtranclp_induct)
  case (step y z)
  then show ?case using env_rank good_env by fastforce
qed simp

lemma at_most_disturbed:
  "(((\<lambda>x y. env x y \<and> told y)\<^sup>*\<^sup>* OO own) ^^ n) x y \<Longrightarrow> good x \<Longrightarrow> told x \<Longrightarrow>
   good y \<and> told y \<and> n + rank y \<le> rank x"
proof (induction n arbitrary: y)
  case (Suc n)
  from Suc.prems(1) obtain z where z: "(((\<lambda>x y. env x y \<and> told y)\<^sup>*\<^sup>* OO own) ^^ n) x z"
    and zy: "((\<lambda>x y. env x y \<and> told y)\<^sup>*\<^sup>* OO own) z y"
    by (auto simp: relpowp.simps)
  from zy obtain w where w: "(\<lambda>x y. env x y \<and> told y)\<^sup>*\<^sup>* z w" "own w y" by blast
  have gz: "good z" "told z" "n + rank z \<le> rank x" using Suc.IH [OF z Suc.prems(2,3)] by auto
  have gw: "good w" "told w" "rank w \<le> rank z" using env_steps_rank [OF w(1) gz(1,2)] by auto
  with nearer [OF gw(1,2) w(2)] good_own [OF gw(1) w(2)] told_own [OF gw(1,2) w(2)] gz(3)
  show ?case by auto
qed simp

end


section \<open>Bodies that return when told\<close>

text \<open>
  When the stop is requested, a body with the contract \<open>returning_body\<close> has a next statement wherever it
  is, never faults, and returns after at most \<open>brank\<close> further statements.
\<close>

definition told_ok :: "('s \<Rightarrow> 'p \<Rightarrow> bool) \<Rightarrow> ('s, 'p) threaded \<Rightarrow> bool" where
  "told_ok ok t \<longleftrightarrow> th_stop t \<and>
     (case th_phase t of T_Body p \<Rightarrow> ok (th_shared t) p | T_Crashed e \<Rightarrow> False | _ \<Rightarrow> True)"

definition thread_rank :: "('s \<Rightarrow> 'p \<Rightarrow> nat) \<Rightarrow> ('s, 'p) threaded \<Rightarrow> nat" where
  "thread_rank brank t =
     (case th_phase t of T_Loop \<Rightarrow> 1 | T_Body p \<Rightarrow> 3 + brank (th_shared t) p | T_Pause \<Rightarrow> 2 | T_Sleep \<Rightarrow> 2
      | T_Ended \<Rightarrow> 0 | T_Crashed e \<Rightarrow> 0)"

definition thread_ended :: "('s, 'p) threaded \<Rightarrow> bool" where
  "thread_ended t \<longleftrightarrow> th_phase t = T_Ended"

text \<open>Whether a thread can still end by itself.\<close>

definition can_end :: "(('s, 'p) threaded \<Rightarrow> ('s, 'p) threaded \<Rightarrow> bool) \<Rightarrow> ('s, 'p) threaded \<Rightarrow> bool" where
  "can_end own t \<longleftrightarrow> (\<exists>u. own\<^sup>*\<^sup>* t u \<and> thread_ended u)"

lemma can_end_ended: "thread_ended t \<Longrightarrow> can_end own t"
  by (auto simp: can_end_def)

text \<open>A state that the thread does not leave by itself and that is not its end.\<close>

lemma cannot_end:
  assumes "stays t" and "\<And>t u. stays t \<Longrightarrow> own t u \<Longrightarrow> stays u" and "\<And>t. stays t \<Longrightarrow> \<not> thread_ended t"
  shows "\<not> can_end own t"
proof -
  have "own\<^sup>*\<^sup>* t u \<Longrightarrow> stays u" for u
    by (induction rule: rtranclp_induct) (auto intro: assms)
  then show ?thesis using assms(3) by (auto simp: can_end_def)
qed

locale returning_body =
  fixes interval :: nat and entry :: 'p and body :: "('s, 'p) body"
    and ok :: "'s \<Rightarrow> 'p \<Rightarrow> bool" and brank :: "'s \<Rightarrow> 'p \<Rightarrow> nat"
  assumes moves: "ok s p \<Longrightarrow> \<exists>s' r. body True s p s' r"
    and goes: "ok s p \<Longrightarrow> body True s p s' (Go q) \<Longrightarrow> ok s' q \<and> brank s' q < brank s p"
    and sound: "ok s p \<Longrightarrow> \<not> body True s p s' (Crash e)"
begin

lemma told_step: "told_ok ok t \<Longrightarrow> thread_step interval entry body t u \<Longrightarrow> told_ok ok u"
proof (erule thread_stepE)
  fix p s r
  assume told: "told_ok ok t" and p: "th_phase t = T_Body p" and b: "body (th_stop t) (th_shared t) p s r"
    and u: "u = t\<lparr>th_shared := s, th_phase := after_outcome r\<rparr>"
  then show ?thesis
    using goes [of "th_shared t" p s] sound [of "th_shared t" p s] by (cases r) (auto simp: told_ok_def)
qed (auto simp: told_ok_def)

lemma told_moves: "told_ok ok t \<Longrightarrow> \<not> thread_ended t \<Longrightarrow> \<exists>u. thread_step interval entry body t u"
proof (cases "th_phase t")
  case (T_Body p)
  assume "told_ok ok t"
  then have "th_stop t" "ok (th_shared t) p" using T_Body by (auto simp: told_ok_def)
  then show ?thesis using moves th_work [OF T_Body] by metis
qed (auto simp: told_ok_def thread_ended_def intro: th_leave th_continue th_awake)

lemma told_nearer: "told_ok ok t \<Longrightarrow> thread_step interval entry body t u \<Longrightarrow> thread_rank brank u < thread_rank brank t"
proof (erule thread_stepE)
  fix p s r
  assume told: "told_ok ok t" and p: "th_phase t = T_Body p" and b: "body (th_stop t) (th_shared t) p s r"
    and u: "u = t\<lparr>th_shared := s, th_phase := after_outcome r\<rparr>"
  then show ?thesis
    using goes [of "th_shared t" p s] sound [of "th_shared t" p s]
    by (cases r) (auto simp: told_ok_def thread_rank_def)
qed (auto simp: told_ok_def thread_rank_def)

end

end
