(* ===== verification/Queues.thy ===== *)
theory Queues
  imports Threads
begin

text \<open>
  The threads that take items off a concurrent queue: \<^verbatim>\<open>SessionDispatcher\<close> and
  \<^verbatim>\<open>SessionServiceDataProcessor\<close> (\<^verbatim>\<open>csm-service/service\<close>), whose loops and \<^verbatim>\<open>stop\<close> methods are the same.  What
  they do with an item is in \<open>Session\<close> and \<open>P2P\<close>; here are the queue, the waiting and the stopping.
\<close>

section \<open>State and steps\<close>

text \<open>
  The queue holds pointers, a null one to wake the thread.  \<open>wq_stopping\<close> counts the calls of \<^verbatim>\<open>stop\<close> that have
  requested the stop and not yet added the null pointer.  The other fields are the history: the items
  offered and put into the queue, those refused, those taken with whether they were handled, and the
  number of stops of a running thread.
\<close>

datatype 'a queue_point = Q_Check | Q_Wait | Q_Got "'a option"

record 'a work_queue =
  wq_items :: "'a option list"
  wq_stopping :: nat
  wq_accepted :: "'a list"
  wq_refused :: "'a list"
  wq_log :: "('a \<times> bool) list"
  wq_stops :: nat

definition work_queue_new :: "'a work_queue" where
  "work_queue_new = \<lparr>wq_items = [], wq_stopping = 0, wq_accepted = [], wq_refused = [], wq_log = [], wq_stops = 0\<rparr>"

inductive queue_body :: "('a work_queue, 'a queue_point) body" where
  qb_told: "queue_body True w Q_Check w Return"
| qb_go: "queue_body False w Q_Check w (Go Q_Wait)"
| qb_take: "wq_items w = x # rest \<Longrightarrow> queue_body st w Q_Wait (w\<lparr>wq_items := rest\<rparr>) (Go (Q_Got x))"
| qb_drop: "queue_body True w (Q_Got x)
    (w\<lparr>wq_log := wq_log w @ (case x of None \<Rightarrow> [] | Some a \<Rightarrow> [(a, False)])\<rparr>) Return"
| qb_null: "queue_body False w (Q_Got None) w (Crash NullDeref)"
| qb_handle: "queue_body False w (Q_Got (Some a)) (w\<lparr>wq_log := wq_log w @ [(a, True)]\<rparr>) Return"

inductive_cases queue_bodyE: "queue_body st w p w' r"

text \<open>
  Adding an item: the processor's queue takes everything; the dispatcher's refuses what it has no room for,
  and its caller is not told.  \<open>room\<close> is the number of items for which there is room.
\<close>

definition queue_add :: "nat option \<Rightarrow> 'a \<Rightarrow> 'a work_queue \<Rightarrow> 'a work_queue" where
  "queue_add room a w =
     (if (case room of None \<Rightarrow> True | Some n \<Rightarrow> length (wq_items w) < n)
      then w\<lparr>wq_items := wq_items w @ [Some a], wq_accepted := wq_accepted w @ [a]\<rparr>
      else w\<lparr>wq_refused := wq_refused w @ [a]\<rparr>)"

text \<open>The two statements of \<^verbatim>\<open>stop\<close>.\<close>

definition queue_request :: "('a work_queue, 'p) threaded \<Rightarrow> ('a work_queue, 'p) threaded" where
  "queue_request t = (stop_thread t)\<lparr>th_shared := (th_shared t)\<lparr>wq_stopping := Suc (wq_stopping (th_shared t)),
     wq_stops := (if th_isStart t then 1 else 0) + wq_stops (th_shared t)\<rparr>\<rparr>"

definition queue_null :: "'a work_queue \<Rightarrow> 'a work_queue" where
  "queue_null w = w\<lparr>wq_items := wq_items w @ [None], wq_stopping := wq_stopping w - 1\<rparr>"

abbreviation queue_own :: "('a work_queue, 'a queue_point) threaded \<Rightarrow> ('a work_queue, 'a queue_point) threaded \<Rightarrow> bool" where
  "queue_own \<equiv> thread_step 1 Q_Check queue_body"

inductive queue_env :: "nat option \<Rightarrow> ('a work_queue, 'a queue_point) threaded \<Rightarrow>
    ('a work_queue, 'a queue_point) threaded \<Rightarrow> bool" for room where
  qe_add: "queue_env room t (t\<lparr>th_shared := queue_add room a (th_shared t)\<rparr>)"
| qe_request: "queue_env room t (queue_request t)"
| qe_null: "0 < wq_stopping (th_shared t) \<Longrightarrow> queue_env room t (t\<lparr>th_shared := queue_null (th_shared t)\<rparr>)"
| qe_start: "can_start t \<Longrightarrow> wq_stopping (th_shared t) = 0 \<Longrightarrow> queue_env room t (start_thread t)"

inductive_cases queue_envE: "queue_env room t u"

inductive queue_reachable :: "nat option \<Rightarrow> ('a work_queue, 'a queue_point) threaded \<Rightarrow> bool" for room where
  qr_new: "queue_reachable room (Thread_new work_queue_new)"
| qr_own: "queue_reachable room t \<Longrightarrow> queue_own t u \<Longrightarrow> queue_reachable room u"
| qr_env: "queue_reachable room t \<Longrightarrow> queue_env room t u \<Longrightarrow> queue_reachable room u"

section \<open>Stopping\<close>

text \<open>While a stop is requested, a waiting thread has something to take, or a stop is about to add it.\<close>

definition queue_ok :: "'a work_queue \<Rightarrow> 'a queue_point \<Rightarrow> bool" where
  "queue_ok w p \<longleftrightarrow> (p = Q_Wait \<longrightarrow> wq_items w \<noteq> [])"

definition queue_good :: "('a work_queue, 'a queue_point) threaded \<Rightarrow> bool" where
  "queue_good t \<longleftrightarrow> flags_ok t \<and>
     (th_stop t \<and> th_phase t = T_Body Q_Wait \<longrightarrow> wq_items (th_shared t) \<noteq> [] \<or> 0 < wq_stopping (th_shared t))"

definition queue_told :: "('a work_queue, 'a queue_point) threaded \<Rightarrow> bool" where
  "queue_told t \<longleftrightarrow> th_stop t \<and> wq_stopping (th_shared t) = 0 \<and> (\<forall>e. th_phase t \<noteq> T_Crashed e)"

definition queue_brank :: "'a work_queue \<Rightarrow> 'a queue_point \<Rightarrow> nat" where
  "queue_brank w p = (if p = Q_Wait then 1 else 0)"

interpretation queue: returning_body 1 Q_Check queue_body queue_ok queue_brank
proof
  fix w :: "'a work_queue" and p :: "'a queue_point"
  assume "queue_ok w p"
  then show "\<exists>s' r. queue_body True w p s' r"
    by (cases p) (auto simp: queue_ok_def neq_Nil_conv intro: queue_body.intros)
qed (auto simp: queue_ok_def queue_brank_def elim!: queue_bodyE)

lemma queue_told_ok: "queue_good t \<Longrightarrow> queue_told t \<Longrightarrow> told_ok queue_ok t"
  by (auto simp: queue_good_def queue_told_def told_ok_def queue_ok_def split: thread_phase.splits)

lemma queue_body_stopping: "queue_body st w p w' r \<Longrightarrow> wq_stopping w' = wq_stopping w"
  by (erule queue_bodyE) auto

lemma queue_own_stopping: "queue_own t u \<Longrightarrow> wq_stopping (th_shared u) = wq_stopping (th_shared t)"
  by (erule thread_stepE) (auto dest: queue_body_stopping)

lemma queue_good_own:
  assumes "queue_good t" "queue_own t u"
  shows "queue_good u"
proof -
  have f: "flags_ok u" using flags_ok_step [OF assms(2)] assms(1) by (simp add: queue_good_def)
  have "\<not> (th_stop u \<and> th_phase u = T_Body Q_Wait)"
    using assms(2) by (rule thread_stepE) (auto elim!: queue_bodyE)
  with f show ?thesis by (auto simp: queue_good_def)
qed

lemma queue_good_env: "queue_good t \<Longrightarrow> queue_env room t u \<Longrightarrow> queue_good u"
  by (erule queue_envE)
    (auto simp: queue_good_def flags_ok_def queue_add_def queue_request_def stop_thread_def queue_null_def
      start_thread_def split: option.splits)

interpretation queue_stop: undisturbed queue_own "queue_env room" "\<lambda>t. t = Thread_new work_queue_new"
  queue_good queue_told thread_ended "thread_rank queue_brank"
proof
  fix t u :: "('a work_queue, 'a queue_point) threaded"
  show "queue_good t" if "t = Thread_new work_queue_new"
    using that by (simp add: queue_good_def flags_ok_new) (simp add: Thread_new_def)
  show "queue_good u" if "queue_good t" "queue_own t u" using that by (rule queue_good_own)
  show "queue_good u" if "queue_good t" "queue_env room t u" using that by (rule queue_good_env)
  show "queue_told u" if "queue_good t" "queue_told t" "queue_own t u"
    using queue.told_step [OF queue_told_ok [OF that(1,2)] that(3)] queue_own_stopping [OF that(3)] that(2)
    by (auto simp: queue_told_def told_ok_def split: thread_phase.splits)
  show "\<exists>u. queue_own t u" if "queue_good t" "queue_told t" "\<not> thread_ended t"
    using queue.told_moves [OF queue_told_ok [OF that(1,2)] that(3)] .
  show "thread_rank queue_brank u < thread_rank queue_brank t" if "queue_good t" "queue_told t" "queue_own t u"
    using queue.told_nearer [OF queue_told_ok [OF that(1,2)] that(3)] .
  show "thread_rank queue_brank u \<le> thread_rank queue_brank t"
    if "queue_good t" "queue_told t" "queue_env room t u" "queue_told u"
    by (rule queue_envE [OF that(3)])
      (use that(1,2,4) in \<open>auto simp: queue_told_def queue_good_def flags_ok_def thread_rank_def queue_brank_def
        queue_request_def stop_thread_def start_thread_def split: thread_phase.splits\<close>)
qed

lemma queue_reachable_good: "queue_reachable room t \<Longrightarrow> queue_good t"
proof (induction rule: queue_reachable.induct)
  case qr_new
  then show ?case by (rule queue_stop.good_fresh) simp
qed (auto intro: queue_good_own queue_good_env)

lemma queue_can_end:
  assumes "queue_reachable room t" and "th_stop t" and "wq_stopping (th_shared t) = 0"
    and "\<forall>e. th_phase t \<noteq> T_Crashed e"
  shows "can_end queue_own t"
  using queue_stop.ends [OF queue_reachable_good [OF assms(1)]] assms(2-)
  by (simp add: can_end_def queue_told_def)

text \<open>
  C21: a queue thread always ends when it is stopped.  Once \<^verbatim>\<open>stop\<close> has requested the stop and added
  the null pointer, the thread of the dispatcher and of the service data processor can end by itself, and
  whatever else is added meanwhile it makes at most four more steps.
\<close>

theorem queue_thread_stops:
  assumes "queue_reachable room t" and "th_stop t" and "wq_stopping (th_shared t) = 0"
    and "\<forall>e. th_phase t \<noteq> T_Crashed e"
  shows "can_end queue_own t \<and>
    (\<forall>n u. (((\<lambda>x y. queue_env room x y \<and> queue_told y)\<^sup>*\<^sup>* OO queue_own) ^^ n) t u \<longrightarrow> n \<le> 4)"
proof -
  have good: "queue_good t" by (rule queue_reachable_good [OF assms(1)])
  have told: "queue_told t" using assms(2-4) by (simp add: queue_told_def)
  have "thread_rank queue_brank t \<le> 4"
    by (simp add: thread_rank_def queue_brank_def split: thread_phase.split)
  then show ?thesis
    using queue_can_end [OF assms] queue_stop.at_most_disturbed [OF _ good told, where room = room]
    by (meson add_leD1 order_trans)
qed

section \<open>What becomes of the items\<close>

definition queue_held :: "('a work_queue, 'a queue_point) threaded \<Rightarrow> 'a list" where
  "queue_held t = (case th_phase t of T_Body (Q_Got (Some a)) \<Rightarrow> [a] | _ \<Rightarrow> [])"

definition queue_inv :: "('a work_queue, 'a queue_point) threaded \<Rightarrow> bool" where
  "queue_inv t \<longleftrightarrow> (let w = th_shared t in
     wq_accepted w = map fst (wq_log w) @ queue_held t @ List.map_filter id (wq_items w) \<and>
     length (filter (\<lambda>e. \<not> snd e) (wq_log w)) +
       (if th_stop t \<and> (\<exists>p. th_phase t = T_Body p \<and> p \<noteq> Q_Check) then 1 else 0) \<le> wq_stops w)"

lemma map_filter_id_simps [simp]:
  "List.map_filter id [] = []" "List.map_filter id (None # xs) = List.map_filter id xs"
  "List.map_filter id (Some a # xs) = a # List.map_filter id xs"
  "List.map_filter id (xs @ ys) = List.map_filter id xs @ List.map_filter id ys"
  by (simp_all add: List.map_filter_def)

lemma queue_inv_own: "queue_inv t \<Longrightarrow> queue_own t u \<Longrightarrow> queue_inv u"
  by (erule thread_stepE)
    (auto simp: queue_inv_def queue_held_def Let_def elim!: queue_bodyE split: option.splits)

lemma queue_inv_env: "queue_inv t \<Longrightarrow> flags_ok t \<Longrightarrow> queue_env room t u \<Longrightarrow> queue_inv u"
  by (erule queue_envE)
    (auto simp: queue_inv_def queue_held_def Let_def queue_add_def queue_request_def stop_thread_def queue_null_def
      start_thread_def flags_ok_def can_start_def split: option.splits if_splits)

lemma queue_reachable_inv: "queue_reachable room t \<Longrightarrow> queue_inv t"
proof (induction rule: queue_reachable.induct)
  case qr_new
  then show ?case by (simp add: queue_inv_def queue_held_def Thread_new_def work_queue_new_def)
next
  case (qr_env t u)
  then show ?case using queue_inv_env queue_reachable_good [OF qr_env.hyps(1)] by (auto simp: queue_good_def)
qed (rule queue_inv_own)

lemma queue_own_refused: "queue_own t u \<Longrightarrow> wq_refused (th_shared u) = wq_refused (th_shared t)"
  by (erule thread_stepE) (auto elim!: queue_bodyE)

lemma queue_none_refused: "queue_reachable room t \<Longrightarrow> room = None \<Longrightarrow> wq_refused (th_shared t) = []"
proof (induction rule: queue_reachable.induct)
  case (qr_env t u)
  then show ?case
    by (auto elim!: queue_envE simp: queue_add_def queue_request_def stop_thread_def queue_null_def start_thread_def)
qed (auto simp: queue_own_refused Thread_new_def work_queue_new_def)


section \<open>Starting again\<close>

definition null_free :: "('a work_queue, 'a queue_point) threaded \<Rightarrow> bool" where
  "null_free t \<longleftrightarrow> None \<notin> set (wq_items (th_shared t)) \<and> th_phase t \<noteq> T_Body (Q_Got None) \<and>
     (\<forall>e. th_phase t \<noteq> T_Crashed e)"

lemma null_free_own: "queue_own t u \<Longrightarrow> null_free t \<Longrightarrow> null_free u"
  by (erule thread_stepE) (auto simp: null_free_def elim!: queue_bodyE)

lemma null_free_steps: "queue_own\<^sup>*\<^sup>* t u \<Longrightarrow> null_free t \<Longrightarrow> null_free u"
  by (induction rule: rtranclp_induct) (auto intro: null_free_own)

text \<open>One round of a running thread with something in the queue.\<close>

lemma queue_round:
  assumes "th_phase t = T_Loop" "\<not> th_stop t" "wq_items (th_shared t) = x # rest"
  shows "queue_own\<^sup>*\<^sup>* t (t\<lparr>th_shared := (th_shared t)\<lparr>wq_items := rest\<rparr>, th_phase := T_Body (Q_Got x)\<rparr>)"
proof -
  let ?a = "t\<lparr>th_phase := T_Body Q_Check\<rparr>" and ?b = "t\<lparr>th_phase := T_Body Q_Wait\<rparr>"
  have "queue_own t ?a" by (rule th_enter) (use assms in simp_all)
  moreover have "queue_own ?a ?b"
    using th_work [of ?a Q_Check queue_body "th_shared t" "Go Q_Wait" 1 Q_Check] assms qb_go [of "th_shared t"] by simp
  moreover have "queue_own ?b (t\<lparr>th_shared := (th_shared t)\<lparr>wq_items := rest\<rparr>, th_phase := T_Body (Q_Got x)\<rparr>)"
    using th_work [of ?b Q_Wait queue_body "(th_shared t)\<lparr>wq_items := rest\<rparr>" "Go (Q_Got x)" 1 Q_Check]
      assms qb_take [of "th_shared t"] by simp
  ultimately show ?thesis by (meson converse_rtranclp_into_rtranclp rtranclp.rtrancl_refl)
qed

lemma queue_handled:
  assumes "th_phase t = T_Body (Q_Got (Some a))" "\<not> th_stop t"
  shows "queue_own\<^sup>*\<^sup>* t (t\<lparr>th_shared := (th_shared t)\<lparr>wq_log := wq_log (th_shared t) @ [(a, True)]\<rparr>, th_phase := T_Loop\<rparr>)"
proof -
  let ?s = "(th_shared t)\<lparr>wq_log := wq_log (th_shared t) @ [(a, True)]\<rparr>"
  let ?a = "t\<lparr>th_shared := ?s, th_phase := T_Pause\<rparr>" and ?b = "t\<lparr>th_shared := ?s, th_phase := T_Sleep\<rparr>"
  have "queue_own t ?a" using th_work [OF assms(1), of queue_body ?s Return] assms qb_handle [of "th_shared t" a] by simp
  moreover have "queue_own ?a ?b" using th_wait [of ?a 1 Q_Check queue_body] assms by simp
  moreover have "queue_own ?b (t\<lparr>th_shared := ?s, th_phase := T_Loop\<rparr>)"
    using th_awake [of ?b 1 Q_Check queue_body] by simp
  ultimately show ?thesis by (meson converse_rtranclp_into_rtranclp rtranclp.rtrancl_refl)
qed

lemma queue_reaches_null:
  "th_phase t = T_Loop \<Longrightarrow> \<not> th_stop t \<Longrightarrow> None \<in> set (wq_items (th_shared t)) \<Longrightarrow>
   \<exists>u. queue_own\<^sup>*\<^sup>* t u \<and> th_phase u = T_Crashed NullDeref"
proof (induction "wq_items (th_shared t)" arbitrary: t)
  case (Cons x rest)
  let ?t = "t\<lparr>th_shared := (th_shared t)\<lparr>wq_items := rest\<rparr>, th_phase := T_Body (Q_Got x)\<rparr>"
  have got: "queue_own\<^sup>*\<^sup>* t ?t" using queue_round Cons.prems(1,2) Cons.hyps(2) by metis
  show ?case
  proof (cases x)
    case None
    have "queue_own ?t (?t\<lparr>th_shared := th_shared ?t, th_phase := after_outcome (Crash NullDeref)\<rparr>)"
      by (rule th_work) (use None Cons.prems in \<open>auto intro: qb_null\<close>)
    with got show ?thesis
      by (intro exI [of _ "?t\<lparr>th_shared := th_shared ?t, th_phase := after_outcome (Crash NullDeref)\<rparr>"]) simp
  next
    case (Some a)
    let ?u = "?t\<lparr>th_shared := (th_shared ?t)\<lparr>wq_log := wq_log (th_shared ?t) @ [(a, True)]\<rparr>, th_phase := T_Loop\<rparr>"
    have "queue_own\<^sup>*\<^sup>* ?t ?u" by (rule queue_handled) (use Some Cons.prems in simp_all)
    moreover obtain v where "queue_own\<^sup>*\<^sup>* ?u v" "th_phase v = T_Crashed NullDeref"
      using Cons.hyps(1) [of ?u] Cons.prems Cons.hyps(2) [symmetric] Some by auto
    ultimately show ?thesis using got by (meson rtranclp_trans)
  qed
qed simp

text \<open>
  C23: when a queue thread may be started again.  After a complete stop and the end of the thread,
  starting it makes it dereference a null pointer exactly when the null pointer of a stop is still in the
  queue, even if no more is added.  A stop before the first start leaves it there.
\<close>

theorem queue_restart_exact:
  assumes "queue_reachable room t" and "thread_ended t"
  shows "(\<exists>u. queue_own\<^sup>*\<^sup>* (start_thread t) u \<and> th_phase u = T_Crashed NullDeref) \<longleftrightarrow>
    None \<in> set (wq_items (th_shared t))"
proof -
  have t: "\<not> th_isStart t"
    using queue_reachable_good [OF assms(1)] assms(2) by (auto simp: queue_good_def flags_ok_def thread_ended_def)
  show ?thesis
  proof
    assume "\<exists>u. queue_own\<^sup>*\<^sup>* (start_thread t) u \<and> th_phase u = T_Crashed NullDeref"
    then show "None \<in> set (wq_items (th_shared t))"
      using null_free_steps [of "start_thread t"] t by (fastforce simp: null_free_def start_thread_def)
  next
    assume "None \<in> set (wq_items (th_shared t))"
    with t show "\<exists>u. queue_own\<^sup>*\<^sup>* (start_thread t) u \<and> th_phase u = T_Crashed NullDeref"
      by (intro queue_reaches_null) (simp_all add: start_thread_def)
  qed
qed

section \<open>Examples\<close>

text \<open>A thread waiting for its first item.\<close>

definition ex_queue :: "(nat work_queue, nat queue_point) threaded" where
  "ex_queue = \<lparr>th_shared = work_queue_new, th_phase = T_Body Q_Wait, th_stop = False, th_isStart = True\<rparr>"

lemma ex_queue_reachable: "queue_reachable room ex_queue"
proof -
  let ?n = "Thread_new work_queue_new :: (nat work_queue, nat queue_point) threaded"
  have "queue_reachable room (start_thread ?n)"
    by (rule qr_env [OF qr_new qe_start]) (simp_all add: can_start_def Thread_new_def work_queue_new_def)
  from qr_own [OF this th_enter]
  have "queue_reachable room (ex_queue\<lparr>th_phase := T_Body Q_Check\<rparr>)"
    by (simp add: start_thread_def Thread_new_def ex_queue_def)
  from qr_own [OF this th_work [of _ Q_Check queue_body work_queue_new "Go Q_Wait"]]
  show ?thesis using qb_go [of work_queue_new] by (simp add: ex_queue_def)
qed

definition ex_queue_stopped :: "(nat work_queue, nat queue_point) threaded" where
  "ex_queue_stopped = \<lparr>th_shared = work_queue_new\<lparr>wq_items := [None], wq_stops := 1\<rparr>, th_phase = T_Body Q_Wait,
     th_stop = True, th_isStart = False\<rparr>"

lemma ex_queue_stopped_reachable: "queue_reachable room ex_queue_stopped"
  using qr_env [OF qr_env [OF ex_queue_reachable qe_request] qe_null]
  by (simp add: ex_queue_def ex_queue_stopped_def queue_request_def stop_thread_def queue_null_def work_queue_new_def)

lemma queue_thread_stops_witness:
  "can_end queue_own ex_queue_stopped \<and>
    \<not> (\<exists>u. (((\<lambda>x y. queue_env None x y \<and> queue_told y)\<^sup>*\<^sup>* OO queue_own) ^^ 5) ex_queue_stopped u)"
proof -
  have "th_stop ex_queue_stopped" "wq_stopping (th_shared ex_queue_stopped) = 0"
    "\<forall>e. th_phase ex_queue_stopped \<noteq> T_Crashed e"
    by (simp_all add: ex_queue_stopped_def work_queue_new_def)
  from queue_thread_stops [OF ex_queue_stopped_reachable this] show ?thesis by fastforce
qed

text \<open>A stop between taking and handling: the item is lost.\<close>

definition ex_queue_dropped :: "(nat work_queue, nat queue_point) threaded" where
  "ex_queue_dropped = \<lparr>th_shared = \<lparr>wq_items = [], wq_stopping = 1, wq_accepted = [7], wq_refused = [],
     wq_log = [(7, False)], wq_stops = 1\<rparr>, th_phase = T_Pause, th_stop = True, th_isStart = False\<rparr>"

lemma ex_queue_dropped_reachable: "queue_reachable (Some 15) ex_queue_dropped"
proof -
  let ?w = "work_queue_new\<lparr>wq_accepted := [7]\<rparr> :: nat work_queue"
  from qr_env [OF ex_queue_reachable [of "Some 15"] qe_add [of _ _ 7]]
  have "queue_reachable (Some 15) (ex_queue\<lparr>th_shared := ?w\<lparr>wq_items := [Some 7]\<rparr>\<rparr>)"
    by (simp add: ex_queue_def queue_add_def work_queue_new_def)
  from qr_own [OF this th_work [of _ Q_Wait queue_body ?w "Go (Q_Got (Some 7))"]]
  have "queue_reachable (Some 15) (ex_queue\<lparr>th_shared := ?w, th_phase := T_Body (Q_Got (Some 7))\<rparr>)"
    using qb_take [of "?w\<lparr>wq_items := [Some 7]\<rparr>" "Some 7" "[]" False] by (simp add: ex_queue_def work_queue_new_def)
  from qr_env [OF this qe_request]
  have "queue_reachable (Some 15) (ex_queue_dropped\<lparr>th_shared := ?w\<lparr>wq_stopping := 1, wq_stops := 1\<rparr>,
      th_phase := T_Body (Q_Got (Some 7))\<rparr>)"
    by (simp add: ex_queue_def queue_request_def stop_thread_def work_queue_new_def ex_queue_dropped_def)
  from qr_own [OF this th_work [of _ "Q_Got (Some 7)" queue_body
      "?w\<lparr>wq_stopping := 1, wq_stops := 1, wq_log := [(7, False)]\<rparr>" Return]]
  show ?thesis
    using qb_drop [of "?w\<lparr>wq_stopping := 1, wq_stops := 1\<rparr>" "Some 7"]
    by (simp add: ex_queue_dropped_def work_queue_new_def)
qed


definition ex_queue_unstarted :: "(nat work_queue, nat queue_point) threaded" where
  "ex_queue_unstarted = Thread_new (work_queue_new\<lparr>wq_items := [None]\<rparr>)"

lemma ex_queue_unstarted_reachable: "queue_reachable room ex_queue_unstarted"
  using qr_env [OF qr_env [OF qr_new qe_request] qe_null]
  by (simp add: ex_queue_unstarted_def Thread_new_def queue_request_def stop_thread_def queue_null_def work_queue_new_def)

lemma queue_restart_exact_witness:
  "\<exists>u. queue_own\<^sup>*\<^sup>* (start_thread ex_queue_unstarted) u \<and> th_phase u = T_Crashed NullDeref"
  using queue_restart_exact [OF ex_queue_unstarted_reachable]
  by (simp add: ex_queue_unstarted_def Thread_new_def thread_ended_def work_queue_new_def)

end
