(* ===== verification/Destroyer.thy ===== *)
theory Destroyer
  imports Threads
begin

text \<open>
  \<^verbatim>\<open>service/SessionDestroyer.cpp\<close>: the queue of the sessions to destroy and the thread that hands them to the
  handler.  The wait on the condition variable is written out, since \<^verbatim>\<open>stop\<close> sets the interval and
  notifies without holding the mutex the predicate is tested under.
\<close>

section \<open>State and steps\<close>

text \<open>
  \<open>D_Pred\<close> is the test of the predicate, \<open>D_Blocking\<close> the point behind a failed test at which the mutex is
  still held, and \<open>D_Blocked\<close> the wait itself; \<open>D_Loop\<close> is the inner loop.  \<open>dq_stopping\<close> counts the
  statements that a running call of \<^verbatim>\<open>stop\<close> has still to do.  The histories are what was added and what was
  handed to the handler.
\<close>

datatype destroy_point = D_Pred | D_Blocking | D_Blocked | D_Loop

record 'a destroy_state =
  dq_infos :: "'a list"
  dq_interval :: nat
  dq_stopping :: nat
  dq_added :: "'a list"
  dq_destroyed :: "'a list"

definition destroy_state_new :: "'a destroy_state" where
  "destroy_state_new = \<lparr>dq_infos = [], dq_interval = 1, dq_stopping = 0, dq_added = [], dq_destroyed = []\<rparr>"

text \<open>\<open>handler\<close> tells whether a handler has been set; without one the inner loop only sleeps.\<close>

inductive destroy_body :: "bool \<Rightarrow> ('a destroy_state, destroy_point) body" for handler where
  db_true: "dq_interval w = 0 \<or> dq_infos w \<noteq> [] \<Longrightarrow> destroy_body handler st w D_Pred w (Go D_Loop)"
| db_false: "dq_interval w \<noteq> 0 \<Longrightarrow> dq_infos w = [] \<Longrightarrow> destroy_body handler st w D_Pred w (Go D_Blocking)"
| db_block: "destroy_body handler st w D_Blocking w (Go D_Blocked)"
| db_idle: "\<not> handler \<Longrightarrow> destroy_body handler st w D_Loop w (Go D_Loop)"
| db_empty: "handler \<Longrightarrow> dq_infos w = [] \<Longrightarrow> destroy_body handler st w D_Loop w Return"
| db_destroy: "handler \<Longrightarrow> dq_infos w = x # rest \<Longrightarrow> destroy_body handler st w D_Loop
    (w\<lparr>dq_infos := rest, dq_destroyed := dq_destroyed w @ [x]\<rparr>) (Go D_Loop)"

inductive_cases destroy_bodyE: "destroy_body handler st w p w' r"

abbreviation destroy_own :: "bool \<Rightarrow> ('a destroy_state, destroy_point) threaded \<Rightarrow>
    ('a destroy_state, destroy_point) threaded \<Rightarrow> bool" where
  "destroy_own handler \<equiv> thread_step 0 D_Pred (destroy_body handler)"

text \<open>A notification reaches the thread only while it waits; it then tests the predicate again.\<close>

definition destroy_notify :: "('a destroy_state, destroy_point) threaded \<Rightarrow> ('a destroy_state, destroy_point) threaded" where
  "destroy_notify t = (if th_phase t = T_Body D_Blocked then t\<lparr>th_phase := T_Body D_Pred\<rparr> else t)"

text \<open>The three statements of \<^verbatim>\<open>stop\<close>.\<close>

definition destroy_request :: "('a destroy_state, 'p) threaded \<Rightarrow> ('a destroy_state, 'p) threaded" where
  "destroy_request t = (stop_thread t)\<lparr>th_shared := (th_shared t)\<lparr>dq_stopping := 2\<rparr>\<rparr>"

definition destroy_zero :: "('a destroy_state, 'p) threaded \<Rightarrow> ('a destroy_state, 'p) threaded" where
  "destroy_zero t = t\<lparr>th_shared := (th_shared t)\<lparr>dq_interval := 0, dq_stopping := 1\<rparr>\<rparr>"

definition destroy_wake :: "('a destroy_state, destroy_point) threaded \<Rightarrow> ('a destroy_state, destroy_point) threaded" where
  "destroy_wake t = destroy_notify (t\<lparr>th_shared := (th_shared t)\<lparr>dq_stopping := 0\<rparr>\<rparr>)"

lemmas destroy_stop_defs = destroy_request_def destroy_zero_def destroy_wake_def stop_thread_def

text \<open>
  The others: \<^verbatim>\<open>addSession\<close> and \<^verbatim>\<open>addSessions\<close> take the mutex, the three statements of \<^verbatim>\<open>stop\<close> do not; a wait may
  also end for no reason.
\<close>

inductive destroy_env :: "('a destroy_state, destroy_point) threaded \<Rightarrow>
    ('a destroy_state, destroy_point) threaded \<Rightarrow> bool" where
  de_add: "th_phase t \<noteq> T_Body D_Blocking \<Longrightarrow> destroy_env t (destroy_notify (t\<lparr>th_shared :=
    (th_shared t)\<lparr>dq_infos := dq_infos (th_shared t) @ xs, dq_added := dq_added (th_shared t) @ xs\<rparr>\<rparr>))"
| de_request: "dq_stopping (th_shared t) = 0 \<Longrightarrow> destroy_env t (destroy_request t)"
| de_zero: "dq_stopping (th_shared t) = 2 \<Longrightarrow> destroy_env t (destroy_zero t)"
| de_notify: "dq_stopping (th_shared t) = 1 \<Longrightarrow> destroy_env t (destroy_wake t)"
| de_spurious: "th_phase t = T_Body D_Blocked \<Longrightarrow> destroy_env t (t\<lparr>th_phase := T_Body D_Pred\<rparr>)"
| de_start: "can_start t \<Longrightarrow> dq_stopping (th_shared t) = 0 \<Longrightarrow> destroy_env t (start_thread t)"

inductive_cases destroy_envE: "destroy_env t u"

inductive destroy_reachable :: "bool \<Rightarrow> ('a destroy_state, destroy_point) threaded \<Rightarrow> bool" for handler where
  dr_new: "destroy_reachable handler (Thread_new destroy_state_new)"
| dr_own: "destroy_reachable handler t \<Longrightarrow> destroy_own handler t u \<Longrightarrow> destroy_reachable handler u"
| dr_env: "destroy_reachable handler t \<Longrightarrow> destroy_env t u \<Longrightarrow> destroy_reachable handler u"

section \<open>Invariants\<close>

definition destroy_good :: "('a destroy_state, destroy_point) threaded \<Rightarrow> bool" where
  "destroy_good t \<longleftrightarrow> flags_ok t \<and> (let w = th_shared t in
     (th_stop t \<and> dq_stopping w = 0 \<longrightarrow> dq_interval w = 0) \<and> (dq_stopping w = 1 \<longrightarrow> dq_interval w = 0) \<and>
     dq_added w = dq_destroyed w @ dq_infos w)"

lemma destroy_good_own:
  assumes "destroy_good t" "destroy_own handler t u"
  shows "destroy_good u"
proof -
  have f: "flags_ok u" using flags_ok_step [OF assms(2)] assms(1) by (simp add: destroy_good_def)
  show ?thesis
    by (rule thread_stepE [OF assms(2)]) (use f assms(1) in \<open>auto simp: destroy_good_def Let_def elim!: destroy_bodyE\<close>)
qed

lemma destroy_good_env: "destroy_good t \<Longrightarrow> destroy_env t u \<Longrightarrow> destroy_good u"
  by (erule destroy_envE)
    (auto simp: destroy_good_def Let_def flags_ok_def destroy_notify_def destroy_stop_defs start_thread_def)

lemma destroy_reachable_good: "destroy_reachable handler t \<Longrightarrow> destroy_good t"
proof (induction rule: destroy_reachable.induct)
  case dr_new
  then show ?case
    by (simp add: destroy_good_def flags_ok_new) (simp add: Thread_new_def destroy_state_new_def)
qed (auto intro: destroy_good_own destroy_good_env)

section \<open>Stopping\<close>

text \<open>The two places from which a thread that was told to stop does not move by itself.\<close>

definition destroy_lost :: "('a destroy_state, destroy_point) threaded \<Rightarrow> bool" where
  "destroy_lost t \<longleftrightarrow> th_phase t \<in> {T_Body D_Blocking, T_Body D_Blocked}"

definition destroy_ok :: "'a destroy_state \<Rightarrow> destroy_point \<Rightarrow> bool" where
  "destroy_ok w p \<longleftrightarrow> dq_interval w = 0 \<and> p \<in> {D_Pred, D_Loop}"

definition destroy_told :: "('a destroy_state, destroy_point) threaded \<Rightarrow> bool" where
  "destroy_told t \<longleftrightarrow> told_ok destroy_ok t \<and> dq_stopping (th_shared t) = 0"

definition destroy_brank :: "'a destroy_state \<Rightarrow> destroy_point \<Rightarrow> nat" where
  "destroy_brank w p = length (dq_infos w) + (if p = D_Pred then 1 else 0)"

interpretation destroy: returning_body 0 D_Pred "destroy_body True" destroy_ok destroy_brank
proof
  fix w :: "'a destroy_state" and p
  assume "destroy_ok w p"
  then show "\<exists>s' r. destroy_body True True w p s' r"
    by (cases p; cases "dq_infos w") (auto simp: destroy_ok_def intro: destroy_body.intros)
qed (auto simp: destroy_ok_def destroy_brank_def elim!: destroy_bodyE)

lemma destroy_own_stopping: "destroy_own handler t u \<Longrightarrow> dq_stopping (th_shared u) = dq_stopping (th_shared t)"
  by (erule thread_stepE) (auto elim!: destroy_bodyE)

interpretation destroy_stop: stoppable "destroy_own True" destroy_env "\<lambda>t. t = Thread_new destroy_state_new"
  destroy_good destroy_told thread_ended "thread_rank destroy_brank"
proof
  fix t u :: "('a destroy_state, destroy_point) threaded"
  show "destroy_good t" if "t = Thread_new destroy_state_new"
    using destroy_reachable_good [OF dr_new] that by simp
  show "destroy_good u" if "destroy_good t" "destroy_own True t u" using that by (rule destroy_good_own)
  show "destroy_good u" if "destroy_good t" "destroy_env t u" using that by (rule destroy_good_env)
  show "destroy_told u" if "destroy_good t" "destroy_told t" "destroy_own True t u"
    using destroy.told_step [OF _ that(3)] destroy_own_stopping [OF that(3)] that(2) by (simp add: destroy_told_def)
  show "\<exists>u. destroy_own True t u" if "destroy_good t" "destroy_told t" "\<not> thread_ended t"
    using destroy.told_moves [of t] that by (simp add: destroy_told_def)
  show "thread_rank destroy_brank u < thread_rank destroy_brank t"
    if "destroy_good t" "destroy_told t" "destroy_own True t u"
    using destroy.told_nearer [of t u] that by (simp add: destroy_told_def)
qed

lemma destroy_lost_step: "destroy_own handler t u \<Longrightarrow> destroy_lost t \<Longrightarrow> destroy_lost u"
  by (erule thread_stepE) (auto simp: destroy_lost_def elim!: destroy_bodyE)

lemma destroy_never_crashes: "destroy_reachable handler t \<Longrightarrow> th_phase t \<noteq> T_Crashed e"
proof (induction rule: destroy_reachable.induct)
  case (dr_own t u)
  then show ?case by (auto elim!: thread_stepE destroy_bodyE)
next
  case (dr_env t u)
  then show ?case by (auto elim!: destroy_envE simp: destroy_notify_def destroy_stop_defs start_thread_def split: if_splits)
qed (simp add: Thread_new_def)

lemma destroy_stopped_told:
  assumes "destroy_reachable True t" and "th_stop t" and "dq_stopping (th_shared t) = 0" and "\<not> destroy_lost t"
  shows "destroy_told t"
  using destroy_reachable_good [OF assms(1)] assms(2-) destroy_never_crashes [OF assms(1)]
  by (auto simp: destroy_told_def told_ok_def destroy_ok_def destroy_good_def destroy_lost_def Let_def
      split: thread_phase.splits intro: destroy_point.exhaust)

lemma destroy_ends_iff:
  assumes "destroy_reachable True t" and "th_stop t" and "dq_stopping (th_shared t) = 0"
  shows "can_end (destroy_own True) t \<longleftrightarrow> \<not> destroy_lost t"
proof
  show "can_end (destroy_own True) t" if "\<not> destroy_lost t"
    using destroy_stop.ends [OF destroy_reachable_good [OF assms(1)] destroy_stopped_told [OF assms that]]
    by (simp add: can_end_def)
  have "\<not> can_end (destroy_own True) t" if "destroy_lost t"
  proof (rule cannot_end [of destroy_lost, OF that])
    show "\<not> thread_ended u" if "destroy_lost u" for u using that by (auto simp: destroy_lost_def thread_ended_def)
  qed (rule destroy_lost_step)
  then show "\<not> destroy_lost t" if "can_end (destroy_own True) t" using that by blast
qed

text \<open>
  C19: stopping the destroyer may hang.  Once \<^verbatim>\<open>stop\<close> is complete, the destroyer's thread can end by
  itself exactly when it is neither waiting nor about to wait: \<^verbatim>\<open>stop\<close> clears the interval and notifies
  without holding the mutex, so both can fall between the test of the predicate and the wait.  Otherwise
  it ends after at most as many steps as there are sessions to destroy, and five.
\<close>

theorem destroyer_stop_exact:
  assumes "destroy_reachable True t" and "th_stop t" and "dq_stopping (th_shared t) = 0"
  shows "(can_end (destroy_own True) t \<longleftrightarrow> \<not> destroy_lost t) \<and>
    (\<not> destroy_lost t \<longrightarrow> (\<forall>n u. (destroy_own True ^^ n) t u \<longrightarrow> n \<le> length (dq_infos (th_shared t)) + 5))"
proof -
  have "thread_rank destroy_brank t \<le> length (dq_infos (th_shared t)) + 5"
    by (simp add: thread_rank_def destroy_brank_def split: thread_phase.split)
  then show ?thesis
    using destroy_ends_iff [OF assms] destroy_stop.at_most [OF _ destroy_reachable_good [OF assms(1)]
      destroy_stopped_told [OF assms]]
    by (meson add_leD1 order_trans)
qed

definition ex_destroy_lost :: "(nat destroy_state, destroy_point) threaded" where
  "ex_destroy_lost = \<lparr>th_shared = destroy_state_new\<lparr>dq_interval := 0\<rparr>, th_phase = T_Body D_Blocked,
     th_stop = True, th_isStart = False\<rparr>"

lemma ex_destroy_lost_reachable: "destroy_reachable True ex_destroy_lost"
proof -
  let ?n = "Thread_new destroy_state_new :: (nat destroy_state, destroy_point) threaded"
  let ?q = "destroy_state_new :: nat destroy_state"
  let ?at = "\<lambda>p. \<lparr>th_shared = ?q, th_phase = p, th_stop = False, th_isStart = True\<rparr>"
  have "destroy_reachable True (?at T_Loop)"
    using dr_env [OF dr_new de_start]
    by (simp add: can_start_def start_thread_def Thread_new_def destroy_state_new_def)
  from dr_own [OF this th_enter] have "destroy_reachable True (?at (T_Body D_Pred))" by simp
  from dr_own [OF this th_work [of _ D_Pred "destroy_body True" ?q "Go D_Blocking"]]
  have "destroy_reachable True (?at (T_Body D_Blocking))"
    using db_false [of ?q True False] by (simp add: destroy_state_new_def)
  from dr_env [OF dr_env [OF dr_env [OF this de_request] de_zero] de_notify]
  have "destroy_reachable True (ex_destroy_lost\<lparr>th_phase := T_Body D_Blocking\<rparr>)"
    by (simp add: destroy_stop_defs destroy_notify_def ex_destroy_lost_def destroy_state_new_def)
  from dr_own [OF this th_work [of _ D_Blocking "destroy_body True" "th_shared ex_destroy_lost" "Go D_Blocked"]]
  show ?thesis using db_block [of True True "th_shared ex_destroy_lost"] by (simp add: ex_destroy_lost_def)
qed

lemma destroyer_stop_exact_witness:
  "\<not> can_end (destroy_own True) ex_destroy_lost"
  using destroyer_stop_exact [OF ex_destroy_lost_reachable]
  by (simp add: ex_destroy_lost_def destroy_state_new_def destroy_lost_def)

section \<open>Starting again\<close>

definition destroy_spinning :: "('a destroy_state, destroy_point) threaded \<Rightarrow> bool" where
  "destroy_spinning t \<longleftrightarrow> dq_interval (th_shared t) = 0 \<and> \<not> destroy_lost t"

lemma destroy_spinning_own: "destroy_own handler t u \<Longrightarrow> destroy_spinning t \<Longrightarrow> destroy_spinning u"
  by (erule thread_stepE) (auto simp: destroy_spinning_def destroy_lost_def elim!: destroy_bodyE)

lemma destroy_spinning_env: "destroy_env t u \<Longrightarrow> destroy_spinning t \<Longrightarrow> destroy_spinning u"
  by (erule destroy_envE)
    (auto simp: destroy_spinning_def destroy_lost_def destroy_notify_def destroy_stop_defs start_thread_def split: if_splits)

lemma destroy_spinning_steps:
  "(\<lambda>x y. destroy_own handler x y \<or> destroy_env x y)\<^sup>*\<^sup>* t u \<Longrightarrow> destroy_spinning t \<Longrightarrow> destroy_spinning u"
  by (induction rule: rtranclp_induct) (auto intro: destroy_spinning_own destroy_spinning_env)

text \<open>One round with nothing to destroy.\<close>

lemma destroy_idle_round:
  assumes "th_phase t = T_Loop" "\<not> th_stop t" "dq_interval (th_shared t) = 0" "dq_infos (th_shared t) = []"
  shows "(destroy_own True ^^ 4) t t"
proof -
  let ?at = "\<lambda>p. t\<lparr>th_phase := p\<rparr>"
  have same: "t\<lparr>th_phase := T_Loop\<rparr> = t" using assms(1) by (cases t) simp
  have "destroy_own True t (?at (T_Body D_Pred))" by (rule th_enter) (use assms in simp_all)
  moreover have "destroy_own True (?at (T_Body D_Pred)) (?at (T_Body D_Loop))"
    using th_work [of "?at (T_Body D_Pred)" D_Pred "destroy_body True" "th_shared t" "Go D_Loop" 0 D_Pred]
      db_true [of "th_shared t" True "th_stop t"] assms(3) by simp
  moreover have "destroy_own True (?at (T_Body D_Loop)) (?at T_Pause)"
    using th_work [of "?at (T_Body D_Loop)" D_Loop "destroy_body True" "th_shared t" Return 0 D_Pred]
      db_empty [of True "th_shared t" "th_stop t"] assms(4) by simp
  moreover have "destroy_own True (?at T_Pause) t"
    using th_continue [of "?at T_Pause" 0 D_Pred "destroy_body True"] same by simp
  ultimately show ?thesis by (auto simp: numeral_eq_Suc)
qed

text \<open>
  A destroyer started again never waits.  \<^verbatim>\<open>stop\<close> leaves the interval at zero and \<^verbatim>\<open>start\<close> does not
  restore it, so that, whatever else happens, the thread never reaches its wait again; with nothing to
  destroy it comes back to the same state after four steps, with no pause in between.
\<close>

theorem destroyer_restart_spins:
  assumes "destroy_reachable True t" and "thread_ended t" and "dq_interval (th_shared t) = 0"
  shows "(\<forall>u. (\<lambda>x y. destroy_own True x y \<or> destroy_env x y)\<^sup>*\<^sup>* (start_thread t) u \<longrightarrow> \<not> destroy_lost u) \<and>
    (dq_infos (th_shared t) = [] \<longrightarrow> (destroy_own True ^^ 4) (start_thread t) (start_thread t))"
proof -
  have "\<not> th_isStart t"
    using destroy_reachable_good [OF assms(1)] assms(2) by (auto simp: destroy_good_def flags_ok_def thread_ended_def)
  then have "destroy_spinning (start_thread t)" "th_phase (start_thread t) = T_Loop" "\<not> th_stop (start_thread t)"
    "th_shared (start_thread t) = th_shared t"
    using assms(3) by (simp_all add: destroy_spinning_def destroy_lost_def start_thread_def)
  then show ?thesis
    using destroy_spinning_steps [of True "start_thread t"] destroy_idle_round [of "start_thread t"] assms(3)
    unfolding destroy_spinning_def by simp
qed

definition ex_destroy_stopped :: "(nat destroy_state, destroy_point) threaded" where
  "ex_destroy_stopped = Thread_new (destroy_state_new\<lparr>dq_interval := 0\<rparr>)"

lemma ex_destroy_stopped_reachable: "destroy_reachable True ex_destroy_stopped"
  using dr_env [OF dr_env [OF dr_env [OF dr_new de_request] de_zero] de_notify]
  by (simp add: destroy_stop_defs destroy_notify_def ex_destroy_stopped_def Thread_new_def destroy_state_new_def)

lemma destroyer_restart_spins_witness:
  "(destroy_own True ^^ 4) (start_thread ex_destroy_stopped) (start_thread ex_destroy_stopped)"
  using destroyer_restart_spins [OF ex_destroy_stopped_reachable]
  by (simp add: ex_destroy_stopped_def Thread_new_def thread_ended_def destroy_state_new_def)

text \<open>
  The destroyer loses nothing: at every time the sessions handed to the handler, in their order, and
  then those in the queue are those that were added.
\<close>

theorem destroyer_conserves:
  assumes "destroy_reachable handler t"
  shows "dq_added (th_shared t) = dq_destroyed (th_shared t) @ dq_infos (th_shared t)"
  using destroy_reachable_good [OF assms] by (simp add: destroy_good_def Let_def)

lemma destroyer_conserves_witness:
  "dq_added (th_shared ex_destroy_stopped) = dq_destroyed (th_shared ex_destroy_stopped)"
  using destroyer_conserves [OF ex_destroy_stopped_reachable]
  by (simp add: ex_destroy_stopped_def Thread_new_def destroy_state_new_def)

end
