(* ===== verification/ReactorThread.thy ===== *)
theory ReactorThread
  imports Threads
begin

text \<open>
  \<^verbatim>\<open>service/SlaveReactor.cpp\<close>: the thread of a reactor with its wait, and how it is stopped.  What it does
  with tasks and events is in \<open>Reactor\<close> and \<open>ReactorLoop\<close>.
\<close>

section \<open>State and steps\<close>

text \<open>
  The points of the function the thread calls: \<^verbatim>\<open>epoll_wait\<close>, the tests behind it, the two halves of
  \<^verbatim>\<open>handleSendTasks\<close> and the loop over the events.  Of what the thread shares, \<open>rk_counter\<close> is the counter of
  the eventfd, \<open>rk_ready\<close> says that a socket has an event, and \<open>rk_unsendable\<close> says that the events contain an \<^verbatim>\<open>EPOLLOUT\<close> of a session whose \<^verbatim>\<open>send\<close> fails:
  then the inner loop over its window does not end (\<open>Reactor.epollout_spins\<close>).  \<open>rk_stopping\<close> counts the
  calls of \<^verbatim>\<open>stop\<close> that have still to write.
\<close>

datatype reactor_point = RP_Wait | RP_Got | RP_Tasks | RP_Read | RP_Events

record reactor_shared =
  rk_counter :: nat
  rk_ready :: bool
  rk_unsendable :: bool
  rk_stopping :: nat

definition reactor_shared_new :: "reactor_shared" where
  "reactor_shared_new = \<lparr>rk_counter = 0, rk_ready = False, rk_unsendable = False, rk_stopping = 0\<rparr>"

inductive reactor_body :: "(reactor_shared, reactor_point) body" where
  rb_wake: "0 < rk_counter w \<or> rk_ready w \<Longrightarrow> reactor_body st w RP_Wait (w\<lparr>rk_ready := False\<rparr>) (Go RP_Got)"
| rb_told: "reactor_body True w RP_Got w Return"
| rb_failed: "reactor_body False w RP_Got w Return"
| rb_go: "reactor_body False w RP_Got w (Go RP_Tasks)"
| rb_tasks: "reactor_body st w RP_Tasks w (Go RP_Read)"
| rb_read: "reactor_body st w RP_Read (w\<lparr>rk_counter := 0\<rparr>) (Go RP_Events)"
| rb_spin: "rk_unsendable w \<Longrightarrow> reactor_body st w RP_Events w (Go RP_Events)"
| rb_events: "\<not> rk_unsendable w \<Longrightarrow> reactor_body st w RP_Events w Return"

inductive_cases reactor_bodyE: "reactor_body st w p w' r"

abbreviation reactor_own :: "(reactor_shared, reactor_point) threaded \<Rightarrow>
    (reactor_shared, reactor_point) threaded \<Rightarrow> bool" where
  "reactor_own \<equiv> thread_step 0 RP_Wait reactor_body"

text \<open>The two statements of \<^verbatim>\<open>stop\<close>.\<close>

definition reactor_request :: "(reactor_shared, 'p) threaded \<Rightarrow> (reactor_shared, 'p) threaded" where
  "reactor_request t = (stop_thread t)\<lparr>th_shared := (th_shared t)\<lparr>rk_stopping := Suc (rk_stopping (th_shared t))\<rparr>\<rparr>"

definition reactor_write :: "reactor_shared \<Rightarrow> reactor_shared" where
  "reactor_write w = w\<lparr>rk_counter := Suc (rk_counter w), rk_stopping := rk_stopping w - 1\<rparr>"

lemmas reactor_stop_defs = reactor_request_def reactor_write_def stop_thread_def

text \<open>The others: the kernel, the senders, and \<^verbatim>\<open>stop\<close> and \<^verbatim>\<open>start\<close>.\<close>

inductive reactor_env :: "(reactor_shared, reactor_point) threaded \<Rightarrow>
    (reactor_shared, reactor_point) threaded \<Rightarrow> bool" where
  re_socket: "reactor_env t (t\<lparr>th_shared := (th_shared t)\<lparr>rk_ready := True\<rparr>\<rparr>)"
| re_peer: "reactor_env t (t\<lparr>th_shared := (th_shared t)\<lparr>rk_unsendable := gone\<rparr>\<rparr>)"
| re_sender: "reactor_env t (t\<lparr>th_shared := (th_shared t)\<lparr>rk_counter := Suc (rk_counter (th_shared t))\<rparr>\<rparr>)"
| re_request: "reactor_env t (reactor_request t)"
| re_wake: "0 < rk_stopping (th_shared t) \<Longrightarrow> reactor_env t (t\<lparr>th_shared := reactor_write (th_shared t)\<rparr>)"
| re_start: "can_start t \<Longrightarrow> rk_stopping (th_shared t) = 0 \<Longrightarrow> reactor_env t (start_thread t)"

inductive_cases reactor_envE: "reactor_env t u"

inductive reactor_reachable :: "(reactor_shared, reactor_point) threaded \<Rightarrow> bool" where
  rr_new: "reactor_reachable (Thread_new reactor_shared_new)"
| rr_own: "reactor_reachable t \<Longrightarrow> reactor_own t u \<Longrightarrow> reactor_reachable u"
| rr_env: "reactor_reachable t \<Longrightarrow> reactor_env t u \<Longrightarrow> reactor_reachable u"

section \<open>Stopping\<close>

text \<open>
  A thread told to stop waits only with a wake-up in the counter, or one about to be written: the thread
  reads the counter only in a round in which it looks at the stop token afterwards.
\<close>

definition reactor_good :: "(reactor_shared, reactor_point) threaded \<Rightarrow> bool" where
  "reactor_good t \<longleftrightarrow> flags_ok t \<and> (\<forall>e. th_phase t \<noteq> T_Crashed e) \<and>
     (th_stop t \<and> th_phase t = T_Body RP_Wait \<longrightarrow>
       0 < rk_counter (th_shared t) \<or> 0 < rk_stopping (th_shared t))"

definition reactor_body_ok :: "reactor_shared \<Rightarrow> reactor_point \<Rightarrow> bool" where
  "reactor_body_ok w p \<longleftrightarrow> (p = RP_Wait \<longrightarrow> 0 < rk_counter w \<or> rk_ready w) \<and>
     (p \<in> {RP_Tasks, RP_Read, RP_Events} \<longrightarrow> \<not> rk_unsendable w)"

fun reactor_brank :: "reactor_shared \<Rightarrow> reactor_point \<Rightarrow> nat" where
  "reactor_brank w RP_Tasks = 2"
| "reactor_brank w RP_Wait = 1"
| "reactor_brank w RP_Read = 1"
| "reactor_brank w p = 0"

lemma reactor_brank_le: "reactor_brank w p \<le> 2"
  by (cases p) simp_all

definition reactor_spinning :: "(reactor_shared, reactor_point) threaded \<Rightarrow> bool" where
  "reactor_spinning t \<longleftrightarrow> rk_unsendable (th_shared t) \<and> th_phase t \<in> T_Body ` {RP_Tasks, RP_Read, RP_Events}"

interpretation reactor: returning_body 0 RP_Wait reactor_body reactor_body_ok reactor_brank
proof
  fix w :: reactor_shared and p
  assume "reactor_body_ok w p"
  then show "\<exists>s' r. reactor_body True w p s' r"
    by (cases p) (auto simp: reactor_body_ok_def intro: reactor_body.intros)
qed (auto simp: reactor_body_ok_def elim!: reactor_bodyE)

lemma reactor_good_own:
  assumes "reactor_good t" "reactor_own t u"
  shows "reactor_good u"
proof -
  have f: "flags_ok u" using flags_ok_step [OF assms(2)] assms(1) by (simp add: reactor_good_def)
  show ?thesis
    by (rule thread_stepE [OF assms(2)]) (use f assms(1) in \<open>auto simp: reactor_good_def elim!: reactor_bodyE\<close>)
qed

lemma reactor_good_env: "reactor_good t \<Longrightarrow> reactor_env t u \<Longrightarrow> reactor_good u"
  by (erule reactor_envE) (auto simp: reactor_good_def flags_ok_def reactor_stop_defs start_thread_def)

interpretation reactor_stop: stoppable reactor_own reactor_env "\<lambda>t. t = Thread_new reactor_shared_new"
  reactor_good "told_ok reactor_body_ok" thread_ended "thread_rank reactor_brank"
proof
  fix t u :: "(reactor_shared, reactor_point) threaded"
  show "reactor_good t" if "t = Thread_new reactor_shared_new"
    using that by (simp add: reactor_good_def flags_ok_new) (simp add: Thread_new_def)
qed (auto intro: reactor_good_own reactor_good_env reactor.told_step reactor.told_moves reactor.told_nearer)

lemma reactor_reachable_good: "reactor_reachable t \<Longrightarrow> reactor_good t"
proof (induction rule: reactor_reachable.induct)
  case rr_new
  then show ?case by (rule reactor_stop.good_fresh) simp
qed (auto intro: reactor_good_own reactor_good_env)

lemma reactor_spinning_step: "reactor_own t u \<Longrightarrow> reactor_spinning t \<Longrightarrow> reactor_spinning u"
  by (erule thread_stepE) (auto simp: reactor_spinning_def elim!: reactor_bodyE)

lemma reactor_stopped_told:
  assumes "reactor_reachable t" and "th_stop t" and "rk_stopping (th_shared t) = 0" and "\<not> reactor_spinning t"
  shows "told_ok reactor_body_ok t"
  using reactor_reachable_good [OF assms(1)] assms(2-)
  by (auto simp: told_ok_def reactor_body_ok_def reactor_good_def reactor_spinning_def split: thread_phase.splits)

lemma reactor_ends_iff:
  assumes "reactor_reachable t" and "th_stop t" and "rk_stopping (th_shared t) = 0"
  shows "can_end reactor_own t \<longleftrightarrow> \<not> reactor_spinning t"
proof
  show "can_end reactor_own t" if "\<not> reactor_spinning t"
    using reactor_stop.ends [OF reactor_reachable_good [OF assms(1)] reactor_stopped_told [OF assms that]]
    by (simp add: can_end_def)
  have "\<not> can_end reactor_own t" if "reactor_spinning t"
  proof (rule cannot_end [of reactor_spinning, OF that])
    show "\<not> thread_ended u" if "reactor_spinning u" for u using that by (auto simp: reactor_spinning_def thread_ended_def)
  qed (rule reactor_spinning_step)
  then show "\<not> reactor_spinning t" if "can_end reactor_own t" using that by blast
qed


definition ex_reactor_swallowed :: "(reactor_shared, reactor_point) threaded" where
  "ex_reactor_swallowed = \<lparr>th_shared = reactor_shared_new, th_phase = T_Body RP_Events, th_stop = True,
     th_isStart = False\<rparr>"

text \<open>The write of \<^verbatim>\<open>stop\<close> comes between the sending and the reading.\<close>

lemma ex_reactor_swallowed_reachable: "reactor_reachable ex_reactor_swallowed"
proof -
  let ?s = "reactor_shared_new"
  let ?at = "\<lambda>s p. \<lparr>th_shared = s, th_phase = p, th_stop = False, th_isStart = True\<rparr>"
  have "reactor_reachable (?at ?s T_Loop)"
    using rr_env [OF rr_new re_start] by (simp add: can_start_def start_thread_def Thread_new_def reactor_shared_new_def)
  from rr_own [OF this th_enter] have "reactor_reachable (?at ?s (T_Body RP_Wait))" by simp
  from rr_env [OF this re_socket] have "reactor_reachable (?at (?s\<lparr>rk_ready := True\<rparr>) (T_Body RP_Wait))" by simp
  from rr_own [OF this th_work [of _ RP_Wait reactor_body ?s "Go RP_Got"]]
  have "reactor_reachable (?at ?s (T_Body RP_Got))"
    using rb_wake [of "?s\<lparr>rk_ready := True\<rparr>" False] by (simp add: reactor_shared_new_def)
  from rr_own [OF this th_work [of _ RP_Got reactor_body ?s "Go RP_Tasks"]]
  have "reactor_reachable (?at ?s (T_Body RP_Tasks))" using rb_go [of ?s] by simp
  from rr_own [OF this th_work [of _ RP_Tasks reactor_body ?s "Go RP_Read"]]
  have "reactor_reachable (?at ?s (T_Body RP_Read))" using rb_tasks [of False ?s] by simp
  from rr_env [OF rr_env [OF this re_request] re_wake]
  have "reactor_reachable (ex_reactor_swallowed\<lparr>th_shared := ?s\<lparr>rk_counter := 1\<rparr>, th_phase := T_Body RP_Read\<rparr>)"
    by (simp add: reactor_stop_defs reactor_shared_new_def ex_reactor_swallowed_def)
  from rr_own [OF this th_work [of _ RP_Read reactor_body ?s "Go RP_Events"]]
  show ?thesis
    using rb_read [of True "?s\<lparr>rk_counter := 1\<rparr>"] by (simp add: reactor_shared_new_def ex_reactor_swallowed_def)
qed


end
