(* ===== verification/Lifecycle.thy ===== *)
theory Lifecycle
  imports Workers Queues Destroyer ReactorThread Acceptor
begin

text \<open>
  How a service starts and ends: \<^verbatim>\<open>start\<close> and \<^verbatim>\<open>stop\<close> of \<^verbatim>\<open>P2PService\<close> and \<^verbatim>\<open>ServerService\<close> as the sequences of
  calls they are, run by the main thread between the steps of the threads they concern; the two thread
  pools; and which threads a stopped service leaves behind.
\<close>

section \<open>The pools\<close>

text \<open>The decoder guards its pool with a flag; the module processor does not.\<close>

record pools =
  pl_running :: bool
  pl_decoders :: "(session_id \<times> u8 list) thread_pool"
  pl_modules :: "(session_id \<times> packet) thread_pool"

definition pools_new :: "u64 \<Rightarrow> u64 \<Rightarrow> pools" where
  "pools_new decoders modules =
     \<lparr>pl_running = False, pl_decoders = ThreadPool_new decoders, pl_modules = ThreadPool_new modules\<rparr>"

definition SessionDataDecoder_start :: "pools \<Rightarrow> int \<times> pools" where
  "SessionDataDecoder_start p =
     (if pl_running p then (0, p)
      else (let (ret, pool) = pool_start (pl_decoders p) in (ret, p\<lparr>pl_running := True, pl_decoders := pool\<rparr>)))"

definition SessionDataDecoder_stop :: "pools \<Rightarrow> (int \<times> pools) run" where
  "SessionDataDecoder_stop p =
     (if \<not> pl_running p then Inr (0, p)
      else and_then (pool_stop (pl_decoders p)) (\<lambda>(ret, pool). Inr (ret, p\<lparr>pl_running := False, pl_decoders := pool\<rparr>)))"

definition SessionModuleDataProcessor_start :: "pools \<Rightarrow> int \<times> pools" where
  "SessionModuleDataProcessor_start p = (let (ret, pool) = pool_start (pl_modules p) in (ret, p\<lparr>pl_modules := pool\<rparr>))"

definition SessionModuleDataProcessor_stop :: "pools \<Rightarrow> (int \<times> pools) run" where
  "SessionModuleDataProcessor_stop p =
     and_then (pool_stop (pl_modules p)) (\<lambda>(ret, pool). Inr (ret, p\<lparr>pl_modules := pool\<rparr>))"

datatype service_op = ServiceStart | ServiceStop

text \<open>What the two methods of a service do with the pools; the results of the calls are not looked at.\<close>

fun pools_step :: "service_op \<Rightarrow> pools \<Rightarrow> pools run" where
  "pools_step ServiceStart p = Inr (snd (SessionModuleDataProcessor_start (snd (SessionDataDecoder_start p))))"
| "pools_step ServiceStop p =
     and_then (SessionDataDecoder_stop p) (\<lambda>(_, p1). and_then (SessionModuleDataProcessor_stop p1) (\<lambda>(_, p2). Inr p2))"

fun pools_run :: "service_op list \<Rightarrow> pools \<Rightarrow> pools run" where
  "pools_run [] p = Inr p"
| "pools_run (op # ops) p = and_then (pools_step op p) (pools_run ops)"

text \<open>
  The phases of \<open>Workers.pool_phase\<close>; a pool without threads stays empty.
\<close>

definition pool_at :: "u64 \<Rightarrow> nat \<Rightarrow> 'a thread_pool \<Rightarrow> bool" where
  "pool_at n k p \<longleftrightarrow> tp_threadNum p = n \<and> (if 1 \<le> n then pool_phase k p else tp_threads p = [])"

definition pools_at :: "u64 \<Rightarrow> u64 \<Rightarrow> nat \<Rightarrow> pools \<Rightarrow> bool" where
  "pools_at m n k p \<longleftrightarrow> pool_at m k (pl_decoders p) \<and> pool_at n k (pl_modules p) \<and> (pl_running p \<longleftrightarrow> odd k)"

definition pool_op :: "service_op \<Rightarrow> 'a pool_event" where
  "pool_op op = (case op of ServiceStart \<Rightarrow> P_Start | ServiceStop \<Rightarrow> P_Stop)"

definition service_restart :: "service_op list" where
  "service_restart = [ServiceStart, ServiceStop, ServiceStart, ServiceStop]"

lemma pool_op_restart:
  assumes "k < 4"
  shows "(pool_op op :: 'a pool_event) = restart ! k \<longleftrightarrow> op = service_restart ! k"
proof -
  have "(restart :: 'a pool_event list) = map pool_op service_restart"
    by (simp add: restart_def service_restart_def pool_op_def)
  moreover have "k < length service_restart" using assms by (simp add: service_restart_def)
  moreover have "(pool_op a :: 'a pool_event) = pool_op b \<longleftrightarrow> a = b" for a b
    by (auto simp: pool_op_def split: service_op.splits)
  ultimately show ?thesis by (metis nth_map)
qed

lemma pool_at_step:
  assumes "pool_at n k p" and "k < 4"
  shows "if op = service_restart ! k
    then (if k = 3 \<and> 1 \<le> n then pool_step (pool_op op) p = Inl Uncaught
      else \<exists>p'. pool_step (pool_op op) p = Inr p' \<and> pool_at n (Suc k) p')
    else \<exists>p'. pool_step (pool_op op) p = Inr p' \<and> pool_at n k p'"
proof (cases "1 \<le> n")
  case True
  let ?next = "\<lambda>j. \<exists>p'. pool_step (pool_op op) p = Inr p' \<and> pool_phase j p'"
  have lift: "?next j \<Longrightarrow> \<exists>p'. pool_step (pool_op op) p = Inr p' \<and> pool_at n j p'" for j
    using assms(1) True pool_step_tasks(2) [of "pool_op op" p] unfolding pool_at_def by (metis (mono_tags, lifting))
  have phase: "pool_phase k p" "1 \<le> tp_threadNum p" using assms(1) True by (simp_all add: pool_at_def)
  show ?thesis
    using pool_phase_step [OF phase(1) assms(2) phase(2), of "pool_op op"] pool_op_restart [OF assms(2), of op, where 'a = 'a]
      lift [of k] lift [of "Suc k"] True
    by (metis (no_types, lifting))
next
  case False
  then have "n = 0" by (metis linorder_not_le word_less_1)
  then have "tp_threads p = []" "tp_threadNum p = 0" "n = 0" using assms(1) by (auto simp: pool_at_def)
  then show ?thesis by (cases op) (auto simp: pool_at_def pool_op_def pool_start_def pool_stop_def)
qed

lemma pools_step_eq:
  "pools_step op p = and_then (if pl_running p = (op = ServiceStart) then Inr (pl_decoders p) else pool_step (pool_op op) (pl_decoders p))
     (\<lambda>d. and_then (pool_step (pool_op op) (pl_modules p)) (\<lambda>m.
       Inr \<lparr>pl_running = (op = ServiceStart), pl_decoders = d, pl_modules = m\<rparr>))"
  by (cases op; cases "pool_stop (pl_decoders p)"; cases "pool_stop (pl_modules p)"; cases p)
    (auto simp: pool_op_def SessionDataDecoder_start_def SessionDataDecoder_stop_def SessionModuleDataProcessor_start_def
      SessionModuleDataProcessor_stop_def split: prod.splits)

text \<open>An operation that the decoder's flag lets pass is the next one of the restart.\<close>

lemma service_restart_next: "k < 4 \<Longrightarrow> op = service_restart ! k \<longleftrightarrow> odd k = (op = ServiceStop)"
proof -
  assume "k < 4"
  then have "k = 0 \<or> k = 1 \<or> k = 2 \<or> k = 3" by arith
  then show ?thesis by (elim disjE; cases op) (simp_all add: service_restart_def)
qed

lemma pools_at_step:
  assumes "pools_at m n k p" and "k < 4"
  shows "if op = service_restart ! k
    then (if k = 3 \<and> (1 \<le> m \<or> 1 \<le> n) then pools_step op p = Inl Uncaught
      else \<exists>p'. pools_step op p = Inr p' \<and> (k = 3 \<or> pools_at m n (Suc k) p'))
    else \<exists>p'. pools_step op p = Inr p' \<and> pools_at m n k p'"
proof -
  have at: "pool_at m k (pl_decoders p)" "pool_at n k (pl_modules p)" "pl_running p \<longleftrightarrow> odd k"
    using assms(1) by (simp_all add: pools_at_def)
  have flag: "(op = ServiceStart) = even k \<longleftrightarrow> op = service_restart ! k"
    using service_restart_next [OF assms(2), of op] by (cases op) auto
  show ?thesis
    using pool_at_step [OF at(1) assms(2), of op] pool_at_step [OF at(2) assms(2), of op] at flag
    by (cases op) (auto simp: pools_step_eq pools_at_def split: if_splits)
qed

lemma pools_run_faults:
  "pools_at m n k p \<Longrightarrow> k < 4 \<Longrightarrow> 1 \<le> m \<or> 1 \<le> n \<Longrightarrow>
   (\<exists>f. pools_run ops p = Inl f) \<longleftrightarrow> subseq (drop k service_restart) ops"
proof (induction ops arbitrary: k p)
  case Nil
  then show ?case by (simp add: service_restart_def)
next
  case (Cons op ops)
  have d: "drop k service_restart = service_restart ! k # drop (Suc k) service_restart"
    by (rule Cons_nth_drop_Suc [symmetric]) (use Cons.prems(2) in \<open>simp add: service_restart_def\<close>)
  note step = pools_at_step [OF Cons.prems(1,2), of op]
  show ?case
  proof (cases "op = service_restart ! k \<and> k = 3")
    case True
    then show ?thesis using step d Cons.prems(3) by (auto simp: service_restart_def)
  next
    case False
    then obtain p' k' where p': "pools_step op p = Inr p'" "pools_at m n k' p'" "k' < 4"
      and k': "k' = (if op = service_restart ! k then Suc k else k)"
      using step Cons.prems(2) by (auto split: if_splits)
    from Cons.IH [OF p'(2,3) Cons.prems(3)] show ?thesis using p'(1) k' d by (auto split: if_splits)
  qed
qed

definition pool_empty :: "'a thread_pool \<Rightarrow> bool" where
  "pool_empty p \<longleftrightarrow> tp_threadNum p = 0 \<and> tp_threads p = []"

lemma pool_empty_step: "pool_empty p \<Longrightarrow> \<exists>p'. pool_step (pool_op op) p = Inr p' \<and> pool_empty p'"
  by (cases op) (auto simp: pool_empty_def pool_op_def pool_start_def pool_stop_def)

lemma pools_empty_run: "pool_empty (pl_decoders p) \<Longrightarrow> pool_empty (pl_modules p) \<Longrightarrow> pools_run ops p \<noteq> Inl f"
proof (induction ops arbitrary: p)
  case (Cons op ops)
  obtain d m where "pool_step (pool_op op) (pl_decoders p) = Inr d" "pool_empty d"
    "pool_step (pool_op op) (pl_modules p) = Inr m" "pool_empty m"
    using pool_empty_step Cons.prems by metis
  then show ?case using Cons.IH Cons.prems by (simp add: pools_step_eq)
qed simp

text \<open>
  C24: a service ends the process exactly when it is stopped after a second start.  Among the calls of \<^verbatim>\<open>start\<close>
  and \<^verbatim>\<open>stop\<close> of a service one throws if and only if start, stop, start and stop occur in this order and one
  of its two pools has a thread; the decoder's flag does not prevent it.
\<close>

theorem service_restart_faults:
  "(\<exists>f. pools_run ops (pools_new m n) = Inl f) \<longleftrightarrow>
   (1 \<le> m \<or> 1 \<le> n) \<and> subseq [ServiceStart, ServiceStop, ServiceStart, ServiceStop] ops"
proof -
  have new: "pools_at m n 0 (pools_new m n)" by (simp add: pools_at_def pool_at_def pools_new_def ThreadPool_new_def)
  show ?thesis
  proof (cases "1 \<le> m \<or> 1 \<le> n")
    case True
    then show ?thesis using pools_run_faults [OF new] by (simp add: service_restart_def)
  next
    case False
    then have "m = 0" "n = 0" by (metis linorder_not_le word_less_1)+
    then show ?thesis using pools_empty_run [of "pools_new m n" ops] False
      by (auto simp: pool_empty_def pools_new_def ThreadPool_new_def)
  qed
qed

text \<open>Without a flag, starting twice doubles the threads of the module processor.\<close>

lemma service_start_twice:
  assumes "1 \<le> n" and "pools_run [ServiceStart, ServiceStart] (pools_new m n) = Inr p"
  shows "length (tp_threads (pl_modules p)) = 2 * unat n" and "length (tp_threads (pl_decoders p)) = unat m"
proof -
  have "\<not> n < 1" using assms(1) by (metis linorder_not_le)
  then show "length (tp_threads (pl_modules p)) = 2 * unat n" "length (tp_threads (pl_decoders p)) = unat m"
    using assms(2)
    by (auto simp: pools_step_eq pools_new_def ThreadPool_new_def pool_op_def pool_start_def unat_eq_zero
        split: if_splits dest: word_less_1 [THEN iffD1])
qed

section \<open>The service and the calls\<close>

text \<open>
  The parts that \<^verbatim>\<open>start\<close> and \<^verbatim>\<open>stop\<close> concern.  A call is one statement of the methods of a part: \<open>C_Stop\<close>
  requests the stop, \<open>C_Zero\<close> is the assignment in \<^verbatim>\<open>SessionDestroyer::stop\<close>, and \<open>C_Wake\<close> is the null pointer,
  the write or the notification that follows.
\<close>

datatype part =
    PartDecoder | PartModules | PartProcessor | PartDispatcher | PartDestroyer | PartReactor nat
  | PartAlive | PartAcceptor | PartListenner | PartHeartbeat | PartRouting | PartConnector

datatype call = C_Start part | C_Stop part | C_Zero | C_Wake part

definition SlaveReactor_stop :: "nat \<Rightarrow> call list" where
  "SlaveReactor_stop i = [C_Stop (PartReactor i), C_Wake (PartReactor i)]"

definition SessionServiceDataProcessor_stop :: "call list" where
  "SessionServiceDataProcessor_stop = [C_Stop PartProcessor, C_Wake PartProcessor]"

definition SessionDispatcher_stop :: "call list" where
  "SessionDispatcher_stop = [C_Stop PartDispatcher, C_Wake PartDispatcher]"

definition SessionDestroyer_stop :: "call list" where
  "SessionDestroyer_stop = [C_Stop PartDestroyer, C_Zero, C_Wake PartDestroyer]"

definition Acceptor_stop :: "call list" where
  "Acceptor_stop = [C_Stop PartAcceptor, C_Wake PartAcceptor]"

text \<open>The methods of the services, with the number of reactors.\<close>

definition ServerService_start :: "nat \<Rightarrow> call list" where
  "ServerService_start n =
     [C_Start PartDecoder, C_Start PartProcessor, C_Start PartModules] @
     map (\<lambda>i. C_Start (PartReactor i)) [0..<n] @
     [C_Start PartAlive, C_Start PartDispatcher, C_Start PartDestroyer, C_Start PartAcceptor, C_Start PartListenner]"

definition ServerService_stop :: "nat \<Rightarrow> call list" where
  "ServerService_stop n =
     [C_Stop PartAlive, C_Stop PartDecoder] @ SessionServiceDataProcessor_stop @
     [C_Stop PartModules, C_Stop PartListenner] @ Acceptor_stop @ SessionDestroyer_stop @ SessionDispatcher_stop @
     concat (map SlaveReactor_stop [0..<n])"

definition P2PService_start :: "nat \<Rightarrow> call list" where
  "P2PService_start n =
     [C_Start PartDecoder, C_Start PartProcessor, C_Start PartModules] @
     map (\<lambda>i. C_Start (PartReactor i)) [0..<n] @
     [C_Start PartAlive, C_Start PartDispatcher, C_Start PartDestroyer, C_Start PartAcceptor, C_Start PartListenner,
      C_Start PartHeartbeat, C_Start PartRouting, C_Start PartConnector]"

definition P2PService_stop :: "nat \<Rightarrow> call list" where
  "P2PService_stop n =
     [C_Stop PartAlive, C_Stop PartHeartbeat, C_Stop PartConnector, C_Stop PartRouting, C_Stop PartDecoder] @
     SessionServiceDataProcessor_stop @ [C_Stop PartModules, C_Stop PartListenner] @ Acceptor_stop @
     SessionDestroyer_stop @ SessionDispatcher_stop @ concat (map SlaveReactor_stop [0..<n])"

text \<open>Which of the two services; the TCP RPC server's forwards the calls to its own.\<close>

definition service_calls :: "bool \<Rightarrow> service_op \<Rightarrow> nat \<Rightarrow> call list" where
  "service_calls p2p op n =
     (case op of ServiceStart \<Rightarrow> if p2p then P2PService_start n else ServerService_start n
      | ServiceStop \<Rightarrow> if p2p then P2PService_stop n else ServerService_stop n)"

text \<open>
  \<open>lf_calls\<close> are the statements that the main thread has still to run of the operation \<open>lf_op\<close>.  Of the
  parts whose threads only pause \<open>lf_started\<close> has the flag; there is an acceptor once it has been started.
\<close>

record life =
  lf_pools :: pools
  lf_processor :: "((session_id \<times> packet) work_queue, (session_id \<times> packet) queue_point) threaded"
  lf_dispatcher :: "(p2p_session work_queue, p2p_session queue_point) threaded"
  lf_destroyer :: "(destroy_info destroy_state, destroy_point) threaded"
  lf_reactors :: "(reactor_shared, reactor_point) threaded list"
  lf_acceptor :: "acceptor option"
  lf_started :: "part \<Rightarrow> bool"
  lf_calls :: "call list"
  lf_op :: "service_op option"

definition life_new :: "u64 \<Rightarrow> u64 \<Rightarrow> nat \<Rightarrow> life" where
  "life_new decoders modules reactors = \<lparr>lf_pools = pools_new decoders modules,
     lf_processor = Thread_new work_queue_new, lf_dispatcher = Thread_new work_queue_new,
     lf_destroyer = Thread_new destroy_state_new, lf_reactors = replicate reactors (Thread_new reactor_shared_new),
     lf_acceptor = None, lf_started = (\<lambda>_. False), lf_calls = [], lf_op = None\<rparr>"

text \<open>Starting a thread anew joins the old one, which blocks until that has ended.\<close>

definition join_start :: "('s, 'p) threaded \<Rightarrow> ('s, 'p) threaded option" where
  "join_start t = (if can_start t then Some (start_thread t) else None)"

definition acceptor_can_start :: "acceptor option \<Rightarrow> bool" where
  "acceptor_can_start x \<longleftrightarrow> (case x of None \<Rightarrow> True | Some a \<Rightarrow> \<not> ac_stop a \<or> ac_phase a = AC_Ended)"

definition acceptor_start :: "acceptor option \<Rightarrow> acceptor option" where
  "acceptor_start x = (case x of None \<Rightarrow> Some Acceptor_new
     | Some a \<Rightarrow> Some (if \<not> ac_stop a then a else Acceptor_new\<lparr>ac_backlog := ac_backlog a\<rparr>))"

definition acceptor_wake :: "acceptor option \<Rightarrow> acceptor option" where
  "acceptor_wake = map_option (\<lambda>a. (notify a)\<lparr>ac_notified := True\<rparr>)"

fun call_start :: "part \<Rightarrow> life \<Rightarrow> life option" where
  "call_start PartDecoder l = Some (l\<lparr>lf_pools := snd (SessionDataDecoder_start (lf_pools l))\<rparr>)"
| "call_start PartModules l = Some (l\<lparr>lf_pools := snd (SessionModuleDataProcessor_start (lf_pools l))\<rparr>)"
| "call_start PartProcessor l = map_option (\<lambda>t. l\<lparr>lf_processor := t\<rparr>) (join_start (lf_processor l))"
| "call_start PartDispatcher l = map_option (\<lambda>t. l\<lparr>lf_dispatcher := t\<rparr>) (join_start (lf_dispatcher l))"
| "call_start PartDestroyer l = map_option (\<lambda>t. l\<lparr>lf_destroyer := t\<rparr>) (join_start (lf_destroyer l))"
| "call_start (PartReactor i) l =
     map_option (\<lambda>t. l\<lparr>lf_reactors := (lf_reactors l)[i := t]\<rparr>) (join_start (lf_reactors l ! i))"
| "call_start PartAcceptor l =
     (if acceptor_can_start (lf_acceptor l) then Some (l\<lparr>lf_acceptor := acceptor_start (lf_acceptor l)\<rparr>) else None)"
| "call_start part l = Some (l\<lparr>lf_started := (lf_started l)(part := True)\<rparr>)"

text \<open>The listening thread is in its last pass when it is told to stop; the pass is taken as over.\<close>

fun call_stop :: "part \<Rightarrow> life \<Rightarrow> life run" where
  "call_stop PartDecoder l = and_then (SessionDataDecoder_stop (lf_pools l)) (\<lambda>(_, p). Inr (l\<lparr>lf_pools := p\<rparr>))"
| "call_stop PartModules l = and_then (SessionModuleDataProcessor_stop (lf_pools l)) (\<lambda>(_, p). Inr (l\<lparr>lf_pools := p\<rparr>))"
| "call_stop PartProcessor l = Inr (l\<lparr>lf_processor := queue_request (lf_processor l)\<rparr>)"
| "call_stop PartDispatcher l = Inr (l\<lparr>lf_dispatcher := queue_request (lf_dispatcher l)\<rparr>)"
| "call_stop PartDestroyer l = Inr (l\<lparr>lf_destroyer := destroy_request (lf_destroyer l)\<rparr>)"
| "call_stop (PartReactor i) l = Inr (l\<lparr>lf_reactors := (lf_reactors l)[i := reactor_request (lf_reactors l ! i)]\<rparr>)"
| "call_stop PartListenner l = Inr (l\<lparr>lf_started := (lf_started l)(PartListenner := False),
     lf_acceptor := map_option (\<lambda>a. a\<lparr>ac_listening := False\<rparr>) (lf_acceptor l)\<rparr>)"
| "call_stop PartAcceptor l = Inr (l\<lparr>lf_acceptor := map_option (\<lambda>a. a\<lparr>ac_stop := True\<rparr>) (lf_acceptor l)\<rparr>)"
| "call_stop part l = Inr (l\<lparr>lf_started := (lf_started l)(part := False)\<rparr>)"

definition on_shared :: "('s \<Rightarrow> 's) \<Rightarrow> ('s, 'p) threaded \<Rightarrow> ('s, 'p) threaded" where
  "on_shared f t = t\<lparr>th_shared := f (th_shared t)\<rparr>"

fun call_wake :: "part \<Rightarrow> life \<Rightarrow> life" where
  "call_wake PartProcessor l = l\<lparr>lf_processor := on_shared queue_null (lf_processor l)\<rparr>"
| "call_wake PartDispatcher l = l\<lparr>lf_dispatcher := on_shared queue_null (lf_dispatcher l)\<rparr>"
| "call_wake PartDestroyer l = l\<lparr>lf_destroyer := destroy_wake (lf_destroyer l)\<rparr>"
| "call_wake (PartReactor i) l = l\<lparr>lf_reactors := (lf_reactors l)[i := on_shared reactor_write (lf_reactors l ! i)]\<rparr>"
| "call_wake PartAcceptor l = l\<lparr>lf_acceptor := acceptor_wake (lf_acceptor l)\<rparr>"
| "call_wake part l = l"

text \<open>\<open>None\<close>: the call blocks.\<close>

fun do_call :: "call \<Rightarrow> life \<Rightarrow> life run option" where
  "do_call (C_Start part) l = map_option Inr (call_start part l)"
| "do_call (C_Stop part) l = Some (call_stop part l)"
| "do_call C_Zero l = Some (Inr (l\<lparr>lf_destroyer := destroy_zero (lf_destroyer l)\<rparr>))"
| "do_call (C_Wake part) l = Some (Inr (call_wake part l))"

section \<open>Runs\<close>

text \<open>The steps of the other threads, which leave the flags and the main thread's progress as they are.\<close>

definition same_orders :: "('s \<Rightarrow> nat) \<Rightarrow> ('s, 'p) threaded \<Rightarrow> ('s, 'p) threaded \<Rightarrow> bool" where
  "same_orders stopping t u \<longleftrightarrow> th_isStart u = th_isStart t \<and> th_stop u = th_stop t \<and>
     stopping (th_shared u) = stopping (th_shared t)"

definition same_acceptor :: "acceptor \<Rightarrow> acceptor \<Rightarrow> bool" where
  "same_acceptor a b \<longleftrightarrow> ac_stop b = ac_stop a \<and> ac_listening b = ac_listening a \<and> ac_notified b = ac_notified a"

inductive life_move :: "bool \<Rightarrow> nat \<Rightarrow> life \<Rightarrow> life \<Rightarrow> bool" for p2p room where
  lm_processor: "queue_own (lf_processor l) t \<or> queue_env None (lf_processor l) t \<Longrightarrow>
    same_orders wq_stopping (lf_processor l) t \<Longrightarrow> life_move p2p room l (l\<lparr>lf_processor := t\<rparr>)"
| lm_dispatcher: "queue_own (lf_dispatcher l) t \<or> queue_env (Some room) (lf_dispatcher l) t \<Longrightarrow>
    same_orders wq_stopping (lf_dispatcher l) t \<Longrightarrow> life_move p2p room l (l\<lparr>lf_dispatcher := t\<rparr>)"
| lm_destroyer: "destroy_own True (lf_destroyer l) t \<or> destroy_env (lf_destroyer l) t \<Longrightarrow>
    same_orders dq_stopping (lf_destroyer l) t \<Longrightarrow> life_move p2p room l (l\<lparr>lf_destroyer := t\<rparr>)"
| lm_reactor: "i < length (lf_reactors l) \<Longrightarrow> reactor_own (lf_reactors l ! i) t \<or> reactor_env (lf_reactors l ! i) t \<Longrightarrow>
    same_orders rk_stopping (lf_reactors l ! i) t \<Longrightarrow> life_move p2p room l (l\<lparr>lf_reactors := (lf_reactors l)[i := t]\<rparr>)"
| lm_acceptor: "lf_acceptor l = Some a \<Longrightarrow> acceptor_step p2p a b \<or> acceptor_env a b \<Longrightarrow> same_acceptor a b \<Longrightarrow>
    life_move p2p room l (l\<lparr>lf_acceptor := Some b\<rparr>)"
| lm_decoders: "pool_step e (pl_decoders (lf_pools l)) = Inr p \<Longrightarrow> e \<notin> {P_Start, P_Stop} \<Longrightarrow>
    life_move p2p room l (l\<lparr>lf_pools := (lf_pools l)\<lparr>pl_decoders := p\<rparr>\<rparr>)"
| lm_modules: "pool_step e (pl_modules (lf_pools l)) = Inr p \<Longrightarrow> e \<notin> {P_Start, P_Stop} \<Longrightarrow>
    life_move p2p room l (l\<lparr>lf_pools := (lf_pools l)\<lparr>pl_modules := p\<rparr>\<rparr>)"

inductive_cases life_moveE: "life_move p2p room l l'"

inductive life_reachable :: "bool \<Rightarrow> nat \<Rightarrow> life \<Rightarrow> bool" for p2p room where
  lr_new: "life_reachable p2p room (life_new decoders modules reactors)"
| lr_move: "life_reachable p2p room l \<Longrightarrow> life_move p2p room l l' \<Longrightarrow> life_reachable p2p room l'"
| lr_begin: "life_reachable p2p room l \<Longrightarrow> lf_calls l = [] \<Longrightarrow>
    life_reachable p2p room (l\<lparr>lf_calls := service_calls p2p op (length (lf_reactors l)), lf_op := Some op\<rparr>)"
| lr_call: "life_reachable p2p room l \<Longrightarrow> lf_calls l = c # cs \<Longrightarrow> do_call c l = Some (Inr l') \<Longrightarrow>
    life_reachable p2p room (l'\<lparr>lf_calls := cs\<rparr>)"

section \<open>Order of the calls\<close>

text \<open>The calls that come after a call in the same operation, and lists in which they do.\<close>

fun follow :: "call \<Rightarrow> call set" where
  "follow (C_Stop PartProcessor) = {C_Wake PartProcessor}"
| "follow (C_Stop PartDispatcher) = {C_Wake PartDispatcher}"
| "follow (C_Stop (PartReactor i)) = {C_Wake (PartReactor i)}"
| "follow (C_Stop PartDestroyer) = {C_Zero, C_Wake PartDestroyer}"
| "follow (C_Stop PartListenner) = {C_Stop PartAcceptor, C_Wake PartAcceptor}"
| "follow (C_Stop PartAcceptor) = {C_Wake PartAcceptor}"
| "follow C_Zero = {C_Wake PartDestroyer}"
| "follow c = {}"

fun orderly :: "call list \<Rightarrow> bool" where
  "orderly [] \<longleftrightarrow> True"
| "orderly (c # cs) \<longleftrightarrow> c \<notin> set cs \<and> follow c \<subseteq> set cs \<and> orderly cs"

lemma orderly_follow: "orderly cs \<Longrightarrow> c \<in> set cs \<Longrightarrow> follow c \<subseteq> set cs"
  by (induction cs) auto

lemma orderly_start_reactors: "distinct is \<Longrightarrow> orderly ds \<Longrightarrow> \<forall>i. C_Start (PartReactor i) \<notin> set ds \<Longrightarrow>
    orderly (map (\<lambda>i. C_Start (PartReactor i)) is @ ds)"
  by (induction "is") auto

lemma set_stop_reactors: "c \<in> set (concat (map SlaveReactor_stop is)) \<longleftrightarrow>
    (\<exists>i \<in> set is. c = C_Stop (PartReactor i) \<or> c = C_Wake (PartReactor i))"
  by (induction "is") (auto simp: SlaveReactor_stop_def)

lemma orderly_stop_reactors: "distinct is \<Longrightarrow> orderly (concat (map SlaveReactor_stop is))"
proof (induction "is")
  case (Cons i js)
  have "c \<notin> set (concat (map SlaveReactor_stop js))" if "c \<in> set (SlaveReactor_stop i)" for c
    using that Cons.prems set_stop_reactors [of c js] by (auto simp: SlaveReactor_stop_def simp del: set_concat)
  then show ?case using Cons by (simp add: SlaveReactor_stop_def)
qed simp

lemmas part_stop_defs = SessionServiceDataProcessor_stop_def SessionDispatcher_stop_def SessionDestroyer_stop_def
  Acceptor_stop_def

lemma service_calls_orderly: "orderly (service_calls p2p op n)"
proof (cases op)
  case ServiceStart
  have "orderly (map (\<lambda>i. C_Start (PartReactor i)) [0..<n] @ ds)"
    if "orderly ds" "\<forall>i. C_Start (PartReactor i) \<notin> set ds" for ds
    using orderly_start_reactors [OF _ that] by simp
  then show ?thesis using ServiceStart by (auto simp: service_calls_def P2PService_start_def ServerService_start_def)
next
  case ServiceStop
  have "orderly (concat (map SlaveReactor_stop [0..<n]))" by (rule orderly_stop_reactors) simp
  then show ?thesis using ServiceStop
    by (auto simp: service_calls_def P2PService_stop_def ServerService_stop_def part_stop_defs set_stop_reactors
        simp del: set_concat)
qed

fun is_start :: "call \<Rightarrow> bool" where
  "is_start (C_Start part) \<longleftrightarrow> True"
| "is_start c \<longleftrightarrow> False"

lemma service_calls_kind: "c \<in> set (service_calls p2p op n) \<Longrightarrow> is_start c \<longleftrightarrow> op = ServiceStart"
  by (cases op) (auto simp: service_calls_def P2PService_start_def ServerService_start_def P2PService_stop_def
      ServerService_stop_def part_stop_defs set_stop_reactors simp del: set_concat split: if_splits)

text \<open>Whether the request of a stop has been made and the call after it has not.\<close>

definition owes :: "call \<Rightarrow> call \<Rightarrow> call list \<Rightarrow> nat" where
  "owes s w cs = (if w \<in> set cs \<and> s \<notin> set cs then 1 else 0)"

lemma owes_Cons:
  assumes "orderly (c # cs)" and "w \<in> follow s" and "s \<noteq> w"
  shows "c = s \<Longrightarrow> owes s w (c # cs) = 0" and "c = w \<Longrightarrow> owes s w (c # cs) = 1"
    and "owes s w cs = (if c = s then 1 else if c = w then 0 else owes s w (c # cs))"
  using assms orderly_follow [of cs s] by (auto simp: owes_def)

section \<open>What a call does to a part\<close>

fun called :: "part \<Rightarrow> ('t \<Rightarrow> 't) \<Rightarrow> ('t \<Rightarrow> 't) \<Rightarrow> ('t \<Rightarrow> 't) \<Rightarrow> call \<Rightarrow> 't \<Rightarrow> 't" where
  "called part f g h (C_Start p) t = (if p = part then f t else t)"
| "called part f g h (C_Stop p) t = (if p = part then g t else t)"
| "called part f g h (C_Wake p) t = (if p = part then h t else t)"
| "called part f g h C_Zero t = t"

abbreviation "called_queue part \<equiv> called part start_thread queue_request (on_shared queue_null)"
abbreviation "called_reactor i \<equiv> called (PartReactor i) start_thread reactor_request (on_shared reactor_write)"

definition called_destroyer :: "call \<Rightarrow> ('a destroy_state, destroy_point) threaded \<Rightarrow> ('a destroy_state, destroy_point) threaded" where
  "called_destroyer c t = (if c = C_Zero then destroy_zero t else called PartDestroyer start_thread destroy_request destroy_wake c t)"

fun called_acceptor :: "call \<Rightarrow> acceptor option \<Rightarrow> acceptor option" where
  "called_acceptor (C_Start PartAcceptor) x = acceptor_start x"
| "called_acceptor (C_Stop PartListenner) x = map_option (\<lambda>a. a\<lparr>ac_listening := False\<rparr>) x"
| "called_acceptor (C_Stop PartAcceptor) x = map_option (\<lambda>a. a\<lparr>ac_stop := True\<rparr>) x"
| "called_acceptor (C_Wake PartAcceptor) x = acceptor_wake x"
| "called_acceptor c x = x"

definition same_calls :: "call \<Rightarrow> life \<Rightarrow> life \<Rightarrow> bool" where
  "same_calls c l k \<longleftrightarrow> lf_processor k = called_queue PartProcessor c (lf_processor l) \<and>
     lf_dispatcher k = called_queue PartDispatcher c (lf_dispatcher l) \<and>
     lf_destroyer k = called_destroyer c (lf_destroyer l) \<and> length (lf_reactors k) = length (lf_reactors l) \<and>
     (\<forall>i < length (lf_reactors l). lf_reactors k ! i = called_reactor i c (lf_reactors l ! i)) \<and>
     lf_acceptor k = called_acceptor c (lf_acceptor l) \<and> lf_calls k = lf_calls l \<and> lf_op k = lf_op l"

lemma call_start_parts: "call_start p l = Some k \<Longrightarrow> same_calls (C_Start p) l k"
  by (cases p) (simp_all add: same_calls_def join_start_def called_destroyer_def nth_list_update split: if_split_asm,
    auto simp: same_calls_def join_start_def called_destroyer_def nth_list_update)

lemma call_stop_parts: "call_stop p l = Inr k \<Longrightarrow> same_calls (C_Stop p) l k"
  by (cases p) (auto simp: same_calls_def and_then_Inr called_destroyer_def nth_list_update)

lemma call_wake_parts: "same_calls (C_Wake p) l (call_wake p l)"
  by (cases p) (simp_all add: same_calls_def called_destroyer_def nth_list_update)

lemma do_call_parts: "do_call c l = Some (Inr l') \<Longrightarrow> same_calls c l l'"
  by (cases c) (auto simp: call_start_parts call_stop_parts call_wake_parts,
    simp add: same_calls_def called_destroyer_def)

lemma do_call_can_start:
  assumes "do_call (C_Start p) l = Some (Inr l')"
  shows "p = PartProcessor \<longrightarrow> can_start (lf_processor l)" and "p = PartDispatcher \<longrightarrow> can_start (lf_dispatcher l)"
    and "p = PartDestroyer \<longrightarrow> can_start (lf_destroyer l)" and "p = PartReactor i \<longrightarrow> can_start (lf_reactors l ! i)"
  using assms by (cases p; auto simp: join_start_def split: if_splits)+

text \<open>The state of a part, and the owed calls, before and after a call.\<close>

definition starts_only :: "call list \<Rightarrow> bool" where
  "starts_only cs \<longleftrightarrow> (\<exists>b. \<forall>c \<in> set cs. is_start c = b)"

lemma starts_owe_nothing: "starts_only (C_Start p # cs) \<Longrightarrow> owes s (C_Wake q) (C_Start p # cs) = 0"
  by (force simp: starts_only_def owes_def)

lemma starts_owe_zero: "starts_only (C_Start p # cs) \<Longrightarrow> owes s C_Zero (C_Start p # cs) = 0"
  by (force simp: starts_only_def owes_def)

lemma called_queue_ok:
  assumes "queue_reachable room t" and "orderly (c # cs)" and "starts_only (c # cs)"
    and "c = C_Start part \<longrightarrow> can_start t" and "C_Wake part \<in> follow (C_Stop part)"
    and "wq_stopping (th_shared t) = owes (C_Stop part) (C_Wake part) (c # cs)"
  shows "queue_reachable room (called_queue part c t) \<and>
    wq_stopping (th_shared (called_queue part c t)) = owes (C_Stop part) (C_Wake part) cs"
proof -
  have owed: "c = C_Stop part \<Longrightarrow> owes (C_Stop part) (C_Wake part) (c # cs) = 0"
    "c = C_Wake part \<Longrightarrow> owes (C_Stop part) (C_Wake part) (c # cs) = 1"
    "owes (C_Stop part) (C_Wake part) cs =
      (if c = C_Stop part then 1 else if c = C_Wake part then 0 else owes (C_Stop part) (C_Wake part) (c # cs))"
    using owes_Cons [OF assms(2,5)] by simp_all
  have "queue_reachable room (start_thread t)" if "c = C_Start part"
    using qr_env [OF assms(1) qe_start] assms(3,4,6) that starts_owe_nothing by simp
  moreover have "queue_reachable room (queue_request t)" using qr_env [OF assms(1) qe_request] .
  moreover have "queue_reachable room (on_shared queue_null t)" if "c = C_Wake part"
    using qr_env [OF assms(1) qe_null] assms(6) owed(2) that by (simp add: on_shared_def)
  ultimately show ?thesis
    using assms(1,6) owed
    by (cases c) (auto simp: queue_request_def queue_null_def stop_thread_def start_thread_def on_shared_def)
qed

lemma called_reactor_ok:
  assumes "reactor_reachable t" and "orderly (c # cs)" and "starts_only (c # cs)"
    and "c = C_Start (PartReactor i) \<longrightarrow> can_start t"
    and "rk_stopping (th_shared t) = owes (C_Stop (PartReactor i)) (C_Wake (PartReactor i)) (c # cs)"
  shows "reactor_reachable (called_reactor i c t) \<and>
    rk_stopping (th_shared (called_reactor i c t)) = owes (C_Stop (PartReactor i)) (C_Wake (PartReactor i)) cs"
proof -
  let ?s = "C_Stop (PartReactor i)" and ?w = "C_Wake (PartReactor i)"
  have owed: "c = ?s \<Longrightarrow> owes ?s ?w (c # cs) = 0" "c = ?w \<Longrightarrow> owes ?s ?w (c # cs) = 1"
    "owes ?s ?w cs = (if c = ?s then 1 else if c = ?w then 0 else owes ?s ?w (c # cs))"
    using owes_Cons [OF assms(2), of ?w ?s] by simp_all
  have "reactor_reachable (start_thread t)" if "c = C_Start (PartReactor i)"
    using rr_env [OF assms(1) re_start] assms(3-5) that starts_owe_nothing by simp
  moreover have "reactor_reachable (reactor_request t)" using rr_env [OF assms(1) re_request] .
  moreover have "reactor_reachable (on_shared reactor_write t)" if "c = ?w"
    using rr_env [OF assms(1) re_wake] assms(5) owed(2) that by (simp add: on_shared_def)
  ultimately show ?thesis
    using assms(1,5) owed
    by (cases c) (auto simp: reactor_stop_defs start_thread_def on_shared_def)
qed

definition destroy_owes :: "call list \<Rightarrow> nat" where
  "destroy_owes cs = owes (C_Stop PartDestroyer) C_Zero cs + owes (C_Stop PartDestroyer) (C_Wake PartDestroyer) cs"

lemma called_destroyer_ok:
  assumes "destroy_reachable True t" and "orderly (c # cs)" and "starts_only (c # cs)"
    and "c = C_Start PartDestroyer \<longrightarrow> can_start t" and "dq_stopping (th_shared t) = destroy_owes (c # cs)"
  shows "destroy_reachable True (called_destroyer c t) \<and> dq_stopping (th_shared (called_destroyer c t)) = destroy_owes cs"
proof -
  let ?s = "C_Stop PartDestroyer" and ?w = "C_Wake PartDestroyer"
  have o: "c = ?s \<Longrightarrow> owes ?s ?w (c # cs) = 0" "c = ?w \<Longrightarrow> owes ?s ?w (c # cs) = 1"
    "owes ?s ?w cs = (if c = ?s then 1 else if c = ?w then 0 else owes ?s ?w (c # cs))"
    "c = ?s \<Longrightarrow> owes ?s C_Zero (c # cs) = 0" "c = C_Zero \<Longrightarrow> owes ?s C_Zero (c # cs) = 1"
    "owes ?s C_Zero cs = (if c = ?s then 1 else if c = C_Zero then 0 else owes ?s C_Zero (c # cs))"
    using owes_Cons [OF assms(2), of ?w ?s] owes_Cons [OF assms(2), of C_Zero ?s] by simp_all
  have follows: "c = C_Zero \<Longrightarrow> owes ?s ?w (c # cs) = 1" "c = ?w \<Longrightarrow> owes ?s C_Zero (c # cs) = 0"
    using assms(2) orderly_follow [of cs ?s] orderly_follow [of cs C_Zero] by (auto simp: owes_def)
  have none: "c = C_Start PartDestroyer \<Longrightarrow> dq_stopping (th_shared t) = 0"
    using assms(3,5) starts_owe_nothing [of PartDestroyer cs ?s PartDestroyer] starts_owe_zero [of PartDestroyer cs ?s]
    by (simp add: destroy_owes_def)
  have "destroy_reachable True (start_thread t)" if "c = C_Start PartDestroyer"
    using dr_env [OF assms(1) de_start] assms(4) none that by simp
  moreover have "destroy_reachable True (destroy_request t)" if "c = ?s"
    using dr_env [OF assms(1) de_request] assms(5) o that by (simp add: destroy_owes_def)
  moreover have "destroy_reachable True (destroy_zero t)" if "c = C_Zero"
    using dr_env [OF assms(1) de_zero] assms(5) o follows that by (simp add: destroy_owes_def)
  moreover have "destroy_reachable True (destroy_wake t)" if "c = ?w"
    using dr_env [OF assms(1) de_notify] assms(5) o follows that by (simp add: destroy_owes_def)
  ultimately show ?thesis
    using assms(1,5) o follows
    by (cases c) (auto simp: called_destroyer_def destroy_owes_def destroy_stop_defs destroy_notify_def start_thread_def)
qed

section \<open>Reachable states\<close>

text \<open>Every part is in a reachable state of its own, and owes what the main thread has not yet done.\<close>

definition acceptor_good :: "bool \<Rightarrow> service_op option \<Rightarrow> call list \<Rightarrow> acceptor option \<Rightarrow> bool" where
  "acceptor_good p2p op cs x \<longleftrightarrow> (\<forall>a. x = Some a \<longrightarrow> acceptor_reachable p2p a \<and> (op = Some ServiceStop \<longrightarrow>
     (C_Stop PartListenner \<notin> set cs \<longrightarrow> \<not> ac_listening a) \<and> (C_Stop PartAcceptor \<notin> set cs \<longrightarrow> ac_stop a) \<and>
     (C_Wake PartAcceptor \<notin> set cs \<longrightarrow> ac_notified a)))"

lemma acceptor_reachable_backlog: "acceptor_reachable nonblocking (Acceptor_new\<lparr>ac_backlog := n\<rparr>)"
proof (induction n)
  case 0
  have "Acceptor_new\<lparr>ac_backlog := 0\<rparr> = Acceptor_new" by (simp add: Acceptor_new_def)
  then show ?case using ac_start by simp
next
  case (Suc n)
  from ac_other [OF this env_client] show ?case by (simp add: Acceptor_new_def)
qed

lemma called_acceptor_good:
  assumes "acceptor_good p2p op (c # cs) x" and "orderly (c # cs)" and "op \<noteq> None"
    and "\<forall>d \<in> set (c # cs). is_start d = (op = Some ServiceStart)"
  shows "acceptor_good p2p op cs (called_acceptor c x)"
proof (cases "is_start c")
  case True
  then have "op \<noteq> Some ServiceStop" using assms(4) by auto
  then show ?thesis
    using assms(1) True ac_start acceptor_reachable_backlog
    by (cases "(c, x)" rule: called_acceptor.cases)
      (auto simp: acceptor_good_def acceptor_start_def split: option.splits)
next
  case False
  then have op: "op = Some ServiceStop" using assms(3,4) by (cases op; cases "the op") auto
  have later: "c = C_Stop PartAcceptor \<Longrightarrow> C_Stop PartListenner \<notin> set (c # cs)"
    "c = C_Wake PartAcceptor \<Longrightarrow> C_Stop PartAcceptor \<notin> set (c # cs)"
    using assms(2) orderly_follow [of cs "C_Stop PartListenner"] orderly_follow [of cs "C_Stop PartAcceptor"] by auto
  have good: "acceptor_reachable p2p a"
    "C_Stop PartListenner \<notin> set (c # cs) \<Longrightarrow> \<not> ac_listening a"
    "C_Stop PartAcceptor \<notin> set (c # cs) \<Longrightarrow> ac_stop a" "C_Wake PartAcceptor \<notin> set (c # cs) \<Longrightarrow> ac_notified a"
    if "x = Some a" for a
    using assms(1) op that by (auto simp: acceptor_good_def)
  show ?thesis
    unfolding acceptor_good_def
  proof (intro allI, rule impI)
    fix b assume b: "called_acceptor c x = Some b"
    then obtain a where a: "x = Some a" using False by (cases "(c, x)" rule: called_acceptor.cases) (auto simp: acceptor_wake_def)
    note g = good [OF a]
    consider (unlisten) "c = C_Stop PartListenner" | (stop) "c = C_Stop PartAcceptor" | (wake) "c = C_Wake PartAcceptor"
      | (other) "c \<notin> {C_Stop PartListenner, C_Stop PartAcceptor, C_Wake PartAcceptor}" by blast
    then show "acceptor_reachable p2p b \<and> (op = Some ServiceStop \<longrightarrow>
       (C_Stop PartListenner \<notin> set cs \<longrightarrow> \<not> ac_listening b) \<and> (C_Stop PartAcceptor \<notin> set cs \<longrightarrow> ac_stop b) \<and>
       (C_Wake PartAcceptor \<notin> set cs \<longrightarrow> ac_notified b))"
    proof cases
      case unlisten
      then have "b = a\<lparr>ac_listening := False\<rparr>" using a b by simp
      then show ?thesis using g unlisten ac_other [OF g(1) env_unlisten] by simp
    next
      case stop
      then have "b = a\<lparr>ac_stop := True\<rparr>" using a b by simp
      then show ?thesis using g stop later(1) ac_other [OF g(1) env_stop] by simp
    next
      case wake
      then have "b = (notify a)\<lparr>ac_notified := True\<rparr>" using a b by (simp add: acceptor_wake_def)
      moreover have "ac_stop (notify a) = ac_stop a" "ac_listening (notify a) = ac_listening a" by (simp_all add: notify_def)
      ultimately show ?thesis using g wake later(2) ac_other [OF g(1) env_notify] by simp
    next
      case other
      then have "b = a" using False a b by (cases "(c, x)" rule: called_acceptor.cases) auto
      then show ?thesis using g other by auto
    qed
  qed
qed

definition parts_ok :: "bool \<Rightarrow> nat \<Rightarrow> life \<Rightarrow> bool" where
  "parts_ok p2p room l \<longleftrightarrow> queue_reachable None (lf_processor l) \<and> queue_reachable (Some room) (lf_dispatcher l) \<and>
     destroy_reachable True (lf_destroyer l) \<and> (\<forall>i < length (lf_reactors l). reactor_reachable (lf_reactors l ! i)) \<and>
     acceptor_good p2p (lf_op l) (lf_calls l) (lf_acceptor l)"

definition debts_ok :: "life \<Rightarrow> bool" where
  "debts_ok l \<longleftrightarrow> (let cs = lf_calls l in
     wq_stopping (th_shared (lf_processor l)) = owes (C_Stop PartProcessor) (C_Wake PartProcessor) cs \<and>
     wq_stopping (th_shared (lf_dispatcher l)) = owes (C_Stop PartDispatcher) (C_Wake PartDispatcher) cs \<and>
     dq_stopping (th_shared (lf_destroyer l)) = destroy_owes cs \<and>
     (\<forall>i < length (lf_reactors l).
       rk_stopping (th_shared (lf_reactors l ! i)) = owes (C_Stop (PartReactor i)) (C_Wake (PartReactor i)) cs))"

definition calls_ok :: "life \<Rightarrow> bool" where
  "calls_ok l \<longleftrightarrow> orderly (lf_calls l) \<and> (\<forall>c \<in> set (lf_calls l). is_start c = (lf_op l = Some ServiceStart)) \<and>
     (lf_calls l \<noteq> [] \<longrightarrow> lf_op l \<noteq> None)"

definition life_ok :: "bool \<Rightarrow> nat \<Rightarrow> life \<Rightarrow> bool" where
  "life_ok p2p room l \<longleftrightarrow> parts_ok p2p room l \<and> debts_ok l \<and> calls_ok l"

lemma life_ok_new: "life_ok p2p room (life_new decoders modules reactors)"
  by (simp add: life_ok_def parts_ok_def debts_ok_def calls_ok_def life_new_def owes_def destroy_owes_def
      qr_new dr_new rr_new acceptor_good_def) (simp add: Thread_new_def work_queue_new_def destroy_state_new_def reactor_shared_new_def)

lemma acceptor_good_move:
  "acceptor_good p2p op cs (Some a) \<Longrightarrow> acceptor_step p2p a b \<or> acceptor_env a b \<Longrightarrow> same_acceptor a b \<Longrightarrow>
   acceptor_good p2p op cs (Some b)"
  by (auto simp: acceptor_good_def same_acceptor_def intro: ac_own ac_other)

lemma life_ok_move: "life_ok p2p room l \<Longrightarrow> life_move p2p room l l' \<Longrightarrow> life_ok p2p room l'"
  by (erule life_moveE)
    (auto simp: life_ok_def parts_ok_def debts_ok_def calls_ok_def same_orders_def nth_list_update Let_def
      intro: qr_own qr_env dr_own dr_env rr_own rr_env acceptor_good_move)

lemma acceptor_good_begin: "acceptor_good p2p op cs x \<Longrightarrow> acceptor_good p2p (Some op') (service_calls p2p op' n) x"
  by (auto simp: acceptor_good_def service_calls_def P2PService_stop_def ServerService_stop_def part_stop_defs split: if_splits)

lemma life_ok_begin:
  "life_ok p2p room l \<Longrightarrow> lf_calls l = [] \<Longrightarrow>
   life_ok p2p room (l\<lparr>lf_calls := service_calls p2p op (length (lf_reactors l)), lf_op := Some op\<rparr>)"
proof -
  let ?cs = "service_calls p2p op (length (lf_reactors l))"
  have none: "owes s w ?cs = 0" if "w \<in> follow s" for s w
  proof (cases "w \<in> set ?cs")
    case True
    have "s \<in> set ?cs"
      using True that
      by (cases s rule: follow.cases; cases op) (auto simp: service_calls_def P2PService_start_def ServerService_start_def P2PService_stop_def
        ServerService_stop_def part_stop_defs set_stop_reactors simp del: set_concat split: if_splits)
    then show ?thesis by (simp add: owes_def)
  qed (simp add: owes_def)
  assume "life_ok p2p room l" "lf_calls l = []"
  then show ?thesis
    using service_calls_orderly [of p2p op "length (lf_reactors l)"] service_calls_kind [of _ p2p op "length (lf_reactors l)"]
    by (auto simp: life_ok_def parts_ok_def debts_ok_def calls_ok_def destroy_owes_def none acceptor_good_begin)
      (auto simp: owes_def)
qed

lemma life_ok_call:
  assumes "life_ok p2p room l" and "lf_calls l = c # cs" and "do_call c l = Some (Inr l')"
  shows "life_ok p2p room (l'\<lparr>lf_calls := cs\<rparr>)"
proof -
  have parts: "parts_ok p2p room l" "debts_ok l" and ord: "orderly (c # cs)"
    and kind: "\<forall>c \<in> set (lf_calls l). is_start c = (lf_op l = Some ServiceStart)"
    using assms(1,2) by (simp_all add: life_ok_def calls_ok_def)
  have starts: "starts_only (c # cs)" using kind assms(2) by (auto simp: starts_only_def)
  have join: "c = C_Start p \<Longrightarrow> (p = PartProcessor \<longrightarrow> can_start (lf_processor l)) \<and>
      (p = PartDispatcher \<longrightarrow> can_start (lf_dispatcher l)) \<and> (p = PartDestroyer \<longrightarrow> can_start (lf_destroyer l)) \<and>
      (p = PartReactor i \<longrightarrow> can_start (lf_reactors l ! i))" for p i
    using do_call_can_start assms(3) by blast
  have same: "same_calls c l l'" by (rule do_call_parts [OF assms(3)])
  have r: "reactor_reachable (called_reactor i c (lf_reactors l ! i)) \<and>
      rk_stopping (th_shared (called_reactor i c (lf_reactors l ! i))) =
        owes (C_Stop (PartReactor i)) (C_Wake (PartReactor i)) cs" if "i < length (lf_reactors l)" for i
    by (rule called_reactor_ok [OF _ ord starts])
      (use parts assms(2) join [of "PartReactor i" i] that in \<open>auto simp: parts_ok_def debts_ok_def Let_def\<close>)
  have q: "queue_reachable None (called_queue PartProcessor c (lf_processor l)) \<and>
      wq_stopping (th_shared (called_queue PartProcessor c (lf_processor l))) =
        owes (C_Stop PartProcessor) (C_Wake PartProcessor) cs"
    by (rule called_queue_ok [OF _ ord starts])
      (use parts assms(2) join in \<open>auto simp: parts_ok_def debts_ok_def Let_def\<close>)
  have d: "queue_reachable (Some room) (called_queue PartDispatcher c (lf_dispatcher l)) \<and>
      wq_stopping (th_shared (called_queue PartDispatcher c (lf_dispatcher l))) =
        owes (C_Stop PartDispatcher) (C_Wake PartDispatcher) cs"
    by (rule called_queue_ok [OF _ ord starts])
      (use parts assms(2) join in \<open>auto simp: parts_ok_def debts_ok_def Let_def\<close>)
  have z: "destroy_reachable True (called_destroyer c (lf_destroyer l)) \<and>
      dq_stopping (th_shared (called_destroyer c (lf_destroyer l))) = destroy_owes cs"
    by (rule called_destroyer_ok [OF _ ord starts])
      (use parts assms(2) join in \<open>auto simp: parts_ok_def debts_ok_def Let_def\<close>)
  have a: "acceptor_good p2p (lf_op l) cs (called_acceptor c (lf_acceptor l))"
    by (rule called_acceptor_good [OF _ ord]) (use parts kind assms in \<open>auto simp: parts_ok_def life_ok_def calls_ok_def\<close>)
  show ?thesis
    using q d z r a same ord kind assms
    by (simp add: life_ok_def parts_ok_def debts_ok_def calls_ok_def same_calls_def Let_def)
qed

lemma life_reachable_ok: "life_reachable p2p room l \<Longrightarrow> life_ok p2p room l"
  by (induction rule: life_reachable.induct) (auto intro: life_ok_new life_ok_move life_ok_begin life_ok_call)

section \<open>A stopped service\<close>

fun part_started :: "part \<Rightarrow> life \<Rightarrow> bool" where
  "part_started PartDecoder l \<longleftrightarrow> pl_running (lf_pools l)"
| "part_started PartModules l \<longleftrightarrow> tp_threads (pl_modules (lf_pools l)) \<noteq> [] \<and> \<not> tp_isTerminate (pl_modules (lf_pools l))"
| "part_started PartProcessor l \<longleftrightarrow> th_isStart (lf_processor l)"
| "part_started PartDispatcher l \<longleftrightarrow> th_isStart (lf_dispatcher l)"
| "part_started PartDestroyer l \<longleftrightarrow> th_isStart (lf_destroyer l)"
| "part_started (PartReactor i) l \<longleftrightarrow> i < length (lf_reactors l) \<and> th_isStart (lf_reactors l ! i)"
| "part_started PartAcceptor l \<longleftrightarrow> (case lf_acceptor l of None \<Rightarrow> False | Some a \<Rightarrow> \<not> ac_stop a)"
| "part_started part l \<longleftrightarrow> lf_started l part"

definition service_parts :: "bool \<Rightarrow> nat \<Rightarrow> part list" where
  "service_parts p2p n =
     [PartDecoder, PartModules, PartProcessor, PartDispatcher, PartDestroyer, PartAlive, PartAcceptor, PartListenner] @
     map PartReactor [0..<n] @ (if p2p then [PartHeartbeat, PartRouting, PartConnector] else [])"

lemma service_stop_complete: "part \<in> set (service_parts p2p n) \<Longrightarrow> C_Stop part \<in> set (service_calls p2p ServiceStop n)"
  by (auto simp: service_parts_def service_calls_def P2PService_stop_def ServerService_stop_def part_stop_defs
      set_stop_reactors simp del: set_concat split: if_splits)

lemma stop_flags [simp]:
  "th_isStart (queue_request t) \<longleftrightarrow> False" "th_isStart (reactor_request t') \<longleftrightarrow> False"
  "th_isStart (destroy_request t'') \<longleftrightarrow> False" "th_isStart (destroy_zero t'') \<longleftrightarrow> th_isStart t''"
  "th_isStart (on_shared f t''') \<longleftrightarrow> th_isStart t'''" "th_isStart (destroy_wake d) \<longleftrightarrow> th_isStart d"
  by (simp_all add: queue_request_def reactor_stop_defs destroy_stop_defs destroy_notify_def on_shared_def)

lemma pool_stop_terminates: "pool_stop p = Inr (ret, p') \<Longrightarrow> tp_isTerminate p'"
  by (auto simp: pool_stop_def split: if_splits)

lemma nth_update: "j < length xs \<Longrightarrow> xs[i := x] ! j = (if i = j then x else xs ! j)"
  by (cases "i = j") simp_all

lemma notify_flags [simp]: "ac_stop (notify a) = ac_stop a"
  by (simp add: notify_def)

lemma call_stop_started:
  "call_stop p l = Inr k \<Longrightarrow> \<not> part_started p k \<and> (part_started q k \<longrightarrow> part_started q l)"
  by (cases p; cases q)
    (auto simp: and_then_Inr SessionDataDecoder_stop_def SessionModuleDataProcessor_stop_def nth_update
      dest: pool_stop_terminates split: if_splits option.splits)

lemma call_wake_started: "part_started q (call_wake p l) \<longrightarrow> part_started q l"
  by (cases p; cases q) (auto simp: nth_update acceptor_wake_def split: if_splits option.splits)

lemma do_call_started:
  assumes "do_call c l = Some (Inr l')" and "\<not> is_start c"
  shows "c = C_Stop part \<Longrightarrow> \<not> part_started part l'" and "part_started part l' \<longrightarrow> part_started part l"
proof -
  have zero: "part_started part (l\<lparr>lf_destroyer := destroy_zero (lf_destroyer l)\<rparr>) = part_started part l"
    by (cases part) simp_all
  show "c = C_Stop part \<Longrightarrow> \<not> part_started part l'" using assms(1) call_stop_started by simp
  show "part_started part l' \<longrightarrow> part_started part l"
    using assms zero call_stop_started [of _ l l' part] call_wake_started [of part _ l] by (cases c) auto
qed

lemma pool_step_started:
  "pool_step e p = Inr q \<Longrightarrow> e \<notin> {P_Start, P_Stop} \<Longrightarrow> tp_threads q = tp_threads p \<and> tp_isTerminate q = tp_isTerminate p"
  by (cases e) (auto simp: pool_push_def pool_work_def split: list.splits if_splits)

lemma life_move_started: "life_move p2p room l l' \<Longrightarrow> part_started part l' = part_started part l"
  by (erule life_moveE; cases part) (auto simp: same_orders_def same_acceptor_def nth_update dest: pool_step_started split: if_splits)

lemma part_started_calls [simp]: "part_started part (l\<lparr>lf_calls := cs\<rparr>) = part_started part l"
  "part_started part (l\<lparr>lf_op := op\<rparr>) = part_started part l"
  by (cases part; simp)+

lemma life_move_frame:
  "life_move p2p room l l' \<Longrightarrow> lf_calls l' = lf_calls l \<and> lf_op l' = lf_op l \<and> length (lf_reactors l') = length (lf_reactors l)"
  by (erule life_moveE) simp_all

lemma stopped_parts:
  "life_reachable p2p room l \<Longrightarrow> lf_op l = Some ServiceStop \<Longrightarrow> part \<in> set (service_parts p2p (length (lf_reactors l))) \<Longrightarrow>
   C_Stop part \<in> set (lf_calls l) \<or> \<not> part_started part l"
proof (induction rule: life_reachable.induct)
  case (lr_move l l')
  then show ?case using life_move_started life_move_frame by metis
next
  case (lr_begin l op)
  then show ?case using service_stop_complete by simp
next
  case (lr_call l c cs l')
  have same: "same_calls c l l'" by (rule do_call_parts [OF lr_call.hyps(3)])
  have op: "lf_op l = Some ServiceStop" "length (lf_reactors l') = length (lf_reactors l)"
    using same lr_call.prems(1) by (auto simp: same_calls_def)
  have kind: "\<not> is_start c"
    using life_reachable_ok [OF lr_call.hyps(1)] lr_call.hyps(2) op(1) by (simp add: life_ok_def calls_ok_def)
  show ?case
    using do_call_started [OF lr_call.hyps(3) kind, of part] lr_call.IH lr_call.prems lr_call.hyps(2) op by auto
qed (simp add: life_new_def)

text \<open>Whether every thread can still end by itself.\<close>

definition service_can_end :: "bool \<Rightarrow> life \<Rightarrow> bool" where
  "service_can_end p2p l \<longleftrightarrow> can_end queue_own (lf_processor l) \<and> can_end queue_own (lf_dispatcher l) \<and>
     can_end (destroy_own True) (lf_destroyer l) \<and> (\<forall>t \<in> set (lf_reactors l). can_end reactor_own t) \<and>
     (case lf_acceptor l of None \<Rightarrow> True | Some a \<Rightarrow> \<exists>b. acceptor_steps p2p a b \<and> ac_phase b = AC_Ended)"

definition crashed :: "('s, 'p) threaded \<Rightarrow> bool" where
  "crashed t \<longleftrightarrow> (\<exists>e. th_phase t = T_Crashed e)"

lemma stopped_thread: "flags_ok t \<Longrightarrow> \<not> th_isStart t \<Longrightarrow> th_stop t \<or> thread_ended t"
  by (auto simp: flags_ok_def thread_ended_def)

lemma crashed_cannot_end: "crashed t \<Longrightarrow> \<not> can_end (thread_step interval entry body) t"
proof (rule cannot_end [of crashed])
  show "crashed u" if "crashed t" "thread_step interval entry body t u" for t u
    by (rule thread_stepE [OF that(2)]) (use that(1) in \<open>auto simp: crashed_def\<close>)
qed (auto simp: crashed_def thread_ended_def)

lemma queue_stopped_iff:
  assumes "queue_reachable room t" and "\<not> th_isStart t" and "wq_stopping (th_shared t) = 0"
  shows "can_end queue_own t \<longleftrightarrow> \<not> crashed t"
  using stopped_thread [OF _ assms(2)] queue_reachable_good [OF assms(1)] queue_can_end [OF assms(1) _ assms(3)]
    crashed_cannot_end [of t] can_end_ended [of t]
  by (auto simp: queue_good_def crashed_def)

lemma destroy_stopped_iff:
  assumes "destroy_reachable True t" and "\<not> th_isStart t" and "dq_stopping (th_shared t) = 0"
  shows "can_end (destroy_own True) t \<longleftrightarrow> \<not> destroy_lost t"
  using stopped_thread [OF _ assms(2)] destroy_reachable_good [OF assms(1)] destroy_ends_iff [OF assms(1) _ assms(3)]
    can_end_ended [of t]
  by (auto simp: destroy_good_def destroy_lost_def thread_ended_def)

lemma reactor_stopped_iff:
  assumes "reactor_reachable t" and "\<not> th_isStart t" and "rk_stopping (th_shared t) = 0"
  shows "can_end reactor_own t \<longleftrightarrow> \<not> reactor_spinning t"
  using stopped_thread [OF _ assms(2)] reactor_reachable_good [OF assms(1)] reactor_ends_iff [OF assms(1) _ assms(3)]
    can_end_ended [of t]
  by (auto simp: reactor_good_def reactor_spinning_def thread_ended_def)


section \<open>Examples\<close>

fun run_calls :: "call list \<Rightarrow> life \<Rightarrow> life option" where
  "run_calls [] l = Some l"
| "run_calls (c # cs) l = (case do_call c l of Some (Inr l') \<Rightarrow> run_calls cs (l'\<lparr>lf_calls := cs\<rparr>) | _ \<Rightarrow> None)"

lemma run_calls_reachable:
  "life_reachable p2p room l \<Longrightarrow> lf_calls l = cs \<Longrightarrow> run_calls cs l = Some l' \<Longrightarrow> life_reachable p2p room l'"
proof (induction cs arbitrary: l)
  case (Cons c cs)
  then obtain k where k: "do_call c l = Some (Inr k)" "run_calls cs (k\<lparr>lf_calls := cs\<rparr>) = Some l'"
    by (auto split: option.splits sum.splits)
  from Cons.IH [OF lr_call [OF Cons.prems(1,2) k(1)] _ k(2)] show ?case by simp
qed simp

text \<open>A service with one reactor that has started; its destroyer is about to wait, the others have done nothing.\<close>

definition ex_life :: "destroy_point thread_phase \<Rightarrow> life" where
  "ex_life p = \<lparr>lf_pools = \<lparr>pl_running = True, pl_decoders = (ThreadPool_new 1)\<lparr>tp_threads := [True]\<rparr>,
       pl_modules = (ThreadPool_new 1)\<lparr>tp_threads := [True]\<rparr>\<rparr>,
     lf_processor = start_thread (Thread_new work_queue_new), lf_dispatcher = start_thread (Thread_new work_queue_new),
     lf_destroyer = \<lparr>th_shared = destroy_state_new, th_phase = p, th_stop = False, th_isStart = True\<rparr>,
     lf_reactors = [start_thread (Thread_new reactor_shared_new)],
     lf_acceptor = Some Acceptor_new, lf_started = (\<lambda>_. False)(PartAlive := True, PartListenner := True,
       PartHeartbeat := True, PartRouting := True, PartConnector := True),
     lf_calls = [], lf_op = Some ServiceStart\<rparr>"

lemma ex_life_reachable: "life_reachable True room (ex_life T_Loop)"
proof -
  have "run_calls (P2PService_start 1) ((life_new 1 1 1)\<lparr>lf_calls := P2PService_start 1, lf_op := Some ServiceStart\<rparr>) =
      Some (ex_life T_Loop)"
    by (simp add: P2PService_start_def life_new_def pools_new_def ThreadPool_new_def SessionDataDecoder_start_def
        SessionModuleDataProcessor_start_def pool_start_def join_start_def can_start_def Thread_new_def start_thread_def
        ex_life_def acceptor_can_start_def acceptor_start_def)
  then show ?thesis
    using run_calls_reachable [OF lr_begin [OF lr_new [of True room 1 1 1], of ServiceStart]]
    by (simp add: service_calls_def life_new_def)
qed

lemma ex_life_waiting: "life_reachable True room (ex_life (T_Body D_Blocking))"
proof -
  have move: "life_reachable True room (ex_life q)"
    if "life_reachable True room (ex_life p)" "destroy_own True (lf_destroyer (ex_life p)) (lf_destroyer (ex_life q))" for p q
    using lr_move [OF that(1) lm_destroyer [OF disjI1 [OF that(2)]]] by (simp add: ex_life_def same_orders_def)
  have "life_reachable True room (ex_life (T_Body D_Pred))"
    by (rule move [OF ex_life_reachable])
      (use th_enter [of "lf_destroyer (ex_life T_Loop)" 0 D_Pred "destroy_body True"] in \<open>simp add: ex_life_def\<close>)
  then show ?thesis
    by (rule move)
      (use th_work [of "lf_destroyer (ex_life (T_Body D_Pred))" D_Pred "destroy_body True" destroy_state_new "Go D_Blocking"]
        db_false [of destroy_state_new True False] in \<open>simp add: ex_life_def destroy_state_new_def\<close>)
qed


end
