(* ===== verification/TcpRpc.thy ===== *)
theory TcpRpc
  imports Boot Server Lifecycle
begin

text \<open>
  The TCP RPC server (\<^verbatim>\<open>csm-rpc/tcp\<close>), which forwards to a \<^verbatim>\<open>ServerService\<close>: its initialisation, beside the
  peer-to-peer service of the same node, and the end of the program.
\<close>

section \<open>Initialisation\<close>

text \<open>
  \<^verbatim>\<open>ServerService::initServer\<close>: as in \<^verbatim>\<open>P2PService\<close>, but the socket stays blocking and is closed on every
  failure.
\<close>

definition server_initServer :: "kernel \<Rightarrow> string \<Rightarrow> u16 \<Rightarrow> listen_socket" where
  "server_initServer k listenIp listenPort =
     (if k_socket k = -1 then \<lparr>ls_ret = -1, ls_open = False, ls_addr = None, ls_listening = False\<rparr>
      else if \<not> k_setReuseAddr k then \<lparr>ls_ret = -1, ls_open = False, ls_addr = None, ls_listening = False\<rparr>
      else (let (bound, addr) = Socket_bind k listenIp (ucast listenPort)
            in if bound = -1 then \<lparr>ls_ret = -1, ls_open = False, ls_addr = None, ls_listening = False\<rparr>
               else if Socket_listen k = -1
               then \<lparr>ls_ret = -1, ls_open = False, ls_addr = None, ls_listening = False\<rparr>
               else \<lparr>ls_ret = 0, ls_open = True, ls_addr = Some addr, ls_listening = k_listen k\<rparr>))"

text \<open>The initialisers of the other parts only create threads and return 0.\<close>

definition ServerService_init :: "(nat \<Rightarrow> int \<times> int \<times> bool) \<Rightarrow> kernel \<Rightarrow> node_config \<Rightarrow> int" where
  "ServerService_init reactor k c =
     (if init_reactors reactor (unat (nc_slaveReactorNum c)) = -1 then -1
      else if ls_ret (server_initServer k (nc_p2pIp c) (nc_p2pPort c)) = -1 then -1 else 0)"

definition TcpRpcFactory_create :: "node_config \<Rightarrow> server_service" where
  "TcpRpcFactory_create c = ServerService_new (unat (nc_slaveReactorNum c))"

definition TcpRpcServer_init :: "(nat \<Rightarrow> int \<times> int \<times> bool) \<Rightarrow> kernel \<Rightarrow> node_config \<Rightarrow> int" where
  "TcpRpcServer_init = ServerService_init"

definition TcpRpcServer_start :: "nat \<Rightarrow> call list" where
  "TcpRpcServer_start = ServerService_start"

definition TcpRpcServer_stop :: "nat \<Rightarrow> call list" where
  "TcpRpcServer_stop = ServerService_stop"

definition server_socket_up :: "kernel \<Rightarrow> string \<Rightarrow> u16 \<Rightarrow> bool" where
  "server_socket_up k ip port \<longleftrightarrow> k_socket k \<noteq> -1 \<and> k_setReuseAddr k \<and> k_bind k (listen_addr k ip port)"

lemma server_init_result:
  assumes "inet_pton_documented k"
  shows "server_initServer k ip port =
    (if server_socket_up k ip port
     then \<lparr>ls_ret = 0, ls_open = True, ls_addr = Some (listen_addr k ip port), ls_listening = k_listen k\<rparr>
     else \<lparr>ls_ret = -1, ls_open = False, ls_addr = None, ls_listening = False\<rparr>)"
proof -
  have "fst (k_pton k ip) \<noteq> -1" using assms(1) by (auto simp: inet_pton_documented_def dest: spec [of _ ip])
  moreover have "ucast (ucast port :: u32) = port" by transfer simp
  ultimately show ?thesis
    by (simp add: server_socket_up_def server_initServer_def Socket_bind_def Socket_listen_def listen_addr_def
        split_beta Let_def)
qed

text \<open>
  Its socket never stays open after a failure, and it comes up exactly when every reactor gets its
  descriptors and the socket can be bound.
\<close>

lemma tcp_rpc_comes_up:
  assumes "inet_pton_documented k"
  shows "TcpRpcServer_init reactor k c = 0 \<longleftrightarrow>
    (\<forall>i < unat (nc_slaveReactorNum c). case reactor i of (epfd, eventfd, ctl_ok) \<Rightarrow> epfd \<noteq> -1 \<and> eventfd \<noteq> -1 \<and> ctl_ok) \<and>
    server_socket_up k (nc_p2pIp c) (nc_p2pPort c)"
  by (simp add: TcpRpcServer_init_def ServerService_init_def init_reactors_result server_init_result [OF assms])

section \<open>Beside the peer-to-peer service\<close>

text \<open>The kernel as it is while a socket listens at \<open>a\<close>: no other can be bound there.\<close>

definition occupied :: "u16 \<times> u32 \<Rightarrow> kernel \<Rightarrow> kernel" where
  "occupied a k = k\<lparr>k_bind := \<lambda>b. b \<noteq> a \<and> k_bind k b\<rparr>"

text \<open>
  The TCP RPC server cannot run beside the service of its node.  It binds the address of the
  peer-to-peer service instead of its own, so that on a kernel on which that service has come up it never
  comes up, and after it has come up the other does not.
\<close>

theorem tcp_rpc_address_taken:
  assumes "inet_pton_documented k"
  shows "(ls_ret (initServer k (nc_p2pIp c) (nc_p2pPort c)) = 0 \<longrightarrow>
      TcpRpcServer_init reactor (occupied (the (ls_addr (initServer k (nc_p2pIp c) (nc_p2pPort c)))) k) c = -1) \<and>
    (ls_ret (server_initServer k (nc_p2pIp c) (nc_p2pPort c)) = 0 \<longrightarrow>
      ls_ret (initServer (occupied (the (ls_addr (server_initServer k (nc_p2pIp c) (nc_p2pPort c)))) k)
        (nc_p2pIp c) (nc_p2pPort c)) = -1)"
proof -
  let ?a = "listen_addr k (nc_p2pIp c) (nc_p2pPort c)"
  have doc: "inet_pton_documented (occupied ?a k)" using assms by (simp add: inet_pton_documented_def occupied_def)
  have "\<not> server_socket_up (occupied ?a k) (nc_p2pIp c) (nc_p2pPort c)" "\<not> socket_up (occupied ?a k) (nc_p2pIp c) (nc_p2pPort c)"
    by (simp_all add: server_socket_up_def socket_up_def occupied_def listen_addr_def)
  then show ?thesis
    by (simp add: init_server_result [OF assms] server_init_result [OF assms] init_server_result [OF doc]
        server_init_result [OF doc] TcpRpcServer_init_def ServerService_init_def)
qed

lemma tcp_rpc_address_taken_witness:
  "TcpRpcServer_init (\<lambda>i. (5, 6, True)) (occupied (80, 0x0100000A) ex_kernel) (NodeConfig_new\<lparr>nc_p2pIp := ''10.0.0.1'', nc_p2pPort := 80\<rparr>) = -1"
proof -
  let ?c = "NodeConfig_new\<lparr>nc_p2pIp := ''10.0.0.1'', nc_p2pPort := 80\<rparr>"
  have k: "inet_pton_documented ex_kernel" by (simp add: inet_pton_documented_def ex_kernel_def)
  have "socket_up ex_kernel ''10.0.0.1'' 80" "listen_addr ex_kernel ''10.0.0.1'' 80 = (80, 0x0100000A)"
    by (simp_all add: socket_up_def listen_addr_def ex_kernel_def)
  then show ?thesis
    using tcp_rpc_address_taken [OF k, of ?c "\<lambda>i. (5, 6, True)"] by (simp add: init_server_result [OF k])
qed

section \<open>The end of the program\<close>

text \<open>
  \<^verbatim>\<open>Initializer::stop\<close> stops the HTTP server, the service and the logger, in this order; \<^verbatim>\<open>RpcInitializer\<close> has
  no TCP server.  The last line that it logs comes after the logger has stopped.  \<open>node_calls\<close> are the
  calls the service gets.
\<close>

definition RpcInitializer_init :: int where
  "RpcInitializer_init = (if HttpRpcServer_init = -1 then -1 else 0)"

definition HttpRpcServer_stop :: int where
  "HttpRpcServer_stop = 0"

definition RpcInitializer_stop :: int where
  "RpcInitializer_stop = (if HttpRpcServer_stop = -1 then -1 else 0)"

definition Initializer_stop :: "nat \<Rightarrow> logger \<Rightarrow> int \<times> call list \<times> logger" where
  "Initializer_stop reactors lg =
     (if RpcInitializer_stop = -1 then (-1, [], lg)
      else (let (ret, lg1) = Logger_stop lg
            in (if ret = -1 then -1 else 0, P2PService_stop reactors, lg1)))"

lemma Initializer_stop_result:
  "Initializer_stop reactors lg = (0, P2PService_stop reactors, snd (Logger_stop lg))"
  by (simp add: Initializer_stop_def RpcInitializer_stop_def HttpRpcServer_stop_def Logger_stop_def)

end
