(* ===== verification/Tools.thy ===== *)
theory Tools
  imports Prelude "HOL-Library.Signed_Division"
begin

text \<open>
  Small tools of \<^verbatim>\<open>csm-utilities\<close>: random numbers, elapsed time, the singleton that holds the logger, and the
  creation of folders.
\<close>

section \<open>Random numbers\<close>

text \<open>
  \<open>draw a b\<close> stands for a number drawn from \<^verbatim>\<open>uniform_int_distribution(a, b)\<close>, which requires that \<open>a \<le> b\<close> and
  then gives a number between them.  Arguments are 32-bit words, read as signed numbers.
\<close>

type_synonym s32 = "32 word"

definition int_result :: "int \<Rightarrow> int run" where
  "int_result i = (if - (2 ^ 31) \<le> i \<and> i < 2 ^ 31 then Inr i else Inl SignedOverflow)"

definition uniform :: "(int \<Rightarrow> int \<Rightarrow> int) \<Rightarrow> int \<Rightarrow> int \<Rightarrow> int run" where
  "uniform draw a b = (if a \<le> b then Inr (draw a b) else Inl AssertFailed)"

definition uniform_documented :: "(int \<Rightarrow> int \<Rightarrow> int) \<Rightarrow> bool" where
  "uniform_documented draw \<longleftrightarrow> (\<forall>a b. a \<le> b \<longrightarrow> a \<le> draw a b \<and> draw a b \<le> b)"

definition lcrc :: "(int \<Rightarrow> int \<Rightarrow> int) \<Rightarrow> s32 \<Rightarrow> s32 \<Rightarrow> int run" where
  "lcrc draw lo hi = uniform draw (sint lo) (sint hi)"

definition loro :: "(int \<Rightarrow> int \<Rightarrow> int) \<Rightarrow> s32 \<Rightarrow> s32 \<Rightarrow> int run" where
  "loro draw lo hi = and_then (int_result (sint lo + 1)) (\<lambda>a. and_then (int_result (sint hi - 1)) (uniform draw a))"

definition lorc :: "(int \<Rightarrow> int \<Rightarrow> int) \<Rightarrow> s32 \<Rightarrow> s32 \<Rightarrow> int run" where
  "lorc draw lo hi = and_then (int_result (sint lo + 1)) (\<lambda>a. uniform draw a (sint hi))"

definition lcro :: "(int \<Rightarrow> int \<Rightarrow> int) \<Rightarrow> s32 \<Rightarrow> s32 \<Rightarrow> int run" where
  "lcro draw lo hi = and_then (int_result (sint hi - 1)) (\<lambda>b. uniform draw (sint lo) b)"

lemma s32_range: "- (2 ^ 31) \<le> sint (x :: s32)" "sint (x :: s32) < 2 ^ 31"
  using sint_range_size [of x] by (simp_all add: word_size)

lemma uniform_drawn:
  assumes "uniform_documented draw" and "m = uniform draw a b \<or> b < a \<and> (\<exists>f. m = Inl f)"
  shows "(\<forall>x. m = Inr x \<longrightarrow> a \<le> x \<and> x \<le> b) \<and> ((\<exists>x. m = Inr x) \<longleftrightarrow> a \<le> b)"
  using assms by (auto simp: uniform_def uniform_documented_def split: if_splits)

text \<open>
  The four kinds of intervals are what their names say.  A number is drawn exactly when the interval has
  one, and it lies in it; on an empty interval each of the functions faults, be it in the computation of
  its ends or in the distribution.
\<close>

theorem random_in_interval:
  assumes "uniform_documented draw"
  shows "(\<forall>x. lcrc draw lo hi = Inr x \<longrightarrow> sint lo \<le> x \<and> x \<le> sint hi) \<and>
    (\<forall>x. loro draw lo hi = Inr x \<longrightarrow> sint lo < x \<and> x < sint hi) \<and>
    (\<forall>x. lorc draw lo hi = Inr x \<longrightarrow> sint lo < x \<and> x \<le> sint hi) \<and>
    (\<forall>x. lcro draw lo hi = Inr x \<longrightarrow> sint lo \<le> x \<and> x < sint hi) \<and>
    ((\<exists>x. lcrc draw lo hi = Inr x) \<longleftrightarrow> {sint lo..sint hi} \<noteq> {}) \<and>
    ((\<exists>x. loro draw lo hi = Inr x) \<longleftrightarrow> {sint lo<..<sint hi} \<noteq> {}) \<and>
    ((\<exists>x. lorc draw lo hi = Inr x) \<longleftrightarrow> {sint lo<..sint hi} \<noteq> {}) \<and>
    ((\<exists>x. lcro draw lo hi = Inr x) \<longleftrightarrow> {sint lo..<sint hi} \<noteq> {})"
proof -
  note r = s32_range [of lo] s32_range [of hi]
  note drawn = uniform_drawn [OF assms]
  have "loro draw lo hi = uniform draw (sint lo + 1) (sint hi - 1) \<or> sint hi - 1 < sint lo + 1 \<and> (\<exists>f. loro draw lo hi = Inl f)"
    using r by (auto simp: loro_def int_result_def)
  moreover have "lorc draw lo hi = uniform draw (sint lo + 1) (sint hi) \<or> sint hi < sint lo + 1 \<and> (\<exists>f. lorc draw lo hi = Inl f)"
    using r by (auto simp: lorc_def int_result_def)
  moreover have "lcro draw lo hi = uniform draw (sint lo) (sint hi - 1) \<or> sint hi - 1 < sint lo \<and> (\<exists>f. lcro draw lo hi = Inl f)"
    using r by (auto simp: lcro_def int_result_def)
  moreover have "{sint lo<..<sint hi} \<noteq> {} \<longleftrightarrow> sint lo + 1 \<le> sint hi - 1"
    by (auto simp: ex_in_conv [symmetric] simp del: ex_in_conv intro: exI [of _ "sint lo + 1"])
  ultimately show ?thesis
    using drawn [of "lcrc draw lo hi" "sint lo" "sint hi"] drawn [of "loro draw lo hi" "sint lo + 1" "sint hi - 1"]
      drawn [of "lorc draw lo hi" "sint lo + 1" "sint hi"] drawn [of "lcro draw lo hi" "sint lo" "sint hi - 1"]
    unfolding lcrc_def by (simp add: add1_zle_eq le_diff_eq)
qed

lemma random_in_interval_witness:
  "(\<exists>x. loro (\<lambda>a b. b) 3 5 = Inr x \<and> 3 < x \<and> x < 5) \<and> \<not> (\<exists>x. loro (\<lambda>a b. b) 4 5 = Inr x)"
proof -
  have doc: "uniform_documented (\<lambda>a b. b)" by (simp add: uniform_documented_def)
  have some: "loro (\<lambda>a b. b) 3 5 = Inr 4" and none: "loro (\<lambda>a b. b) 4 5 = Inl AssertFailed"
    by (simp_all add: loro_def int_result_def uniform_def)
  have "sint (3 :: s32) < 4 \<and> 4 < sint (5 :: s32)" using random_in_interval [OF doc, of 3 5] some by blast
  then show ?thesis using some none by simp
qed

section \<open>Elapsed time\<close>

text \<open>
  The clock counts nanoseconds.  Nothing makes it run forward only: \<^verbatim>\<open>high_resolution_clock\<close> may be the
  system clock.  \<^verbatim>\<open>duration_cast\<close> cuts towards zero.
\<close>

definition getElapsedTimeInSec :: "int \<Rightarrow> int \<Rightarrow> u64" where
  "getElapsedTimeInSec begin now = of_int ((now - begin) sdiv 10 ^ 9)"

definition getElapsedTimeInMilliSec :: "int \<Rightarrow> int \<Rightarrow> u64" where
  "getElapsedTimeInMilliSec begin now = of_int ((now - begin) sdiv 10 ^ 6)"

lemma unat_negative:
  assumes "1 \<le> q" and "q < 2 ^ 63"
  shows "unat (of_int (- q) :: u64) = nat (2 ^ 64 - q)"
proof -
  have "(- q) mod 2 ^ 64 = (- q + 2 ^ 64) mod 2 ^ 64" by (rule mod_add_self2 [symmetric])
  also have "\<dots> = - q + 2 ^ 64" by (rule mod_pos_pos_trivial) (use assms in simp_all)
  finally have "uint (of_int (- q) :: u64) = - q + 2 ^ 64" by (simp only: uint_word_of_int len_bit0 len_num1) simp
  then show ?thesis by (simp only: unat_eq_nat_uint)
qed

text \<open>A clock that is set back makes the elapsed time enormous, so that every interval has passed.\<close>

lemma elapsed_backwards:
  assumes "10 ^ 6 \<le> begin - now" and "begin - now < 2 ^ 63"
  shows "2 ^ 63 \<le> unat (getElapsedTimeInMilliSec begin now)"
proof -
  define q where "q = (begin - now) div 10 ^ 6"
  have "1000000 \<le> begin - now" "begin - now < 9223372036854775808" using assms by simp_all
  then have "1 \<le> (begin - now) div 1000000" "(begin - now) div 1000000 < 9223372036854775808" by linarith+
  then have q: "1 \<le> q" "q < 2 ^ 63" by (simp_all add: q_def)
  have "(now - begin) sdiv 10 ^ 6 = - q" using assms(1) by (simp add: signed_divide_int_def q_def)
  then have "unat (getElapsedTimeInMilliSec begin now) = nat (2 ^ 64 - q)"
    using unat_negative [OF q] by (simp only: getElapsedTimeInMilliSec_def)
  then show ?thesis using q(2) by simp
qed

section \<open>The singleton\<close>

text \<open>
  \<^verbatim>\<open>instance\<close> makes the object once and \<^verbatim>\<open>destory\<close> deletes it once; the pointer stays.
\<close>

record singleton =
  sg_made :: bool
  sg_destroyed :: bool
  sg_alive :: bool

definition Singleton_new :: singleton where
  "Singleton_new = \<lparr>sg_made = False, sg_destroyed = False, sg_alive = False\<rparr>"

text \<open>The use of the object that \<^verbatim>\<open>instance\<close> returns.\<close>

definition Singleton_use :: "singleton \<Rightarrow> singleton run" where
  "Singleton_use s = (let s1 = (if sg_made s then s else s\<lparr>sg_made := True, sg_alive := True\<rparr>)
     in if sg_alive s1 then Inr s1 else Inl Dangling)"

definition Singleton_destory :: "singleton \<Rightarrow> singleton" where
  "Singleton_destory s = (if sg_destroyed s then s else s\<lparr>sg_destroyed := True, sg_alive := False\<rparr>)"

fun singleton_run :: "bool list \<Rightarrow> singleton \<Rightarrow> singleton run" where
  "singleton_run [] s = Inr s"
| "singleton_run (use # ops) s =
     and_then (if use then Singleton_use s else Inr (Singleton_destory s)) (singleton_run ops)"

lemma singleton_live: "sg_made s \<Longrightarrow> sg_alive s \<Longrightarrow> sg_destroyed s \<Longrightarrow> \<exists>t. singleton_run ops s = Inr t"
  by (induction ops arbitrary: s) (auto simp: Singleton_use_def Singleton_destory_def)

lemma singleton_early: "\<not> sg_made s \<Longrightarrow> sg_destroyed s \<Longrightarrow> \<exists>t. singleton_run ops s = Inr t"
  by (induction ops arbitrary: s) (auto simp: Singleton_use_def Singleton_destory_def singleton_live)

lemma singleton_dead: "sg_made s \<Longrightarrow> \<not> sg_alive s \<Longrightarrow> sg_destroyed s \<Longrightarrow>
    (\<exists>f. singleton_run ops s = Inl f) \<longleftrightarrow> True \<in> set ops"
  by (induction ops arbitrary: s) (auto simp: Singleton_use_def Singleton_destory_def)

lemma singleton_made: "sg_made s \<Longrightarrow> sg_alive s \<Longrightarrow> \<not> sg_destroyed s \<Longrightarrow>
    (\<exists>f. singleton_run ops s = Inl f) \<longleftrightarrow> True \<in> set (dropWhile id ops)"
proof (induction ops arbitrary: s)
  case (Cons use ops)
  show ?case
  proof (cases use)
    case True
    then show ?thesis using Cons by (simp add: Singleton_use_def)
  next
    case False
    then show ?thesis using singleton_dead [of "Singleton_destory s" ops] Cons.prems by (simp add: Singleton_destory_def)
  qed
qed simp

text \<open>
  A destroyed singleton is used again.  A use of it faults exactly when it has been used, destroyed and is
  then used once more; destroying it before its first use leaves it alive for ever.
\<close>

theorem singleton_faults_exactly:
  "(\<exists>f. singleton_run ops Singleton_new = Inl f) \<longleftrightarrow> ops \<noteq> [] \<and> hd ops \<and> True \<in> set (dropWhile id ops)"
proof (cases ops)
  case (Cons use rest)
  show ?thesis
  proof (cases use)
    case True
    then show ?thesis
      using Cons singleton_made [of "Singleton_new\<lparr>sg_made := True, sg_alive := True\<rparr>" rest]
      by (simp add: Singleton_use_def Singleton_new_def)
  next
    case False
    then show ?thesis
      using Cons singleton_early [of "Singleton_destory Singleton_new" rest]
      by (auto simp: Singleton_destory_def Singleton_new_def)
  qed
qed simp

section \<open>Folders\<close>

text \<open>
  \<open>exists\<close> and \<open>create\<close> are the answers of the file system; \<^verbatim>\<open>create_directories\<close> also answers no when it had
  nothing to make.
\<close>

definition createFolder :: "(string \<Rightarrow> bool) \<Rightarrow> (string \<Rightarrow> bool) \<Rightarrow> string \<Rightarrow> int" where
  "createFolder exists_path create_dirs path = (if \<not> exists_path path then (if create_dirs path then 0 else -1) else 0)"

definition createFolderByFilename :: "(string \<Rightarrow> string) \<Rightarrow> (string \<Rightarrow> bool) \<Rightarrow> (string \<Rightarrow> bool) \<Rightarrow> string \<Rightarrow> int" where
  "createFolderByFilename parent exists_path create_dirs filename = createFolder exists_path create_dirs (parent filename)"

end
